(* ===== verification/Prelude.thy ===== *)
theory Prelude
  imports Main "HOL-Library.Word"
begin

text \<open>
  Shared vocabulary of the development: machine integers at the widths the Rust code uses,
  fixed-size byte arrays, the result type of fallible operations, and the lemma collections
  the component theories add to.

  \<^item> A byte array \<open>[u8; N]\<close> is a word of \<open>8 * N\<close> bits, read big-endian: the first array
    element is the most significant byte. Theory \<open>Bytes\<close> proves that this is a bijection with
    byte lists of length N and that the numerical order of the words is Rust's (lexicographic)
    order of the arrays.
  \<^item> \<open>Vec<u8>\<close> and slices are lists of bytes.
  \<^item> A fallible operation returns \<open>'e + 'a\<close>, with \<open>Inl\<close> for an early return with an error.
  \<^item> Unsigned arithmetic written with plain operators wraps around, as it does in the release
    profile the crates are built with (no manifest turns overflow checks on).
\<close>

section \<open>Types\<close>

type_synonym byte = "8 word"
type_synonym bytes = "byte list"
type_synonym u16 = "16 word"
type_synonym u32 = "32 word"
type_synonym u64 = "64 word"
type_synonym u128 = "128 word"
type_synonym usize = "64 word"

type_synonym bytes4 = "32 word"
type_synonym bytes20 = "160 word"
type_synonym bytes32 = "256 word"
type_synonym bytes48 = "384 word"
type_synonym bytes96 = "768 word"

text \<open>The cryptographic hash functions come from crates that are not part of the repository:
  every definition that uses one takes it as an argument of this type.\<close>

type_synonym hash32 = "bytes \<Rightarrow> bytes32"

section \<open>Results\<close>

fun rbind :: "'e + 'a \<Rightarrow> ('a \<Rightarrow> 'e + 'b) \<Rightarrow> 'e + 'b" where
  "rbind (Inl e) f = Inl e"
| "rbind (Inr x) f = f x"

fun map_err :: "('e \<Rightarrow> 'f) \<Rightarrow> 'e + 'a \<Rightarrow> 'f + 'a" where
  "map_err g (Inl e) = Inl (g e)"
| "map_err g (Inr x) = Inr x"

text \<open>\<open>ensure c e\<close> is \<open>if !c { bail!(e) }\<close>.\<close>

definition ensure :: "bool \<Rightarrow> 'e \<Rightarrow> 'e + unit" where
  "ensure c e = (if c then Inr () else Inl e)"

text \<open>A loop over a list whose body may return early with an error.\<close>

fun rfold :: "('a \<Rightarrow> 's \<Rightarrow> 'e + 's) \<Rightarrow> 'a list \<Rightarrow> 's \<Rightarrow> 'e + 's" where
  "rfold f [] s = Inr s"
| "rfold f (x # xs) s = rbind (f x s) (rfold f xs)"

text \<open>Collecting the results of a loop, up to the first error.\<close>

fun rmap :: "('a \<Rightarrow> 'e + 'b) \<Rightarrow> 'a list \<Rightarrow> 'e + 'b list" where
  "rmap f [] = Inr []"
| "rmap f (x # xs) = rbind (f x) (\<lambda>y. rbind (rmap f xs) (\<lambda>ys. Inr (y # ys)))"

lemma length_rmap: "rmap f xs = Inr ys \<Longrightarrow> length ys = length xs"
proof (induction xs arbitrary: ys)
  case (Cons x xs)
  then show ?case by (cases "f x"; cases "rmap f xs") auto
qed simp

fun is_ok :: "'e + 'a \<Rightarrow> bool" where
  "is_ok (Inl e) = False"
| "is_ok (Inr x) = True"

lemma rbind_Inr_iff [simp]:
  "rbind m f = Inr y \<longleftrightarrow> (\<exists>x. m = Inr x \<and> f x = Inr y)"
  by (cases m) auto

lemma map_err_Inr_iff [simp]: "map_err g m = Inr y \<longleftrightarrow> m = Inr y"
  by (cases m) auto

lemma ensure_Inr_iff [simp]: "ensure c e = Inr u \<longleftrightarrow> c"
  by (simp add: ensure_def)

lemma ensure_Inl_iff [simp]: "ensure c e = Inl e' \<longleftrightarrow> \<not> c \<and> e' = e"
  by (auto simp: ensure_def)

lemma ensure_True [simp]: "ensure True e = Inr ()"
  by (simp add: ensure_def)

lemma ensure_False [simp]: "ensure False e = Inl e"
  by (simp add: ensure_def)

lemma is_ok_iff: "is_ok r \<longleftrightarrow> (\<exists>x. r = Inr x)"
  by (cases r) auto

lemma rfold_append: "rfold f (xs @ ys) s = rbind (rfold f xs s) (rfold f ys)"
proof (induction xs arbitrary: s)
  case (Cons x xs)
  then show ?case by (cases "f x s") simp_all
qed simp

text \<open>An invariant of the body is an invariant of the loop.\<close>

lemma rfold_invariant:
  assumes "rfold f xs s = Inr s'" "P s"
    and "\<And>x s s'. x \<in> set xs \<Longrightarrow> f x s = Inr s' \<Longrightarrow> P s \<Longrightarrow> P s'"
  shows "P s'"
  using assms
proof (induction xs arbitrary: s)
  case (Cons x xs)
  from Cons.prems(1) obtain t where t: "f x s = Inr t" "rfold f xs t = Inr s'" by auto
  show ?case
    by (rule Cons.IH [OF t(2)]) (use t Cons.prems in auto)
qed simp

section \<open>Unsigned arithmetic of the standard library\<close>

definition checked_add64 :: "u64 \<Rightarrow> u64 \<Rightarrow> u64 option" where
  "checked_add64 a b = (if uint a + uint b < 2 ^ 64 then Some (a + b) else None)"

definition saturating_sub64 :: "u64 \<Rightarrow> u64 \<Rightarrow> u64" where
  "saturating_sub64 a b = (if b \<le> a then a - b else 0)"

definition saturating_add64 :: "u64 \<Rightarrow> u64 \<Rightarrow> u64" where
  "saturating_add64 a b = (if uint a + uint b < 2 ^ 64 then a + b else - 1)"

lemma checked_add64_SomeD: "checked_add64 a b = Some c \<Longrightarrow> unat c = unat a + unat b"
proof -
  assume "checked_add64 a b = Some c"
  then have *: "uint a + uint b < 2 ^ 64" and c: "c = a + b"
    by (simp_all add: checked_add64_def split: if_splits)
  from * have "int (unat a + unat b) < int (2 ^ 64)" by simp
  then have "unat a + unat b < 2 ^ LENGTH(64)" by (simp only: of_nat_less_iff) simp
  then have "unat (a + b) = unat a + unat b" by (rule unat_add_lem [THEN iffD1])
  with c show ?thesis by simp
qed

lemma checked_add64_None_iff: "checked_add64 a b = None \<longleftrightarrow> 2 ^ 64 \<le> unat a + unat b"
proof -
  have "uint a + uint b < 2 ^ 64 \<longleftrightarrow> int (unat a + unat b) < int (2 ^ 64)" by simp
  also have "\<dots> \<longleftrightarrow> unat a + unat b < 2 ^ 64" by (simp only: of_nat_less_iff)
  finally show ?thesis by (simp add: checked_add64_def not_less)
qed

lemma unat_saturating_sub64: "unat (saturating_sub64 a b) = unat a - unat b"
  by (auto simp: saturating_sub64_def unat_sub word_le_nat_alt)

section \<open>Reading the bits of an index\<close>

lemma unat_drop_bit_one [simp]: "unat (drop_bit (Suc 0) (w :: 'a::len word)) = unat w div 2"
  by (simp only: unat_drop_bit_eq) (simp add: drop_bit_eq_div)

lemma unat_of_nat_small: "n < 2 ^ LENGTH('a) \<Longrightarrow> unat (of_nat n :: 'a::len word) = n"
  by (simp add: unat_of_nat)

lemma word_mod_2_eq_0_iff: "(w :: u64) mod 2 = 0 \<longleftrightarrow> even (unat w)"
  by (simp add: word_unat_eq_iff unat_mod even_iff_mod_2_eq_zero)

section \<open>Collision freedom on given inputs\<close>

lemma inj_on_pairD: "inj_on f {a, b} \<Longrightarrow> f a = f b \<Longrightarrow> a = b"
  by (erule inj_onD) simp_all

section \<open>Lists and options\<close>

lemma nth_append_snoc [simp]: "i < length xs \<Longrightarrow> (xs @ [x]) ! i = xs ! i"
  by (simp add: nth_append)

definition unwrap_or :: "'a option \<Rightarrow> 'a \<Rightarrow> 'a" where
  "unwrap_or o' d = (case o' of None \<Rightarrow> d | Some x \<Rightarrow> x)"

lemma unwrap_or_simps [simp]: "unwrap_or None d = d" "unwrap_or (Some x) d = x"
  by (simp_all add: unwrap_or_def)

end
