(* ===== verification/Merkle_Core.thy ===== *)
theory Merkle_Core
  imports Prelude
begin

text \<open>
  Binary Merkle trees over any node hash: the reference semantics against which the
  incremental tree of the pool, the sanctions tree and the SSZ trees are verified.
  \<^item> \<open>tree_node node f l i\<close> is the node number i of level l of the infinite forest whose
    leaves are \<open>f 0, f 1, \<dots>\<close>; a tree of depth d is \<open>tree_node node f d 0\<close>.
  \<^item> \<open>climb node i x ss\<close> folds a sibling path ss over the value x at position i, as every
    verification loop of the code does.
  The locales state what the code's node and leaf hashes promise; completeness and the two
  binding theorems are proved once there.
\<close>

fun tree_node :: "('h \<Rightarrow> 'h \<Rightarrow> 'h) \<Rightarrow> (nat \<Rightarrow> 'h) \<Rightarrow> nat \<Rightarrow> nat \<Rightarrow> 'h" where
  "tree_node node f 0 i = f i"
| "tree_node node f (Suc l) i = node (tree_node node f l (2 * i)) (tree_node node f l (2 * i + 1))"

fun climb :: "('h \<Rightarrow> 'h \<Rightarrow> 'h) \<Rightarrow> nat \<Rightarrow> 'h \<Rightarrow> 'h list \<Rightarrow> 'h" where
  "climb node i x [] = x"
| "climb node i x (s # ss) = climb node (i div 2) (if even i then node x s else node s x) ss"

definition buddy :: "nat \<Rightarrow> nat" where
  "buddy j = (if even j then j + 1 else j - 1)"

definition sibling_path :: "('h \<Rightarrow> 'h \<Rightarrow> 'h) \<Rightarrow> (nat \<Rightarrow> 'h) \<Rightarrow> nat \<Rightarrow> nat \<Rightarrow> 'h list" where
  "sibling_path node f d i = map (\<lambda>l. tree_node node f l (buddy (i div 2 ^ l))) [0..<d]"

text \<open>The preimages hashed along a path, and by a tree on the way from its root to a leaf.\<close>

fun path_pres :: "('h \<Rightarrow> 'h \<Rightarrow> bytes) \<Rightarrow> ('h \<Rightarrow> 'h \<Rightarrow> 'h) \<Rightarrow> nat \<Rightarrow> 'h \<Rightarrow> 'h list \<Rightarrow> bytes list" where
  "path_pres pre node i x [] = []"
| "path_pres pre node i x (s # ss) =
     (if even i then pre x s else pre s x) #
     path_pres pre node (i div 2) (if even i then node x s else node s x) ss"

definition trunk_pres ::
    "('h \<Rightarrow> 'h \<Rightarrow> bytes) \<Rightarrow> ('h \<Rightarrow> 'h \<Rightarrow> 'h) \<Rightarrow> (nat \<Rightarrow> 'h) \<Rightarrow> nat \<Rightarrow> nat \<Rightarrow> bytes list" where
  "trunk_pres pre node f d i =
     map (\<lambda>l. pre (tree_node node f l (2 * (i div 2 ^ Suc l)))
                  (tree_node node f l (2 * (i div 2 ^ Suc l) + 1))) [0..<d]"

fun tree_pres ::
    "('h \<Rightarrow> 'h \<Rightarrow> bytes) \<Rightarrow> ('h \<Rightarrow> 'h \<Rightarrow> 'h) \<Rightarrow> (nat \<Rightarrow> 'h) \<Rightarrow> nat \<Rightarrow> nat \<Rightarrow> bytes list" where
  "tree_pres pre node f 0 j = []"
| "tree_pres pre node f (Suc l) j =
     pre (tree_node node f l (2 * j)) (tree_node node f l (2 * j + 1)) #
     tree_pres pre node f l (2 * j) @ tree_pres pre node f l (2 * j + 1)"

section \<open>Facts that hold for any node function\<close>

lemma div_pow_Suc: "(i :: nat) div 2 ^ Suc d = i div 2 ^ d div 2"
  by (metis div_mult2_eq power_Suc2)

lemma mod_pow_Suc: "(i :: nat) mod 2 ^ Suc l = i mod 2 ^ l + (if even (i div 2 ^ l) then 0 else 2 ^ l)"
  using mod_mult2_eq [of i "2 ^ l" 2] by (simp add: mod_2_eq_odd mult.commute)

lemma climb_snoc:
  "climb node i x (ss @ [s]) =
     (if even (i div 2 ^ length ss) then node (climb node i x ss) s else node s (climb node i x ss))"
  by (induction ss arbitrary: i x) (simp_all add: div_mult2_eq)

lemma path_pres_snoc:
  "path_pres pre node i x (ss @ [s]) = path_pres pre node i x ss @
     [if even (i div 2 ^ length ss) then pre (climb node i x ss) s else pre s (climb node i x ss)]"
  by (induction ss arbitrary: i x) (simp_all add: div_mult2_eq)

text \<open>A path looks at as many bits of the position as it has levels.\<close>

lemma mod_double: "i mod (2 * k) div 2 = i div 2 mod k" "even (i mod (2 * k)) = even i" for k :: nat
  by (simp_all add: mod_mult2_eq dvd_mod_iff)

lemma climb_mod: "climb node (i mod 2 ^ length ss) x ss = climb node i x ss"
  by (induction ss arbitrary: i x) (simp_all add: mod_double)

lemma path_pres_mod: "path_pres pre node (i mod 2 ^ length ss) x ss = path_pres pre node i x ss"
  by (induction ss arbitrary: i x) (simp_all add: mod_double)

lemma tree_node_cong:
  "(\<And>k. i * 2 ^ l \<le> k \<Longrightarrow> k < (i + 1) * 2 ^ l \<Longrightarrow> f k = g k) \<Longrightarrow>
   tree_node node f l i = tree_node node g l i"
proof (induction l arbitrary: i)
  case (Suc l)
  have "tree_node node f l (2 * i) = tree_node node g l (2 * i)"
    by (rule Suc.IH) (auto intro!: Suc.prems simp: algebra_simps)
  moreover have "tree_node node f l (2 * i + 1) = tree_node node g l (2 * i + 1)"
    by (rule Suc.IH) (auto intro!: Suc.prems simp: algebra_simps)
  ultimately show ?case by simp
qed simp

text \<open>A path of the tree's own siblings leads back to the root.\<close>

lemma climb_sibling_path:
  "climb node i (f i) (sibling_path node f d i) = tree_node node f d (i div 2 ^ d)"
proof (induction d)
  case (Suc d)
  let ?q = "i div 2 ^ d"
  have len: "length (sibling_path node f d i) = d" by (simp add: sibling_path_def)
  have half: "i div 2 ^ Suc d = ?q div 2" by (rule div_pow_Suc)
  have "climb node i (f i) (sibling_path node f (Suc d) i) =
      (if even ?q then node (tree_node node f d ?q) (tree_node node f d (?q + 1))
       else node (tree_node node f d (?q - 1)) (tree_node node f d ?q))"
    using Suc.IH by (simp add: sibling_path_def climb_snoc len [unfolded sibling_path_def] buddy_def)
  also have "\<dots> = tree_node node f (Suc d) (?q div 2)"
    by (cases "even ?q") (auto elim!: evenE oddE)
  finally show ?case by (simp add: half del: power_Suc)
qed (simp add: sibling_path_def)

lemma length_sibling_path [simp]: "length (sibling_path node f d i) = d"
  by (simp add: sibling_path_def)

section \<open>Node hashes\<close>

locale merkle_node =
  fixes H :: "bytes \<Rightarrow> 'h"
    and pre :: "'h \<Rightarrow> 'h \<Rightarrow> bytes"
    and node :: "'h \<Rightarrow> 'h \<Rightarrow> 'h"
  assumes node_eq: "node a b = H (pre a b)"
    and pre_inj: "pre a b = pre c d \<Longrightarrow> a = c \<and> b = d"
begin

lemma node_inj:
  assumes "node a b = node c d" "inj_on H S" "pre a b \<in> S" "pre c d \<in> S"
  shows "a = c \<and> b = d"
  using assms by (auto simp: node_eq inj_on_def dest: pre_inj)

text \<open>
  Binding at the tree's own depth: a path as long as the tree is deep that leads to the root
  started from the leaf at its position, unless two preimages the path and the tree hash collide.
\<close>

lemma climb_binding:
  assumes "climb node i x ss = tree_node node f (length ss) (i div 2 ^ length ss)"
    and "inj_on H (set (path_pres pre node i x ss) \<union> set (trunk_pres pre node f (length ss) i))"
  shows "x = f i \<and> ss = sibling_path node f (length ss) i"
  using assms
proof (induction ss rule: rev_induct)
  case Nil
  then show ?case by (simp add: sibling_path_def)
next
  case (snoc s ss)
  let ?d = "length ss"
  let ?q = "i div 2 ^ ?d"
  let ?y = "climb node i x ss"
  let ?S = "set (path_pres pre node i x (ss @ [s])) \<union> set (trunk_pres pre node f (length (ss @ [s])) i)"
  let ?a = "tree_node node f ?d (2 * (?q div 2))" and ?b = "tree_node node f ?d (2 * (?q div 2) + 1)"
  have half: "i div 2 ^ Suc ?d = ?q div 2" by (rule div_pow_Suc)
  have tree: "tree_node node f (length (ss @ [s])) (i div 2 ^ length (ss @ [s])) = node ?a ?b"
    by (simp add: half del: power_Suc)
  have trunk: "trunk_pres pre node f (length (ss @ [s])) i = trunk_pres pre node f ?d i @ [pre ?a ?b]"
    by (simp add: trunk_pres_def half del: power_Suc)
  have inS: "pre ?a ?b \<in> ?S" unfolding trunk by simp
  have step: "?y = tree_node node f ?d ?q \<and> s = tree_node node f ?d (buddy ?q)"
  proof (cases "even ?q")
    case True
    then have "node ?y s = node ?a ?b" "pre ?y s \<in> ?S"
      using snoc.prems(1) tree by (simp_all add: climb_snoc path_pres_snoc)
    with node_inj [OF _ snoc.prems(2) _ inS] have "?y = ?a" "s = ?b" by auto
    with True show ?thesis by (simp add: buddy_def)
  next
    case False
    then have "node s ?y = node ?a ?b" "pre s ?y \<in> ?S"
      using snoc.prems(1) tree by (simp_all add: climb_snoc path_pres_snoc)
    with node_inj [OF _ snoc.prems(2) _ inS] have "s = ?a" "?y = ?b" by auto
    with False show ?thesis by (simp add: buddy_def)
  qed
  have "inj_on H (set (path_pres pre node i x ss) \<union> set (trunk_pres pre node f ?d i))"
    by (rule inj_on_subset [OF snoc.prems(2)]) (unfold trunk, auto simp: path_pres_snoc)
  with snoc.IH step have "x = f i" "ss = sibling_path node f ?d i" by auto
  then show ?case
    using step by (auto simp: sibling_path_def)
qed

text \<open>A root determines all the leaves below it, unless two preimages of the trees collide.\<close>

lemma tree_binding:
  assumes "tree_node node f l j = tree_node node g l j" "inj_on H S"
    and "set (tree_pres pre node f l j) \<subseteq> S" "set (tree_pres pre node g l j) \<subseteq> S"
    and "j * 2 ^ l \<le> n" "n < Suc j * 2 ^ l"
  shows "f n = g n"
  using assms(1,3-6)
proof (induction l arbitrary: j)
  case (Suc l)
  have eq: "tree_node node f l (2 * j) = tree_node node g l (2 * j) \<and>
      tree_node node f l (2 * j + 1) = tree_node node g l (2 * j + 1)"
    by (rule node_inj [OF _ assms(2)]) (use Suc.prems in simp_all)
  show ?case
  proof (cases "n < Suc (2 * j) * 2 ^ l")
    case True
    show ?thesis by (rule Suc.IH [of "2 * j"]) (use eq Suc.prems True in simp_all)
  next
    case False
    show ?thesis by (rule Suc.IH [of "2 * j + 1"]) (use eq Suc.prems False in \<open>simp_all add: algebra_simps\<close>)
  qed
qed (auto simp: le_less_Suc_eq less_Suc_eq_le)

end

section \<open>Trees whose leaves are hashes of keys, in a domain of their own\<close>

locale merkle_leaf = merkle_node H pre node
  for H :: "bytes \<Rightarrow> 'h" and pre and node +
  fixes lpre :: "'k \<Rightarrow> bytes"
    and leaf :: "'k \<Rightarrow> 'h"
    and valid :: "'k \<Rightarrow> bool"
  assumes leaf_eq: "leaf k = H (lpre k)"
    and lpre_inj: "valid k \<Longrightarrow> valid k' \<Longrightarrow> lpre k = lpre k' \<Longrightarrow> k = k'"
    and lpre_pre: "valid k \<Longrightarrow> lpre k \<noteq> pre a b"
begin

text \<open>
  When the preimages of leaves and of nodes are never equal, a path binds its leaf whatever its
  length: it must be exactly as long as the tree is deep. A leaf of the tree is the hash of a key,
  or a value that none of the preimages in play hashes to.
\<close>

definition proper_leaf :: "bytes set \<Rightarrow> 'h \<Rightarrow> bool" where
  "proper_leaf S h \<longleftrightarrow> (\<exists>k. valid k \<and> h = leaf k \<and> lpre k \<in> S) \<or> h \<notin> H ` S"

lemma climb_sound:
  assumes "climb node i (leaf k) ss = tree_node node f l j"
    and "inj_on H S"
    and "set (path_pres pre node i (leaf k) ss) \<subseteq> S"
    and "set (tree_pres pre node f l j) \<subseteq> S"
    and "lpre k \<in> S" and "\<And>n. j * 2 ^ l \<le> n \<Longrightarrow> n < Suc j * 2 ^ l \<Longrightarrow> proper_leaf S (f n)"
    and "valid k"
  shows "length ss = l \<and> f (j * 2 ^ l + i mod 2 ^ l) = leaf k"
  using assms(1,3,4,6)
proof (induction l arbitrary: j ss)
  case 0
  have proper: "proper_leaf S (f j)" using 0(4) [of j] by simp
  show ?case
  proof (cases ss rule: rev_cases)
    case Nil
    with 0(1) show ?thesis by simp
  next
    case (snoc ts t)
    then obtain a b where ab: "climb node i (leaf k) ss = node a b" "pre a b \<in> S"
      using 0(2) by (auto simp: climb_snoc path_pres_snoc split: if_splits)
    with 0(1) have "f j = node a b" by simp
    then have eq: "f j = H (pre a b)" by (simp only: node_eq)
    with ab(2) proper obtain k' where k': "valid k'" "f j = leaf k'" "lpre k' \<in> S"
      by (auto simp: proper_leaf_def)
    with eq have "H (pre a b) = H (lpre k')" by (simp add: leaf_eq)
    with ab(2) k'(3) assms(2) have "pre a b = lpre k'" by (rule_tac inj_onD)
    with lpre_pre [OF k'(1)] show ?thesis by metis
  qed
next
  case (Suc l)
  let ?a = "tree_node node f l (2 * j)" and ?b = "tree_node node f l (2 * j + 1)"
  have inS: "pre ?a ?b \<in> S" using Suc.prems(3) by simp
  show ?case
  proof (cases ss rule: rev_cases)
    case Nil
    with Suc.prems(1) have "leaf k = node ?a ?b" by simp
    then have "H (lpre k) = H (pre ?a ?b)" by (simp only: leaf_eq [symmetric] node_eq [symmetric])
    with inS assms(2,5) have "lpre k = pre ?a ?b" by (simp add: inj_on_def)
    with lpre_pre [OF assms(7)] show ?thesis by metis
  next
    case (snoc ts t)
    let ?y = "climb node i (leaf k) ts"
    have sub: "set (path_pres pre node i (leaf k) ts) \<subseteq> S"
      using Suc.prems(2) snoc by (auto simp: path_pres_snoc)
    have trees: "set (tree_pres pre node f l (2 * j)) \<subseteq> S" "set (tree_pres pre node f l (2 * j + 1)) \<subseteq> S"
      using Suc.prems(3) by auto
    show ?thesis
    proof (cases "even (i div 2 ^ length ts)")
      case True
      then have "node ?y t = node ?a ?b" "pre ?y t \<in> S"
        using Suc.prems(1,2) snoc by (simp_all add: climb_snoc path_pres_snoc)
      with node_inj [OF _ assms(2) _ inS] have "?y = ?a" by auto
      from Suc.IH [OF this sub trees(1)] Suc.prems(4)
      have "length ts = l" "f (2 * j * 2 ^ l + i mod 2 ^ l) = leaf k" by simp_all
      with True snoc show ?thesis by (simp add: mod_pow_Suc [unfolded power_Suc] algebra_simps)
    next
      case False
      then have "node t ?y = node ?a ?b" "pre t ?y \<in> S"
        using Suc.prems(1,2) snoc by (simp_all add: climb_snoc path_pres_snoc)
      with node_inj [OF _ assms(2) _ inS] have "?y = ?b" by auto
      from Suc.IH [OF this sub trees(2)] Suc.prems(4)
      have "length ts = l" "f ((2 * j + 1) * 2 ^ l + i mod 2 ^ l) = leaf k" by simp_all
      with False snoc show ?thesis by (simp add: mod_pow_Suc [unfolded power_Suc] algebra_simps)
    qed
  qed
qed

lemma leaf_inj:
  "leaf k = leaf k' \<Longrightarrow> inj_on H S \<Longrightarrow> lpre k \<in> S \<Longrightarrow> lpre k' \<in> S \<Longrightarrow> valid k \<Longrightarrow> valid k' \<Longrightarrow> k = k'"
  by (auto simp: leaf_eq dest: inj_onD lpre_inj)

end

end
