(* ===== verification/Bytes.thy ===== *)
theory Bytes
  imports Prelude
begin

text \<open>
  Byte-level views of words: \<open>to_le_bytes\<close>, \<open>to_be_bytes\<close>, their inverses, and byte arrays.
  The lemmas are the round trips, injectivity (on which every statement about hash preimages
  rests) and the agreement of the word order with the lexicographic order of byte arrays.
\<close>

section \<open>Little-endian digits of an integer\<close>

fun le_of_int :: "nat \<Rightarrow> int \<Rightarrow> bytes" where
  "le_of_int 0 x = []"
| "le_of_int (Suc n) x = word_of_int (x mod 256) # le_of_int n (x div 256)"

fun int_of_le :: "bytes \<Rightarrow> int" where
  "int_of_le [] = 0"
| "int_of_le (b # bs) = uint b + 256 * int_of_le bs"

lemma length_le_of_int [simp]: "length (le_of_int n x) = n"
  by (induction n arbitrary: x) simp_all

lemma uint_byte_lt: "uint (b :: byte) < 256"
  using uint_lt2p [of b] by simp

lemma int_of_le_nonneg [simp]: "0 \<le> int_of_le bs"
  by (induction bs) simp_all

lemma int_of_le_bound: "int_of_le bs < 256 ^ length bs"
proof (induction bs)
  case (Cons b bs)
  then have "int_of_le bs + 1 \<le> 256 ^ length bs" by simp
  then have "256 * int_of_le bs + 256 \<le> 256 ^ length (b # bs)" by simp
  with uint_byte_lt [of b] show ?case by simp
qed simp

lemma int_of_le_of_int: "0 \<le> x \<Longrightarrow> int_of_le (le_of_int n x) = x mod 256 ^ n"
proof (induction n arbitrary: x)
  case (Suc n)
  have "uint (word_of_int (x mod 256) :: byte) = x mod 256"
    by (simp add: uint_word_of_int)
  with Suc have "int_of_le (le_of_int (Suc n) x) = x mod 256 + 256 * (x div 256 mod 256 ^ n)"
    by (simp add: pos_imp_zdiv_nonneg_iff)
  also have "\<dots> = x mod 256 ^ Suc n"
    by (simp add: zmod_zmult2_eq)
  finally show ?case .
qed simp

lemma le_of_int_of_le: "le_of_int (length bs) (int_of_le bs) = bs"
proof (induction bs)
  case (Cons b bs)
  have "(uint b + 256 * int_of_le bs) div 256 = int_of_le bs"
    using uint_byte_lt [of b] by (simp add: div_pos_pos_trivial)
  moreover have "(uint b + 256 * int_of_le bs) mod 256 = uint b"
    using uint_byte_lt [of b] by (simp add: mod_pos_pos_trivial)
  ultimately show ?case using Cons by simp
qed simp

section \<open>Words and byte arrays\<close>

definition to_le_bytes :: "nat \<Rightarrow> 'a::len word \<Rightarrow> bytes" where
  "to_le_bytes n w = le_of_int n (uint w)"

definition to_be_bytes :: "nat \<Rightarrow> 'a::len word \<Rightarrow> bytes" where
  "to_be_bytes n w = rev (to_le_bytes n w)"

definition from_le_bytes :: "bytes \<Rightarrow> 'a::len word" where
  "from_le_bytes bs = word_of_int (int_of_le bs)"

definition from_be_bytes :: "bytes \<Rightarrow> 'a::len word" where
  "from_be_bytes bs = from_le_bytes (rev bs)"

lemma length_to_le_bytes [simp]: "length (to_le_bytes n w) = n"
  by (simp add: to_le_bytes_def)

lemma length_to_be_bytes [simp]: "length (to_be_bytes n w) = n"
  by (simp add: to_be_bytes_def)

lemma from_to_le_bytes:
  "LENGTH('a) = 8 * n \<Longrightarrow> from_le_bytes (to_le_bytes n w) = (w :: 'a::len word)"
proof -
  assume *: "LENGTH('a) = 8 * n"
  have "(256 :: int) ^ n = 2 ^ LENGTH('a)"
    by (simp add: * power_mult)
  then show ?thesis
    by (simp add: from_le_bytes_def to_le_bytes_def int_of_le_of_int)
qed

lemma to_from_le_bytes:
  assumes "LENGTH('a) = 8 * n" "length bs = n"
  shows "to_le_bytes n (from_le_bytes bs :: 'a::len word) = bs"
proof -
  have "(256 :: int) ^ n = 2 ^ LENGTH('a)"
    by (simp add: assms(1) power_mult)
  with int_of_le_bound [of bs] assms(2) have "uint (word_of_int (int_of_le bs) :: 'a word) = int_of_le bs"
    by (simp add: uint_word_of_int)
  then show ?thesis
    using le_of_int_of_le [of bs] assms(2)
    by (simp add: to_le_bytes_def from_le_bytes_def)
qed

lemma from_to_be_bytes:
  "LENGTH('a) = 8 * n \<Longrightarrow> from_be_bytes (to_be_bytes n w) = (w :: 'a::len word)"
  by (simp add: from_be_bytes_def to_be_bytes_def from_to_le_bytes)

lemma to_from_be_bytes:
  "LENGTH('a) = 8 * n \<Longrightarrow> length bs = n \<Longrightarrow> to_be_bytes n (from_be_bytes bs :: 'a::len word) = bs"
  by (simp add: from_be_bytes_def to_be_bytes_def to_from_le_bytes)

lemma to_le_bytes_inject:
  "LENGTH('a) = 8 * n \<Longrightarrow> to_le_bytes n v = to_le_bytes n w \<longleftrightarrow> v = (w :: 'a::len word)"
  by (metis from_to_le_bytes)

lemma to_be_bytes_inject:
  "LENGTH('a) = 8 * n \<Longrightarrow> to_be_bytes n v = to_be_bytes n w \<longleftrightarrow> v = (w :: 'a::len word)"
  by (metis from_to_be_bytes)

subsection \<open>The array sizes of the code\<close>

abbreviation b32 :: "bytes32 \<Rightarrow> bytes" where "b32 \<equiv> to_be_bytes 32"
abbreviation b20 :: "bytes20 \<Rightarrow> bytes" where "b20 \<equiv> to_be_bytes 20"
abbreviation b4 :: "bytes4 \<Rightarrow> bytes" where "b4 \<equiv> to_be_bytes 4"
abbreviation le8 :: "u64 \<Rightarrow> bytes" where "le8 \<equiv> to_le_bytes 8"
abbreviation be8 :: "u64 \<Rightarrow> bytes" where "be8 \<equiv> to_be_bytes 8"

lemma b32_inject [simp]: "b32 v = b32 w \<longleftrightarrow> v = w"
  by (rule to_be_bytes_inject) simp

lemma b20_inject [simp]: "b20 v = b20 w \<longleftrightarrow> v = w"
  by (rule to_be_bytes_inject) simp

lemma le8_inject [simp]: "le8 v = le8 w \<longleftrightarrow> v = w"
  by (rule to_le_bytes_inject) simp

lemma be8_inject [simp]: "be8 v = be8 w \<longleftrightarrow> v = w"
  by (rule to_be_bytes_inject) simp

lemma append_b32_inject [simp]: "b32 v @ xs = b32 w @ ys \<longleftrightarrow> v = w \<and> xs = ys"
  by (simp add: append_eq_append_conv)

lemma append_le8_inject [simp]: "le8 v @ xs = le8 w @ ys \<longleftrightarrow> v = w \<and> xs = ys"
  by (simp add: append_eq_append_conv)

text \<open>\<open>try_into().unwrap()\<close> and \<open>copy_from_slice\<close> on a slice of the right length.\<close>

definition array32 :: "bytes \<Rightarrow> bytes32" where
  "array32 bs = from_be_bytes bs"

definition array20 :: "bytes \<Rightarrow> bytes20" where
  "array20 bs = from_be_bytes bs"

lemma array32_b32 [simp]: "array32 (b32 w) = w"
  by (simp add: array32_def from_to_be_bytes)

lemma b32_array32: "length bs = 32 \<Longrightarrow> b32 (array32 bs) = bs"
  by (simp add: array32_def to_from_be_bytes)

lemma array20_b20 [simp]: "array20 (b20 w) = w"
  by (simp add: array20_def from_to_be_bytes)

lemma b20_array20: "length bs = 20 \<Longrightarrow> b20 (array20 bs) = bs"
  by (simp add: array20_def to_from_be_bytes)

subsection \<open>The order of byte arrays\<close>

text \<open>Rust compares arrays lexicographically, byte by byte.\<close>

fun lex_less :: "bytes \<Rightarrow> bytes \<Rightarrow> bool" where
  "lex_less [] ys = (ys \<noteq> [])"
| "lex_less (x # xs) [] = False"
| "lex_less (x # xs) (y # ys) = (x < y \<or> (x = y \<and> lex_less xs ys))"

lemma int_of_le_snoc: "int_of_le (bs @ [b]) = int_of_le bs + 256 ^ length bs * uint b"
  by (induction bs) (simp_all add: algebra_simps)

lemma lex_less_int:
  "length xs = length ys \<Longrightarrow> lex_less xs ys \<longleftrightarrow> int_of_le (rev xs) < int_of_le (rev ys)"
proof (induction xs ys rule: lex_less.induct)
  case (3 x xs y ys)
  let ?M = "256 ^ length ys :: int"
  let ?a = "int_of_le (rev xs)" and ?b = "int_of_le (rev ys)"
  from "3.prems" have len: "length xs = length ys" by simp
  have bounds: "0 \<le> ?a" "?a < ?M" "0 \<le> ?b" "?b < ?M"
    using int_of_le_bound [of "rev xs"] int_of_le_bound [of "rev ys"] len by simp_all
  have eq: "int_of_le (rev (x # xs)) = ?a + ?M * uint x" "int_of_le (rev (y # ys)) = ?b + ?M * uint y"
    by (simp_all add: int_of_le_snoc len)
  have less: "a + ?M * uint u < b + ?M * uint v"
    if "uint u < uint v" "0 \<le> b" "a < ?M" for u v :: byte and a b :: int
  proof -
    from that have "?M * (uint u + 1) \<le> ?M * uint v"
      by (intro mult_left_mono) auto
    then have "?M * uint u + ?M \<le> ?M * uint v" by (simp only: distrib_left mult_1_right)
    with that show ?thesis by linarith
  qed
  consider "uint x < uint y" | "uint x = uint y" | "uint y < uint x" by linarith
  then show ?case
  proof cases
    case 1
    with less [OF 1, of ?b ?a] bounds eq show ?thesis by (simp add: word_less_def)
  next
    case 2
    then have "x = y" by (rule word_uint_eqI)
    with "3.IH" len eq show ?thesis by simp
  next
    case 3
    with less [OF 3, of ?a ?b] bounds eq show ?thesis by (auto simp: word_less_def)
  qed
qed auto

lemma lex_less_b32: "lex_less (b32 v) (b32 w) \<longleftrightarrow> v < w"
proof -
  have "int_of_le (to_le_bytes 32 u) = uint u" for u :: bytes32
    using uint_lt2p [of u] by (simp add: to_le_bytes_def int_of_le_of_int)
  then show ?thesis
    by (simp add: lex_less_int to_be_bytes_def word_less_def)
qed

end
