(* ===== verification/Merkle.thy ===== *)
theory Merkle
  imports Merkle_Core Bytes
begin

unbundle bit_operations_syntax

text \<open>
  \<open>crates/privacy/src/merkle.rs\<close>: the incremental commitment tree of the shielded pool.
  The abstract object is the list of inserted leaves, padded with zero leaves; \<open>compute_insert\<close>
  is shown to compute the root of the extended list from the filled subtrees of the old one,
  and \<open>build_proof_paths\<close> to produce exactly the sibling paths of that tree.
\<close>

section \<open>Definitions\<close>

definition TREE_DEPTH :: nat where
  "TREE_DEPTH = 20"

definition ROOTS_HISTORY_SIZE :: u64 where
  "ROOTS_HISTORY_SIZE = 100"

definition hash_pair :: "hash32 \<Rightarrow> bytes32 \<Rightarrow> bytes32 \<Rightarrow> bytes32" where
  "hash_pair sha left right = sha (b32 left @ b32 right)"

definition zero_value :: "hash32 \<Rightarrow> nat \<Rightarrow> bytes32" where
  "zero_value sha level = ((\<lambda>current. hash_pair sha current current) ^^ level) 0"

definition empty_root :: "hash32 \<Rightarrow> bytes32" where
  "empty_root sha = zero_value sha TREE_DEPTH"

record merkle_proof =
  leaf_index :: u64
  siblings :: "bytes32 list"
  proof_root :: bytes32

fun verify_loop :: "hash32 \<Rightarrow> bytes32 \<Rightarrow> u64 \<Rightarrow> bytes32 list \<Rightarrow> bytes32" where
  "verify_loop sha current index [] = current"
| "verify_loop sha current index (sibling # rest) =
     verify_loop sha
       (if index AND 1 = 0 then hash_pair sha current sibling else hash_pair sha sibling current)
       (drop_bit 1 index) rest"

definition verify :: "hash32 \<Rightarrow> merkle_proof \<Rightarrow> bytes32 \<Rightarrow> bool" where
  "verify sha p leaf =
     (if length (siblings p) \<noteq> TREE_DEPTH then False
      else verify_loop sha leaf (leaf_index p) (siblings p) = proof_root p)"

fun insert_loop ::
    "hash32 \<Rightarrow> (nat \<Rightarrow> bytes32) \<Rightarrow> nat list \<Rightarrow> bytes32 \<Rightarrow> u64 \<Rightarrow> (nat \<times> bytes32) list
     \<Rightarrow> bytes32 \<times> (nat \<times> bytes32) list" where
  "insert_loop sha get_filled [] current index updates = (current, updates)"
| "insert_loop sha get_filled (level # levels) current index updates =
     (if index AND 1 = 0
      then insert_loop sha get_filled levels (hash_pair sha current (zero_value sha level))
             (drop_bit 1 index) (updates @ [(level, current)])
      else insert_loop sha get_filled levels (hash_pair sha (get_filled level) current)
             (drop_bit 1 index) updates)"

definition compute_insert ::
    "hash32 \<Rightarrow> bytes32 \<Rightarrow> u64 \<Rightarrow> (nat \<Rightarrow> bytes32) \<Rightarrow> bytes32 \<times> (nat \<times> bytes32) list" where
  "compute_insert sha leaf next_index get_filled =
     insert_loop sha get_filled [0..<TREE_DEPTH] leaf next_index []"

text \<open>
  \<open>build_proof_paths\<close> fills an array of twice the number of leaves, heap-ordered; writing past
  its end (more leaves than the tree has) panics, which is \<open>None\<close>. The three loops over the
  array are separate definitions, parametric in the array's half size.
\<close>

definition fill_leaves :: "hash32 \<Rightarrow> nat \<Rightarrow> bytes32 list \<Rightarrow> bytes32 list \<Rightarrow> bytes32 list" where
  "fill_leaves sha sz leaves nodes =
     fold (\<lambda>i ns. ns[sz + i := zero_value sha 0]) [length leaves..<sz]
       (fold (\<lambda>i ns. ns[sz + i := leaves ! i]) [0..<length leaves] nodes)"

definition build_up :: "hash32 \<Rightarrow> nat \<Rightarrow> nat \<Rightarrow> bytes32 list \<Rightarrow> bytes32 list" where
  "build_up sha lo sz nodes =
     fold (\<lambda>k ns. ns[k := hash_pair sha (ns ! (2 * k)) (ns ! (2 * k + 1))]) (rev [lo..<sz]) nodes"

fun extract_path :: "bytes32 list \<Rightarrow> nat \<Rightarrow> nat \<Rightarrow> bytes32 list" where
  "extract_path nodes 0 pos = []"
| "extract_path nodes (Suc n) pos =
     (if even pos then nodes ! (pos + 1) else nodes ! (pos - 1)) # extract_path nodes n (pos div 2)"

definition build_proof_paths :: "hash32 \<Rightarrow> bytes32 list \<Rightarrow> bytes32 list list option" where
  "build_proof_paths sha leaves =
     (let sz = 2 ^ TREE_DEPTH;
          nodes = build_up sha 1 sz (fill_leaves sha sz leaves (replicate (2 * sz) 0))
      in if sz < length leaves then None
         else Some (map (\<lambda>i. extract_path nodes TREE_DEPTH (sz + i)) [0..<length leaves]))"

section \<open>The abstract tree\<close>

text \<open>The leaves of the tree: the inserted ones, then zeros.\<close>

definition padded :: "bytes32 list \<Rightarrow> nat \<Rightarrow> bytes32" where
  "padded xs i = (if i < length xs then xs ! i else 0)"

abbreviation pool_node :: "hash32 \<Rightarrow> bytes32 list \<Rightarrow> nat \<Rightarrow> nat \<Rightarrow> bytes32" where
  "pool_node sha xs \<equiv> tree_node (hash_pair sha) (padded xs)"

definition tree_root :: "hash32 \<Rightarrow> bytes32 list \<Rightarrow> bytes32" where
  "tree_root sha xs = pool_node sha xs TREE_DEPTH 0"

definition pair_pre :: "bytes32 \<Rightarrow> bytes32 \<Rightarrow> bytes" where
  "pair_pre left right = b32 left @ b32 right"

interpretation pool: merkle_node sha pair_pre "hash_pair sha" for sha
  by unfold_locales (simp_all add: hash_pair_def pair_pre_def)

section \<open>Index arithmetic on words\<close>

lemma word_and_one_eq_0_iff: "w AND 1 = 0 \<longleftrightarrow> even (unat (w :: 'a::len word))"
proof -
  have "w AND 1 = 0 \<longleftrightarrow> unat (w AND 1) = 0" by (simp only: unat_eq_0)
  also have "unat (w AND 1) = unat w mod 2"
    by (subst unsigned_and_eq) (simp only: unsigned_1 and_one_eq)
  finally show ?thesis by (simp only: even_iff_mod_2_eq_zero)
qed

lemma verify_loop_climb:
  "verify_loop sha x w ss = climb (hash_pair sha) (unat w) x ss"
  by (induction ss arbitrary: x w) (simp_all add: word_and_one_eq_0_iff)

section \<open>Zero subtrees and filled subtrees\<close>

lemma zero_value_simps [simp]:
  "zero_value sha 0 = 0"
  "zero_value sha (Suc l) = hash_pair sha (zero_value sha l) (zero_value sha l)"
  by (simp_all add: zero_value_def)

lemma pool_node_zero: "length xs \<le> i * 2 ^ l \<Longrightarrow> pool_node sha xs l i = zero_value sha l"
proof (induction l arbitrary: i)
  case (Suc l)
  have "pool_node sha xs l (2 * i) = zero_value sha l"
    by (rule Suc.IH) (use Suc.prems in \<open>simp add: algebra_simps\<close>)
  moreover have "pool_node sha xs l (2 * i + 1) = zero_value sha l"
    by (rule Suc.IH) (use Suc.prems in \<open>simp add: algebra_simps\<close>)
  ultimately show ?case by simp
qed (simp add: padded_def)

lemma empty_root_tree_root: "empty_root sha = tree_root sha []"
  by (simp add: empty_root_def tree_root_def pool_node_zero)

lemma pool_node_snoc_frozen:
  "Suc i * 2 ^ l \<le> length xs \<Longrightarrow> pool_node sha (xs @ [x]) l i = pool_node sha xs l i"
  by (rule tree_node_cong) (simp add: padded_def nth_append)

text \<open>
  What the stored subtrees must hold: at every level where the next leaf's ancestor is a right
  child, its left sibling.
\<close>

definition filled_ok :: "hash32 \<Rightarrow> (nat \<Rightarrow> bytes32) \<Rightarrow> bytes32 list \<Rightarrow> bool" where
  "filled_ok sha filled xs \<longleftrightarrow>
     (\<forall>l < TREE_DEPTH. odd (length xs div 2 ^ l) \<longrightarrow>
        filled l = pool_node sha xs l (length xs div 2 ^ l - 1))"

lemma filled_ok_Nil [simp]: "filled_ok sha filled []"
  by (simp add: filled_ok_def)

section \<open>\<open>compute_insert\<close> appends a leaf\<close>

lemma pool_node_step:
  fixes x :: bytes32
  assumes "filled_ok sha filled xs" "l < TREE_DEPTH"
  defines "q \<equiv> length xs div 2 ^ l" and "T \<equiv> pool_node sha (xs @ [x])"
  shows "T (Suc l) (length xs div 2 ^ Suc l) =
    (if even q then hash_pair sha (T l q) (zero_value sha l) else hash_pair sha (filled l) (T l q))"
proof -
  have half: "length xs div 2 ^ Suc l = q div 2" by (simp only: q_def div_pow_Suc)
  have below: "q * 2 ^ l \<le> length xs" by (simp add: q_def)
  have above: "length xs < Suc q * 2 ^ l"
    by (simp add: q_def dividend_less_div_times)
  show ?thesis
  proof (cases "even q")
    case True
    then have "2 * (q div 2) = q" by simp
    moreover have "T l (Suc q) = zero_value sha l"
      unfolding T_def by (rule pool_node_zero) (use above in simp)
    ultimately show ?thesis using True unfolding half T_def by simp
  next
    case False
    then have "2 * (q div 2) = q - 1" "Suc (q - 1) = q" by (auto elim: oddE)
    moreover have "T l (q - 1) = filled l"
      using assms(1,2) False below \<open>Suc (q - 1) = q\<close>
      by (simp add: T_def filled_ok_def q_def pool_node_snoc_frozen)
    ultimately show ?thesis using False unfolding half T_def by simp
  qed
qed

lemma insert_loop_spec:
  assumes "filled_ok sha filled xs" "l \<le> TREE_DEPTH" "unat w = length xs div 2 ^ l"
  shows "insert_loop sha filled [l..<TREE_DEPTH] (pool_node sha (xs @ [x]) l (length xs div 2 ^ l)) w ups =
    (pool_node sha (xs @ [x]) TREE_DEPTH (length xs div 2 ^ TREE_DEPTH),
     ups @ map (\<lambda>k. (k, pool_node sha (xs @ [x]) k (length xs div 2 ^ k)))
             (filter (\<lambda>k. even (length xs div 2 ^ k)) [l..<TREE_DEPTH]))"
  using assms(2,3)
proof (induction l arbitrary: w ups rule: inc_induct)
  case base
  then show ?case by simp
next
  case (step l)
  have w: "unat (drop_bit 1 w) = length xs div 2 ^ Suc l"
    using step.prems by (simp add: div_pow_Suc del: power_Suc)
  have upt: "[l..<TREE_DEPTH] = l # [Suc l..<TREE_DEPTH]"
    using step.hyps by (simp add: upt_conv_Cons)
  have parity: "w AND 1 = 0 \<longleftrightarrow> even (length xs div 2 ^ l)"
    using step.prems by (simp add: word_and_one_eq_0_iff)
  note node = pool_node_step [OF assms(1) step.hyps(2), of x]
  show ?case
    using step.IH [OF w] node
    by (cases "even (length xs div 2 ^ l)")
      (simp_all add: upt parity del: tree_node.simps power_Suc)
qed

lemma compute_insert_spec:
  assumes "filled_ok sha filled xs" "unat w = length xs" "length xs < 2 ^ TREE_DEPTH"
  shows "compute_insert sha x w filled =
    (tree_root sha (xs @ [x]),
     map (\<lambda>k. (k, pool_node sha (xs @ [x]) k (length xs div 2 ^ k)))
       (filter (\<lambda>k. even (length xs div 2 ^ k)) [0..<TREE_DEPTH]))"
proof -
  have "pool_node sha (xs @ [x]) 0 (length xs div 2 ^ 0) = x" by (simp add: padded_def)
  with insert_loop_spec [OF assms(1), of 0 w x "[]"] assms(2,3) show ?thesis
    by (simp add: compute_insert_def tree_root_def)
qed

text \<open>Storing the updates re-establishes the requirement for the extended list.\<close>

lemma filled_ok_snoc:
  assumes "filled_ok sha filled xs"
    and "\<And>l. l < TREE_DEPTH \<Longrightarrow> filled' l =
           (if even (length xs div 2 ^ l) then pool_node sha (xs @ [x]) l (length xs div 2 ^ l) else filled l)"
  shows "filled_ok sha filled' (xs @ [x])"
  unfolding filled_ok_def
proof (intro allI impI)
  fix l assume l: "l < TREE_DEPTH" and odd: "odd (length (xs @ [x]) div 2 ^ l)"
  let ?q = "length xs div 2 ^ l"
  have cases: "length (xs @ [x]) div 2 ^ l = ?q \<or> length (xs @ [x]) div 2 ^ l = Suc ?q"
    by (simp add: div_Suc)
  show "filled' l = pool_node sha (xs @ [x]) l (length (xs @ [x]) div 2 ^ l - 1)"
  proof (cases "even ?q")
    case True
    with cases odd have "length (xs @ [x]) div 2 ^ l = Suc ?q" by auto
    with True assms(2) [OF l] show ?thesis by simp
  next
    case False
    with cases odd have eq: "length (xs @ [x]) div 2 ^ l = ?q" by auto
    have "Suc (?q - 1) = ?q" using False by (auto elim: oddE)
    then have "pool_node sha (xs @ [x]) l (?q - 1) = pool_node sha xs l (?q - 1)"
      by (simp add: pool_node_snoc_frozen)
    with False eq assms(1) assms(2) [OF l] l show ?thesis
      by (simp add: filled_ok_def)
  qed
qed

section \<open>\<open>build_proof_paths\<close> extracts the tree's sibling paths\<close>

lemma length_fold_update [simp]: "length (fold (\<lambda>i ns. ns[g i := h i ns]) is ns) = length ns"
  by (induction "is" arbitrary: ns) simp_all

lemma fold_fill_nth:
  "m \<le> n \<Longrightarrow> sz + n \<le> length ns \<Longrightarrow>
   fold (\<lambda>i ns. ns[sz + i := h i]) [m..<n] ns ! k =
     (if sz + m \<le> k \<and> k < sz + n then h (k - sz) else ns ! k)"
proof (induction n rule: dec_induct)
  case (step n)
  then have "length (fold (\<lambda>i ns. ns[sz + i := h i]) [m..<n] ns) = length ns" by simp
  with step show ?case by (auto simp: nth_list_update less_Suc_eq)
qed auto

lemma fill_leaves_nth:
  assumes "length leaves \<le> sz" "length ns = 2 * sz" "i < sz"
  shows "fill_leaves sha sz leaves ns ! (sz + i) = padded leaves i"
  using assms by (simp add: fill_leaves_def fold_fill_nth padded_def)

lemma length_fill_leaves [simp]: "length (fill_leaves sha sz leaves ns) = length ns"
  by (simp add: fill_leaves_def)

lemma build_up_spec:
  assumes "lo \<le> sz" "length ns = 2 * sz" "0 < lo"
  shows "length (build_up sha lo sz ns) = 2 * sz \<and>
    (\<forall>k. k < lo \<or> sz \<le> k \<longrightarrow> build_up sha lo sz ns ! k = ns ! k) \<and>
    (\<forall>k. lo \<le> k \<and> k < sz \<longrightarrow> build_up sha lo sz ns ! k =
       hash_pair sha (build_up sha lo sz ns ! (2 * k)) (build_up sha lo sz ns ! (2 * k + 1)))"
  using assms(1,3)
proof (induction lo rule: inc_induct)
  case base
  then show ?case by (auto simp: build_up_def assms(2))
next
  case (step lo)
  let ?R = "build_up sha (Suc lo) sz ns"
  have upt: "[lo..<sz] = lo # [Suc lo..<sz]" using step.hyps by (simp add: upt_conv_Cons)
  have eq: "build_up sha lo sz ns = ?R[lo := hash_pair sha (?R ! (2 * lo)) (?R ! (2 * lo + 1))]"
    by (simp add: build_up_def upt)
  from step.IH have IH: "length ?R = 2 * sz" "\<And>k. k < Suc lo \<or> sz \<le> k \<Longrightarrow> ?R ! k = ns ! k"
    "\<And>k. Suc lo \<le> k \<Longrightarrow> k < sz \<Longrightarrow> ?R ! k = hash_pair sha (?R ! (2 * k)) (?R ! (2 * k + 1))"
    by auto
  show ?case
    using step.hyps step.prems IH by (auto simp: eq nth_list_update)
qed

lemma heap_nodes:
  assumes "length leaves \<le> 2 ^ d" "l \<le> d" "j < 2 ^ (d - l)"
  shows "build_up sha 1 (2 ^ d) (fill_leaves sha (2 ^ d) leaves (replicate (2 * 2 ^ d) 0)) ! (2 ^ (d - l) + j)
    = pool_node sha leaves l j"
  using assms(2,3)
proof (induction l arbitrary: j)
  case 0
  let ?F = "fill_leaves sha (2 ^ d) leaves (replicate (2 * 2 ^ d) 0)"
  have "build_up sha 1 (2 ^ d) ?F ! (2 ^ d + j) = ?F ! (2 ^ d + j)"
    using build_up_spec [of 1 "2 ^ d" ?F sha] by simp
  with 0 assms(1) show ?case by (simp add: fill_leaves_nth)
next
  case (Suc l)
  let ?F = "fill_leaves sha (2 ^ d) leaves (replicate (2 * 2 ^ d) 0)"
  let ?N = "build_up sha 1 (2 ^ d) ?F"
  let ?k = "2 ^ (d - Suc l) + j"
  have pow: "(2 :: nat) ^ (d - l) = 2 * 2 ^ (d - Suc l)"
    using Suc.prems(1) by (metis Suc_diff_Suc Suc_le_eq power_Suc)
  have less: "2 ^ (d - Suc l) \<le> (2 :: nat) ^ (d - 1)"
    by (rule power_increasing) auto
  have k: "1 \<le> ?k" "?k < 2 ^ d"
  proof -
    have "(2 :: nat) ^ d = 2 * 2 ^ (d - 1)" using Suc.prems(1) by (cases d) auto
    with less Suc.prems(2) show "?k < 2 ^ d" by linarith
  qed (simp add: Suc_le_eq)
  have "?N ! ?k = hash_pair sha (?N ! (2 * ?k)) (?N ! (2 * ?k + 1))"
    using build_up_spec [of 1 "2 ^ d" ?F sha] k by simp
  moreover have "2 * ?k = 2 ^ (d - l) + 2 * j" "2 * ?k + 1 = 2 ^ (d - l) + (2 * j + 1)"
    by (simp_all add: pow)
  moreover have "2 * j < 2 ^ (d - l)" "2 * j + 1 < 2 ^ (d - l)"
    using Suc.prems(2) by (simp_all add: pow)
  ultimately show ?case
    using Suc.IH [of "2 * j"] Suc.IH [of "2 * j + 1"] Suc.prems(1) by simp
qed

lemma extract_path_spec:
  assumes "\<And>l j. l \<le> d \<Longrightarrow> j < 2 ^ (d - l) \<Longrightarrow> ns ! (2 ^ (d - l) + j) = tree_node node f l j"
    and "i < 2 ^ d" "l \<le> d"
  shows "extract_path ns (d - l) (2 ^ (d - l) + i div 2 ^ l) =
    map (\<lambda>m. tree_node node f m (buddy (i div 2 ^ m))) [l..<d]"
  using assms(3)
proof (induction l rule: inc_induct)
  case base
  then show ?case by simp
next
  case (step l)
  let ?q = "i div 2 ^ l"
  have pow: "(2 :: nat) ^ (d - l) = 2 * 2 ^ (d - Suc l)"
    using step.hyps by (metis Suc_diff_Suc power_Suc)
  have diff: "d - l = Suc (d - Suc l)" using step.hyps by simp
  have "(2 :: nat) ^ d = 2 ^ (d - l) * 2 ^ l" using step.hyps by (simp flip: power_add)
  with assms(2) have q: "?q < 2 ^ (d - l)" by (simp add: less_mult_imp_div_less)
  have b: "buddy ?q < 2 ^ (d - l)"
    using q pow by (cases "even ?q") (auto simp: buddy_def elim!: evenE)
  have sib: "(if even (2 ^ (d - l) + ?q) then ns ! (2 ^ (d - l) + ?q + 1) else ns ! (2 ^ (d - l) + ?q - 1))
      = tree_node node f l (buddy ?q)"
  proof (cases "even ?q")
    case True
    then have "2 ^ (d - l) + ?q + 1 = 2 ^ (d - l) + buddy ?q" by (simp add: buddy_def)
    moreover have "even (2 ^ (d - l) + ?q)" using True pow by simp
    moreover have "ns ! (2 ^ (d - l) + buddy ?q) = tree_node node f l (buddy ?q)"
      using assms(1) [OF _ b] step.hyps by simp
    ultimately show ?thesis by metis
  next
    case False
    then have "2 ^ (d - l) + ?q - 1 = 2 ^ (d - l) + buddy ?q" by (auto simp: buddy_def elim: oddE)
    moreover have "odd (2 ^ (d - l) + ?q)" using False pow by simp
    moreover have "ns ! (2 ^ (d - l) + buddy ?q) = tree_node node f l (buddy ?q)"
      using assms(1) [OF _ b] step.hyps by simp
    ultimately show ?thesis by metis
  qed
  have up: "(2 ^ (d - l) + ?q) div 2 = 2 ^ (d - Suc l) + i div 2 ^ Suc l"
    unfolding pow div_pow_Suc by simp
  have "extract_path ns (d - l) (2 ^ (d - l) + ?q) =
      tree_node node f l (buddy ?q) # extract_path ns (d - Suc l) (2 ^ (d - Suc l) + i div 2 ^ Suc l)"
    using sib up unfolding diff by (simp del: power_Suc)
  then show ?case
    using step.IH step.hyps by (simp add: upt_conv_Cons del: power_Suc)
qed

lemma build_proof_paths_spec:
  assumes "length leaves \<le> 2 ^ TREE_DEPTH"
  shows "build_proof_paths sha leaves =
    Some (map (sibling_path (hash_pair sha) (padded leaves) TREE_DEPTH) [0..<length leaves])"
proof -
  let ?N = "build_up sha 1 (2 ^ TREE_DEPTH)
    (fill_leaves sha (2 ^ TREE_DEPTH) leaves (replicate (2 * 2 ^ TREE_DEPTH) 0))"
  have "extract_path ?N TREE_DEPTH (2 ^ TREE_DEPTH + i) =
      sibling_path (hash_pair sha) (padded leaves) TREE_DEPTH i" if "i < length leaves" for i
    using extract_path_spec [of TREE_DEPTH ?N "hash_pair sha" "padded leaves" i 0]
      heap_nodes [OF assms] that assms by (simp add: sibling_path_def)
  with assms show ?thesis
    by (simp add: build_proof_paths_def Let_def del: power_Suc)
qed

lemma tree_root_div:
  "i < 2 ^ TREE_DEPTH \<Longrightarrow> tree_root sha xs = pool_node sha xs TREE_DEPTH (i div 2 ^ TREE_DEPTH)"
  by (simp add: tree_root_def)

lemma verify_sibling_path:
  assumes "i < 2 ^ TREE_DEPTH"
  shows "verify sha \<lparr>leaf_index = word_of_nat i,
      siblings = sibling_path (hash_pair sha) (padded xs) TREE_DEPTH i,
      proof_root = tree_root sha xs\<rparr> (padded xs i)"
proof -
  have "unat (word_of_nat i :: u64) = i"
    using assms by (simp add: unat_of_nat TREE_DEPTH_def)
  then show ?thesis
    using climb_sibling_path [of "hash_pair sha" i "padded xs" TREE_DEPTH] assms
    by (simp add: verify_def verify_loop_climb tree_root_div)
qed

text \<open>A proof that \<open>verify\<close> accepts against the tree's root binds the leaf at its position. The loop
  reads one bit of the index per sibling, so the position is the index modulo the size of the tree.\<close>

lemma verify_binding:
  assumes "verify sha p leaf" "proof_root p = tree_root sha xs" "i = unat (leaf_index p) mod 2 ^ TREE_DEPTH"
    and "inj_on sha (set (path_pres pair_pre (hash_pair sha) (unat (leaf_index p)) leaf (siblings p)) \<union>
           set (trunk_pres pair_pre (hash_pair sha) (padded xs) TREE_DEPTH i))"
  shows "leaf = padded xs i"
proof -
  from assms(1) have len: "length (siblings p) = TREE_DEPTH"
    and root: "climb (hash_pair sha) (unat (leaf_index p)) leaf (siblings p) = tree_root sha xs"
    using assms(2) by (auto simp: verify_def verify_loop_climb split: if_splits)
  have i: "i < 2 ^ TREE_DEPTH" using assms(3) by simp
  have path: "climb (hash_pair sha) i leaf (siblings p) = tree_root sha xs"
    using climb_mod [of "hash_pair sha" "unat (leaf_index p)" "siblings p" leaf] root by (simp add: assms(3) len)
  have pres: "path_pres pair_pre (hash_pair sha) i leaf (siblings p) =
      path_pres pair_pre (hash_pair sha) (unat (leaf_index p)) leaf (siblings p)"
    using path_pres_mod [of pair_pre "hash_pair sha" "unat (leaf_index p)" "siblings p" leaf] by (simp add: assms(3) len)
  have "climb (hash_pair sha) i leaf (siblings p) = pool_node sha xs (length (siblings p)) (i div 2 ^ length (siblings p))"
    using i path by (simp add: len tree_root_div)
  from pool.climb_binding [OF this] assms(4) len pres show ?thesis by simp
qed

end
