(* ===== verification/Rust_Str.thy ===== *)
theory Rust_Str
  imports Bytes
begin

text \<open>
  The string operations of the standard library the crates use. A \<open>&str\<close> is the list of its
  UTF-8 bytes (as characters), so \<open>length\<close> is Rust's \<open>len()\<close>. \<open>trim\<close> knows every character
  with the Unicode \<open>White_Space\<close> property, each as its UTF-8 byte sequence. The \<open>hex\<close> crate is
  not part of the repository: its two functions are fields of the record \<open>crates\<close>, which the
  definitions that use them take as an argument.
\<close>

record crates =
  sha256 :: hash32
  hex_encode :: "bytes \<Rightarrow> string"
  hex_decode :: "string \<Rightarrow> bytes option"

text \<open>\<open>s.as_bytes()\<close>, and a byte string literal.\<close>

definition str_bytes :: "string \<Rightarrow> bytes" where
  "str_bytes s = map of_char s"

lemma length_str_bytes [simp]: "length (str_bytes s) = length s"
  by (simp add: str_bytes_def)

section \<open>Prefixes\<close>

definition starts_with :: "'a list \<Rightarrow> 'a list \<Rightarrow> bool" where
  "starts_with p s = (take (length p) s = p)"

lemma starts_with_append [simp]: "starts_with p (p @ s)"
  by (simp add: starts_with_def)

lemma starts_with_Cons [simp]:
  "starts_with [] s" "starts_with (p # ps) (c # cs) \<longleftrightarrow> p = c \<and> starts_with ps cs"
  "\<not> starts_with (p # ps) []"
  by (auto simp: starts_with_def)

lemma starts_with_iff: "starts_with p s \<longleftrightarrow> (\<exists>t. s = p @ t)"
  unfolding starts_with_def by (metis append_eq_conv_conj append_take_drop_id)

definition strip_prefix :: "string \<Rightarrow> string \<Rightarrow> string option" where
  "strip_prefix p s = (if starts_with p s then Some (drop (length p) s) else None)"

text \<open>\<open>trim_start_matches\<close> with a non-empty pattern removes it as often as it occurs.\<close>

function trim_start_matches :: "string \<Rightarrow> string \<Rightarrow> string" where
  "trim_start_matches p s =
     (if p \<noteq> [] \<and> starts_with p s then trim_start_matches p (drop (length p) s) else s)"
  by pat_completeness auto
termination
  by (relation "measure (\<lambda>(p, s). length s)") (auto simp: starts_with_iff)

declare trim_start_matches.simps [simp del]

text \<open>\<open>trim_end_matches\<close> with an ASCII character.\<close>

definition trim_end_matches :: "char \<Rightarrow> string \<Rightarrow> string" where
  "trim_end_matches c s = rev (dropWhile (\<lambda>d. d = c) (rev s))"

section \<open>Searching\<close>

fun find_str :: "string \<Rightarrow> string \<Rightarrow> nat option" where
  "find_str p [] = (if p = [] then Some 0 else None)"
| "find_str p (c # cs) =
     (if starts_with p (c # cs) then Some 0 else map_option Suc (find_str p cs))"

lemma find_str_le: "find_str p s = Some n \<Longrightarrow> n + length p \<le> length s"
proof (induction s arbitrary: n)
  case (Cons c cs)
  then show ?case
    by (auto simp: starts_with_iff split: if_splits dest: arg_cong [where f = length])
qed (simp split: if_splits)

text \<open>Slicing a string inside a UTF-8 sequence panics.\<close>

definition is_char_boundary :: "string \<Rightarrow> nat \<Rightarrow> bool" where
  "is_char_boundary s n =
     (n = length s \<or> n < length s \<and> \<not> (128 \<le> (of_char (s ! n) :: nat) \<and> (of_char (s ! n) :: nat) < 192))"

text \<open>The first occurrence of a pattern whose first character does not occur before.\<close>

lemma find_str_first: "c \<notin> set s \<Longrightarrow> find_str (c # p) (s @ (c # p) @ t) = Some (length s)"
proof (induction s)
  case Nil
  show ?case by simp
next
  case (Cons d s)
  then show ?case by auto
qed

definition contains_str :: "string \<Rightarrow> string \<Rightarrow> bool" where
  "contains_str p s = (find_str p s \<noteq> None)"

section \<open>Trimming white space\<close>

abbreviation utf8 :: "nat list \<Rightarrow> string" where
  "utf8 \<equiv> map char_of"

definition white_space :: "string list" where
  "white_space =
     map utf8
      ([[9], [10], [11], [12], [13], [32], [194, 133], [194, 160], [225, 154, 128]] @
       map (\<lambda>k. [226, 128, k]) [128..<139] @
       [[226, 128, 168], [226, 128, 169], [226, 128, 175], [226, 129, 159], [227, 128, 128]])"

text \<open>The same list as character constants, for evaluation.\<close>

lemma white_space_code [code]:
  "white_space =
     [[CHR 0x09], [CHR 0x0A], [CHR 0x0B],
      [CHR 0x0C], [CHR 0x0D], [CHR 0x20],
      [CHR 0xC2, CHR 0x85], [CHR 0xC2, CHR 0xA0], [CHR 0xE1, CHR 0x9A, CHR 0x80],
      [CHR 0xE2, CHR 0x80, CHR 0x80], [CHR 0xE2, CHR 0x80, CHR 0x81], [CHR 0xE2, CHR 0x80, CHR 0x82],
      [CHR 0xE2, CHR 0x80, CHR 0x83], [CHR 0xE2, CHR 0x80, CHR 0x84], [CHR 0xE2, CHR 0x80, CHR 0x85],
      [CHR 0xE2, CHR 0x80, CHR 0x86], [CHR 0xE2, CHR 0x80, CHR 0x87], [CHR 0xE2, CHR 0x80, CHR 0x88],
      [CHR 0xE2, CHR 0x80, CHR 0x89], [CHR 0xE2, CHR 0x80, CHR 0x8A], [CHR 0xE2, CHR 0x80, CHR 0xA8],
      [CHR 0xE2, CHR 0x80, CHR 0xA9], [CHR 0xE2, CHR 0x80, CHR 0xAF], [CHR 0xE2, CHR 0x81, CHR 0x9F],
      [CHR 0xE3, CHR 0x80, CHR 0x80]]"
  by code_simp

lemma white_space_nonempty: "w \<in> set white_space \<Longrightarrow> w \<noteq> []"
  by (auto simp: white_space_def)

function trim_start :: "string \<Rightarrow> string" where
  "trim_start s =
     (case find (\<lambda>w. starts_with w s) white_space of
        None \<Rightarrow> s
      | Some w \<Rightarrow> trim_start (drop (length w) s))"
  by pat_completeness auto
termination
proof (relation "measure length", simp, goal_cases)
  case (1 s w)
  then have "w \<in> set white_space" "starts_with w s" by (auto simp: find_Some_iff)
  with white_space_nonempty show ?case by (auto simp: starts_with_iff)
qed

declare trim_start.simps [simp del]

function trim_end :: "string \<Rightarrow> string" where
  "trim_end s =
     (case find (\<lambda>w. starts_with (rev w) (rev s)) white_space of
        None \<Rightarrow> s
      | Some w \<Rightarrow> trim_end (take (length s - length w) s))"
  by pat_completeness auto
termination
proof (relation "measure length", simp, goal_cases)
  case (1 s w)
  then have "w \<in> set white_space" "starts_with (rev w) (rev s)" by (auto simp: find_Some_iff)
  with white_space_nonempty have "w \<noteq> []" "length w \<le> length s"
    by (auto simp: starts_with_iff dest!: arg_cong [where f = length])
  then show ?case by (cases w) auto
qed

declare trim_end.simps [simp del]

definition trim :: "string \<Rightarrow> string" where
  "trim s = trim_end (trim_start s)"

lemma trim_id:
  assumes "list_all (\<lambda>w. \<not> starts_with w s \<and> \<not> starts_with (rev w) (rev s)) white_space"
  shows "trim s = s"
proof -
  have "trim_start s = s"
    using assms by (subst trim_start.simps) (auto simp: list_all_iff find_None_iff find_Some_iff split: option.split)
  moreover have "trim_end s = s"
    using assms by (subst trim_end.simps) (auto simp: list_all_iff find_None_iff find_Some_iff split: option.split)
  ultimately show ?thesis by (simp add: trim_def)
qed

text \<open>For evaluating \<open>trim_id\<close> on a concrete string.\<close>

lemmas white_space_eval = white_space_def upt_conv_Cons char_of_eq_iff take_bit_eq_mod

section \<open>Decimal numbers\<close>

definition digit_char :: "nat \<Rightarrow> char" where
  "digit_char d = char_of (48 + d)"

fun show_nat :: "nat \<Rightarrow> string" where
  "show_nat n = (if n < 10 then [digit_char n] else show_nat (n div 10) @ [digit_char (n mod 10)])"

declare show_nat.simps [simp del]

definition show_u64 :: "u64 \<Rightarrow> string" where
  "show_u64 w = show_nat (unat w)"

definition dec_value :: "string \<Rightarrow> nat" where
  "dec_value s = foldl (\<lambda>a c. 10 * a + (of_char c - 48)) 0 s"

lemma dec_value_show_nat: "dec_value (show_nat n) = n"
proof (induction n rule: show_nat.induct)
  case (1 n)
  have digit: "of_char (digit_char d) = 48 + d" if "d < 10" for d
    using that by (simp add: digit_char_def)
  show ?case
  proof (cases "n < 10")
    case True
    then show ?thesis by (subst show_nat.simps) (simp add: dec_value_def digit)
  next
    case False
    with 1 show ?thesis by (subst show_nat.simps) (simp add: dec_value_def digit)
  qed
qed

lemma show_nat_inject [simp]: "show_nat m = show_nat n \<longleftrightarrow> m = n"
  by (metis dec_value_show_nat)

lemma show_u64_inject [simp]: "show_u64 v = show_u64 w \<longleftrightarrow> v = w"
  by (simp add: show_u64_def word_unat_eq_iff)

section \<open>Parsing numbers\<close>

text \<open>\<open>to_digit\<close>, and \<open>from_str_radix\<close> of \<open>u64\<close>: one leading plus sign is allowed, at least
  one digit is needed, and a value that does not fit is an error. \<open>parse\<close> is radix ten.\<close>

definition digit_value :: "nat \<Rightarrow> char \<Rightarrow> nat option" where
  "digit_value radix c =
     (let n = of_char c;
          v = (if 48 \<le> n \<and> n < 58 then n - 48
               else if 97 \<le> n \<and> n < 123 then n - 87
               else if 65 \<le> n \<and> n < 91 then n - 55 else radix)
      in if v < radix then Some v else None)"

fun digits_value :: "nat \<Rightarrow> nat \<Rightarrow> string \<Rightarrow> nat option" where
  "digits_value radix acc [] = Some acc"
| "digits_value radix acc (c # cs) =
     (case digit_value radix c of
        None \<Rightarrow> None
      | Some d \<Rightarrow> digits_value radix (acc * radix + d) cs)"

definition parse_nat_radix :: "nat \<Rightarrow> nat \<Rightarrow> string \<Rightarrow> nat option" where
  "parse_nat_radix bits radix s =
     (let ds = (if starts_with ''+'' s then drop 1 s else s)
      in if ds = [] then None
         else case digits_value radix 0 ds of
                None \<Rightarrow> None
              | Some n \<Rightarrow> if n < 2 ^ bits then Some n else None)"

definition u64_from_str_radix :: "nat \<Rightarrow> string \<Rightarrow> u64 option" where
  "u64_from_str_radix radix s = map_option of_nat (parse_nat_radix 64 radix s)"

definition parse_u64 :: "string \<Rightarrow> u64 option" where
  "parse_u64 = u64_from_str_radix 10"

definition parse_u128 :: "string \<Rightarrow> u128 option" where
  "parse_u128 s = map_option of_nat (parse_nat_radix 128 10 s)"

lemma of_char_digit_char: "d < 10 \<Longrightarrow> of_char (digit_char d) = 48 + d"
  by (simp add: digit_char_def)

lemma digit_value_digit_char: "d < 10 \<Longrightarrow> digit_value 10 (digit_char d) = Some d"
  by (simp add: digit_value_def digit_char_def)

lemma digits_value_append:
  "digits_value r a (s @ t) = (case digits_value r a s of None \<Rightarrow> None | Some n \<Rightarrow> digits_value r n t)"
  by (induction r a s rule: digits_value.induct) (auto split: option.split)

lemma digits_value_show_nat: "digits_value 10 0 (show_nat n) = Some n"
proof (induction n rule: show_nat.induct)
  case (1 n)
  show ?case
    by (subst show_nat.simps) (use 1 in \<open>auto simp: digits_value_append digit_value_digit_char\<close>)
qed

lemma show_nat_digit: "\<exists>d t. d < 10 \<and> show_nat n = digit_char d # t"
proof (induction n rule: show_nat.induct)
  case (1 n)
  show ?case
  proof (cases "n < 10")
    case True
    then show ?thesis by (subst show_nat.simps) auto
  next
    case False
    with 1 obtain d t where "d < 10" "show_nat (n div 10) = digit_char d # t" by blast
    with False show ?thesis by (subst show_nat.simps) auto
  qed
qed

text \<open>Parsing what \<open>Display\<close> prints.\<close>

lemma parse_show_u64 [simp]: "parse_u64 (show_u64 w) = Some w"
proof -
  obtain d t where d: "d < 10" "show_nat (unat w) = digit_char d # t"
    using show_nat_digit by blast
  then have plus: "\<not> starts_with ''+'' (show_nat (unat w))"
    by (auto dest!: arg_cong [where f = "of_char :: char \<Rightarrow> nat"] simp: of_char_digit_char)
  have "unat w < 2 ^ 64" using unsigned_less [of w] by simp
  moreover from d have "show_nat (unat w) \<noteq> []" by simp
  ultimately show ?thesis
    using plus by (simp add: parse_u64_def u64_from_str_radix_def parse_nat_radix_def show_u64_def
        digits_value_show_nat Let_def)
qed

section \<open>Printing in hexadecimal\<close>

definition hex_digit :: "nat \<Rightarrow> char" where
  "hex_digit d = (if d < 10 then char_of (48 + d) else char_of (87 + d))"

fun show_hex :: "nat \<Rightarrow> string" where
  "show_hex n = (if n < 16 then [hex_digit n] else show_hex (n div 16) @ [hex_digit (n mod 16)])"

declare show_hex.simps [simp del]

section \<open>A sample instance of the parameters\<close>

text \<open>
  A concrete \<open>crates\<close> record, on which the witnesses evaluate: lower-case hexadecimal, and a
  polynomial in place of the hash function. No property is about it.
\<close>

definition sample_hash :: "hash32" where
  "sample_hash bs = foldl (\<lambda>h b. h * 257 + ucast b + 1) 0 bs"

definition hex_digit_value :: "char \<Rightarrow> nat option" where
  "hex_digit_value c =
     (let n = of_char c in
      if 48 \<le> n \<and> n < 58 then Some (n - 48)
      else if 97 \<le> n \<and> n < 103 then Some (n - 87)
      else if 65 \<le> n \<and> n < 71 then Some (n - 55) else None)"

definition sample_encode :: "bytes \<Rightarrow> string" where
  "sample_encode bs = concat (map (\<lambda>b. [hex_digit (unat b div 16), hex_digit (unat b mod 16)]) bs)"

fun sample_decode :: "string \<Rightarrow> bytes option" where
  "sample_decode [] = Some []"
| "sample_decode [c] = None"
| "sample_decode (c # d # s) =
     (case (hex_digit_value c, hex_digit_value d, sample_decode s) of
        (Some h, Some l, Some bs) \<Rightarrow> Some (of_nat (16 * h + l) # bs)
      | _ \<Rightarrow> None)"

definition sample_crates :: crates where
  "sample_crates = \<lparr>sha256 = sample_hash, hex_encode = sample_encode, hex_decode = sample_decode\<rparr>"

lemma hex_digit_value_eval [simp]:
  "hex_digit_value (CHR ''0'') = Some 0" "hex_digit_value (CHR ''1'') = Some 1" "hex_digit_value (CHR ''5'') = Some 5"
  by (simp_all add: hex_digit_value_def)

lemma hex_digit_value_digit: "d < 16 \<Longrightarrow> hex_digit_value (hex_digit d) = Some d"
  by (auto simp: hex_digit_def hex_digit_value_def Let_def)

lemma sample_decode_encode: "sample_decode (sample_encode bs) = Some bs"
proof (induction bs)
  case (Cons b bs)
  have "unat b < 256" using unsigned_less [of b] by simp
  then have "hex_digit_value (hex_digit (unat b div 16)) = Some (unat b div 16)"
    "hex_digit_value (hex_digit (unat b mod 16)) = Some (unat b mod 16)"
    by (simp_all add: hex_digit_value_digit)
  with Cons show ?case by (simp add: sample_encode_def flip: of_nat_mult of_nat_add)
qed (simp add: sample_encode_def)

lemma sample_crates_hex: "hex_decode sample_crates (hex_encode sample_crates bs) = Some bs"
  by (simp add: sample_crates_def sample_decode_encode)

end
