(* ===== verification/Note_Types.thy ===== *)
theory Note_Types
  imports Rust_Str
begin

text \<open>
  \<open>crates/privacy/src/types.rs\<close>: commitments, nullifiers, asset identifiers and notes, with the
  two hash constructions and the textual form of the 32-byte newtypes. The lemmas show that a
  commitment binds all four fields of a note and a nullifier both its spending key and its
  commitment, as far as the hash does not collide on the preimages concerned, and that parsing
  inverts printing.
\<close>

section \<open>Definitions\<close>

datatype commitment = Commitment (commitment_bytes: bytes32)

datatype nullifier = Nullifier (nullifier_bytes: bytes32)

datatype asset_id = AssetId (asset_bytes: bytes32)

record Note =
  note_amount :: u64
  note_asset :: asset_id
  note_owner :: bytes
  note_salt :: bytes32

record shielded_balance =
  balance_asset :: asset_id
  total_shielded :: u64

record compliance_report =
  report_tx_count :: u64
  report_total_volume :: u64
  compliance_proof :: bytes
  report_block_height :: u64

datatype note_error =
    AmountZero
  | OwnerPubkeyLength
  | InvalidHex
  | HexLength

definition note_preimage :: "Note \<Rightarrow> bytes" where
  "note_preimage n =
     le8 (note_amount n) @ b32 (asset_bytes (note_asset n)) @ note_owner n @ b32 (note_salt n)"

definition commitment_from_note :: "hash32 \<Rightarrow> Note \<Rightarrow> note_error + commitment" where
  "commitment_from_note sha n =
     (if note_amount n = 0 then Inl AmountZero
      else if length (note_owner n) \<noteq> 32 then Inl OwnerPubkeyLength
      else Inr (Commitment (sha (note_preimage n))))"

definition nullifier_compute :: "hash32 \<Rightarrow> bytes32 \<Rightarrow> commitment \<Rightarrow> nullifier" where
  "nullifier_compute sha spending_key c =
     Nullifier (sha (b32 spending_key @ b32 (commitment_bytes c)))"

text \<open>\<open>Display\<close> and \<open>FromStr\<close> are written three times in the code, once per newtype.\<close>

definition hex32_display :: "crates \<Rightarrow> bytes32 \<Rightarrow> string" where
  "hex32_display cr h = hex_encode cr (b32 h)"

definition hex32_from_str :: "crates \<Rightarrow> string \<Rightarrow> note_error + bytes32" where
  "hex32_from_str cr s =
     (case hex_decode cr s of
        None \<Rightarrow> Inl InvalidHex
      | Some bs \<Rightarrow> if length bs \<noteq> 32 then Inl HexLength else Inr (array32 bs))"

definition commitment_display :: "crates \<Rightarrow> commitment \<Rightarrow> string" where
  "commitment_display cr c = hex32_display cr (commitment_bytes c)"

definition commitment_from_str :: "crates \<Rightarrow> string \<Rightarrow> note_error + commitment" where
  "commitment_from_str cr s = rbind (hex32_from_str cr s) (\<lambda>h. Inr (Commitment h))"

definition nullifier_display :: "crates \<Rightarrow> nullifier \<Rightarrow> string" where
  "nullifier_display cr n = hex32_display cr (nullifier_bytes n)"

definition nullifier_from_str :: "crates \<Rightarrow> string \<Rightarrow> note_error + nullifier" where
  "nullifier_from_str cr s = rbind (hex32_from_str cr s) (\<lambda>h. Inr (Nullifier h))"

definition asset_display :: "crates \<Rightarrow> asset_id \<Rightarrow> string" where
  "asset_display cr a = hex32_display cr (asset_bytes a)"

definition asset_from_str :: "crates \<Rightarrow> string \<Rightarrow> note_error + asset_id" where
  "asset_from_str cr s = rbind (hex32_from_str cr s) (\<lambda>h. Inr (AssetId h))"

section \<open>Commitments and nullifiers bind their inputs\<close>

lemma commitment_from_note_Inr_iff:
  "commitment_from_note sha n = Inr c \<longleftrightarrow>
     note_amount n \<noteq> 0 \<and> length (note_owner n) = 32 \<and> c = Commitment (sha (note_preimage n))"
  by (auto simp: commitment_from_note_def)

lemma note_preimage_inject:
  assumes "length (note_owner n) = length (note_owner (m :: Note))" "note_preimage n = note_preimage m"
  shows "n = (m :: Note)"
proof -
  from assms(2) have "note_amount n = note_amount m" "asset_bytes (note_asset n) = asset_bytes (note_asset m)"
    and rest: "note_owner n @ b32 (note_salt n) = note_owner m @ b32 (note_salt m)"
    by (simp_all add: note_preimage_def)
  moreover from rest assms(1) have "note_owner n = note_owner m" "note_salt n = note_salt m"
    by (simp_all add: append_eq_append_conv)
  moreover have "note_asset n = note_asset m"
    using \<open>asset_bytes (note_asset n) = asset_bytes (note_asset m)\<close> by (rule asset_id.expand)
  ultimately show ?thesis by simp
qed

lemma commitment_binding:
  assumes "commitment_from_note sha n = Inr c" "commitment_from_note sha m = Inr c"
    and "inj_on sha {note_preimage n, note_preimage m}"
  shows "n = m"
proof (rule note_preimage_inject)
  from assms(1,2) show "length (note_owner n) = length (note_owner m)"
    by (simp add: commitment_from_note_Inr_iff)
  from assms(1,2) have "sha (note_preimage n) = sha (note_preimage m)"
    by (simp add: commitment_from_note_Inr_iff)
  with assms(3) show "note_preimage n = note_preimage m" by (rule inj_on_pairD)
qed

definition nullifier_pre :: "bytes32 \<Rightarrow> commitment \<Rightarrow> bytes" where
  "nullifier_pre k c = b32 k @ b32 (commitment_bytes c)"

lemma nullifier_pre_inject [simp]: "nullifier_pre k c = nullifier_pre l d \<longleftrightarrow> k = l \<and> c = d"
  by (auto simp: nullifier_pre_def intro: commitment.expand)

lemma nullifier_binding:
  assumes "inj_on sha {nullifier_pre k c, nullifier_pre l d}"
  shows "nullifier_compute sha k c = nullifier_compute sha l d \<longleftrightarrow> k = l \<and> c = d"
  using inj_on_pairD [OF assms] unfolding nullifier_compute_def nullifier_pre_def [symmetric]
  by auto

section \<open>Textual form\<close>

lemma hex32_from_str_display:
  assumes "\<And>bs. hex_decode cr (hex_encode cr bs) = Some bs"
  shows "hex32_from_str cr (hex32_display cr h) = Inr h"
  by (simp add: hex32_from_str_def hex32_display_def assms)

lemma newtype_round_trips:
  assumes "\<And>bs. hex_decode cr (hex_encode cr bs) = Some bs"
  shows "commitment_from_str cr (commitment_display cr c) = Inr c"
    and "nullifier_from_str cr (nullifier_display cr n) = Inr n"
    and "asset_from_str cr (asset_display cr a) = Inr a"
  using assms
  by (simp_all add: commitment_from_str_def commitment_display_def nullifier_from_str_def
    nullifier_display_def asset_from_str_def asset_display_def hex32_from_str_display)

end
