(* ===== verification/Interfaces.thy ===== *)
theory Interfaces
  imports Prelude
begin

text \<open>
  The interfaces between the components, as locales over the operations a client calls and the
  laws a provider promises. The rollup executes one message after the other; a message whose
  handler returns an error has its state changes reverted (the contract \<open>apply_tx\<close> documents in
  \<open>crates/stf/stf-declaration\<close>), which is \<open>exec\<close>.
\<close>

section \<open>Executing messages\<close>

definition exec :: "('m \<Rightarrow> 's \<Rightarrow> 'e + 's) \<Rightarrow> 'm \<Rightarrow> 's \<Rightarrow> 's" where
  "exec step m s = (case step m s of Inl _ \<Rightarrow> s | Inr s' \<Rightarrow> s')"

fun run :: "('m \<Rightarrow> 's \<Rightarrow> 'e + 's) \<Rightarrow> 'm list \<Rightarrow> 's \<Rightarrow> 's" where
  "run step [] s = s"
| "run step (m # ms) s = run step ms (exec step m s)"

text \<open>The messages of a run that were not rejected.\<close>

fun accepted :: "('m \<Rightarrow> 's \<Rightarrow> 'e + 's) \<Rightarrow> 'm list \<Rightarrow> 's \<Rightarrow> 'm list" where
  "accepted step [] s = []"
| "accepted step (m # ms) s =
     (case step m s of
        Inl _ \<Rightarrow> accepted step ms s
      | Inr s' \<Rightarrow> m # accepted step ms s')"

lemma exec_Inl [simp]: "step m s = Inl e \<Longrightarrow> exec step m s = s"
  by (simp add: exec_def)

lemma exec_Inr [simp]: "step m s = Inr s' \<Longrightarrow> exec step m s = s'"
  by (simp add: exec_def)

lemma run_append: "run step (xs @ ys) s = run step ys (run step xs s)"
  by (induction xs arbitrary: s) simp_all

lemma run_invariant:
  assumes "P s" "\<And>m s s'. m \<in> set ms \<Longrightarrow> P s \<Longrightarrow> step m s = Inr s' \<Longrightarrow> P s'"
  shows "P (run step ms s)"
  using assms
proof (induction ms arbitrary: s)
  case (Cons m ms)
  have "P (exec step m s)"
  proof (cases "step m s")
    case (Inl e)
    with Cons.prems(1) show ?thesis by simp
  next
    case (Inr s')
    then have "P s'" by (rule Cons.prems(2) [OF list.set_intros(1) Cons.prems(1)])
    with Inr show ?thesis by simp
  qed
  then have "P (run step ms (exec step m s))"
    by (rule Cons.IH) (rule Cons.prems(2), simp_all)
  then show ?case by simp
qed simp

text \<open>Entries of a list that are pairwise disjoint sets.\<close>

fun disjoint_list :: "'k set list \<Rightarrow> bool" where
  "disjoint_list [] = True"
| "disjoint_list (A # As) = ((\<forall>B \<in> set As. A \<inter> B = {}) \<and> disjoint_list As)"

lemma disjoint_list_nth:
  "disjoint_list As \<Longrightarrow> i < j \<Longrightarrow> j < length As \<Longrightarrow> As ! i \<inter> As ! j = {}"
proof (induction As arbitrary: i j)
  case (Cons A As)
  then show ?case by (cases i; cases j) auto
qed simp

section \<open>Replay guards\<close>

text \<open>
  A step that consumes keys: it succeeds only if none of them was consumed before, and consumes
  exactly them. The pool's nullifiers and the bridge's deposit and withdrawal keys are instances.
\<close>

locale replay_guard =
  fixes step :: "'m \<Rightarrow> 's \<Rightarrow> 'e + 's"
    and keys :: "'m \<Rightarrow> 'k set"
    and spent :: "'s \<Rightarrow> 'k set"
  assumes fresh: "step m s = Inr s' \<Longrightarrow> keys m \<inter> spent s = {}"
    and consume: "step m s = Inr s' \<Longrightarrow> spent s' = spent s \<union> keys m"
begin

lemma spent_run: "spent (run step ms s) = spent s \<union> \<Union> (keys ` set (accepted step ms s))"
proof (induction ms arbitrary: s)
  case (Cons m ms)
  then show ?case by (cases "step m s") (auto dest: consume)
qed simp

lemma accepted_fresh: "m \<in> set (accepted step ms s) \<Longrightarrow> keys m \<inter> spent s = {}"
proof (induction ms arbitrary: s)
  case (Cons m' ms)
  show ?case
  proof (cases "step m' s")
    case (Inr s')
    with Cons.prems have "m = m' \<or> m \<in> set (accepted step ms s')" by auto
    then show ?thesis
      using Cons.IH [of s'] fresh [OF Inr] consume [OF Inr] by auto
  qed (use Cons in auto)
qed simp

lemma no_replay: "disjoint_list (map keys (accepted step ms s))"
proof (induction ms arbitrary: s)
  case (Cons m ms)
  show ?case
  proof (cases "step m s")
    case (Inr s')
    have "keys m \<inter> keys m' = {}" if "m' \<in> set (accepted step ms s')" for m'
      using accepted_fresh [OF that] consume [OF Inr] by auto
    with Inr Cons.IH [of s'] show ?thesis by auto
  qed (use Cons in simp)
qed simp

lemma spent_mono: "spent s \<subseteq> spent (run step ms s)"
  by (auto simp: spent_run)

end

section \<open>Commitment logs\<close>

text \<open>
  Appending leaves to a tree of bounded capacity. The provider is the pool's commitment tree; its
  clients are the shield and transfer handlers and the bridge's claim handler.
\<close>

locale commitment_log =
  fixes add :: "'c \<Rightarrow> 's \<Rightarrow> 'e + 's"
    and entries :: "'s \<Rightarrow> 'c list"
    and inv :: "'s \<Rightarrow> bool"
    and capacity :: nat
  assumes add_ok: "inv s \<Longrightarrow> length (entries s) < capacity \<Longrightarrow> \<exists>s'. add c s = Inr s'"
    and add_full: "inv s \<Longrightarrow> \<not> length (entries s) < capacity \<Longrightarrow> \<exists>e. add c s = Inl e"
    and add_entries: "inv s \<Longrightarrow> add c s = Inr s' \<Longrightarrow> entries s' = entries s @ [c]"
    and add_inv: "inv s \<Longrightarrow> add c s = Inr s' \<Longrightarrow> inv s'"
begin

lemma add_ok_iff: "inv s \<Longrightarrow> (\<exists>s'. add c s = Inr s') \<longleftrightarrow> length (entries s) < capacity"
  using add_ok add_full by (metis sum.distinct(1))

lemma add_room: "inv s \<Longrightarrow> add c s = Inr s' \<Longrightarrow> length (entries s) < capacity"
  using add_ok_iff by blast

text \<open>A client that adds a sequence of leaves, with other state changes in between that touch
  neither the entries nor the invariant.\<close>

lemma rfold_add:
  assumes "rfold (\<lambda>x s. rbind (add (c x) s) (\<lambda>t. Inr (after x t))) xs s = Inr s'" "inv s"
    and "\<And>x t. entries (after x t) = entries t" "\<And>x t. inv t \<Longrightarrow> inv (after x t)"
  shows "entries s' = entries s @ map c xs \<and> inv s'"
  using assms(1,2)
proof (induction xs arbitrary: s)
  case (Cons x xs)
  from Cons.prems obtain t where t: "add (c x) s = Inr t"
    "rfold (\<lambda>x s. rbind (add (c x) s) (\<lambda>t. Inr (after x t))) xs (after x t) = Inr s'" by auto
  with Cons.IH [OF t(2)] Cons.prems assms(3,4) add_entries add_inv show ?case by auto
qed simp

lemma rfold_add_ok_iff:
  assumes "inv s" "\<And>x t. entries (after x t) = entries t" "\<And>x t. inv t \<Longrightarrow> inv (after x t)"
  shows "(\<exists>s'. rfold (\<lambda>x s. rbind (add (c x) s) (\<lambda>t. Inr (after x t))) xs s = Inr s')
    \<longleftrightarrow> xs = [] \<or> length (entries s) + length xs \<le> capacity"
  using assms(1)
proof (induction xs arbitrary: s)
  case (Cons x xs)
  show ?case
  proof (cases "add (c x) s")
    case (Inl e)
    with add_ok_iff [OF Cons.prems, of "c x"] show ?thesis by auto
  next
    case (Inr t)
    have "inv (after x t)" "length (entries (after x t)) = Suc (length (entries s))"
      using Inr Cons.prems assms(2,3) add_entries add_inv by auto
    with Cons.IH [of "after x t"] Inr add_room [OF Cons.prems Inr] show ?thesis by auto
  qed
qed simp

end

section \<open>Bounded accounts\<close>

text \<open>
  A balance kept in a machine word: as long as a step's credit fits, the balance takes it exactly,
  and a debit larger than the balance leaves zero. The pool's supplies are accounts, both for the
  pool alone and for the rollup with its bridge.
\<close>

locale bounded_account =
  fixes step :: "'m \<Rightarrow> 's \<Rightarrow> 'e + 's"
    and balance :: "'s \<Rightarrow> nat"
    and credit debit :: "'m \<Rightarrow> nat"
    and limit :: nat
  assumes account: "step m s = Inr s' \<Longrightarrow> balance s + credit m < limit \<Longrightarrow>
    balance s' = balance s + credit m - debit m"
begin

lemma balance_run:
  assumes "balance s + sum_list (map credit (accepted step ms s)) < limit"
  shows "balance (run step ms s) \<le> balance s + sum_list (map credit (accepted step ms s)) \<and>
    balance s + sum_list (map credit (accepted step ms s)) \<le>
      balance (run step ms s) + sum_list (map debit (accepted step ms s))"
  using assms
proof (induction ms arbitrary: s)
  case (Cons m ms)
  show ?case
  proof (cases "step m s")
    case (Inl e)
    with Cons show ?thesis by simp
  next
    case (Inr s')
    let ?T = "accepted step ms s'"
    from Inr Cons.prems have le: "balance s + credit m + sum_list (map credit ?T) < limit" by simp
    then have eq: "balance s' = balance s + credit m - debit m"
      using account [OF Inr] by simp
    with le have "balance s' + sum_list (map credit ?T) < limit" by linarith
    from Cons.IH [OF this] eq show ?thesis using Inr by simp linarith
  qed
qed simp

end

section \<open>Proof gates\<close>

text \<open>
  A verifier in front of a handler. It rejects the empty proof; and, as the code stands, its
  verdict is a function of the proof alone: the public inputs that accompany the proof in the
  message do not enter it.
\<close>

locale proof_gate =
  fixes verify :: "bytes \<Rightarrow> 'p \<Rightarrow> 'e + unit"
  assumes rejects_empty: "\<not> is_ok (verify [] p)"
    and input_blind: "verify pr p = verify pr q"
begin

lemma accepted_nonempty: "verify pr p = Inr u \<Longrightarrow> pr \<noteq> []"
  using rejects_empty by (auto simp: is_ok_iff)

lemma accepts_any_input: "verify pr p = Inr u \<Longrightarrow> verify pr q = Inr ()"
  using input_blind [of pr p q] by simp

end

end
