(* ===== verification/Zk_Verify.thy ===== *)
theory Zk_Verify
  imports Note_Types Interfaces
begin

text \<open>
  \<open>crates/privacy/src/zk/mod.rs\<close>: the proof verification of the pool, in its two builds. The
  default build checks a four-byte header; the \<open>sp1\<close> build calls the Groth16 verifier of a
  third-party crate, a function of the proof, the public values and the key hash.
\<close>

section \<open>Public inputs (declared in \<open>lib.rs\<close>)\<close>

record transfer_public_inputs =
  transfer_amount :: u64
  transfer_asset :: asset_id
  merkle_root_input :: bytes32

record unshield_public_inputs =
  unshield_amount :: u64
  unshield_asset :: asset_id

record sanctions_public_inputs =
  recipient_commitment :: bytes32
  sanctions_root_input :: bytes32
  proof_timestamp :: u64

section \<open>Verification\<close>

datatype zk_backend = Mock | Sp1 (groth16: "bytes \<Rightarrow> bytes \<Rightarrow> string \<Rightarrow> bool")

datatype zk_error = EmptyProof | BadHeader | Groth16Rejected

definition TRANSFER_VK_HASH :: string where
  "TRANSFER_VK_HASH = ''0x00c5d483a0285f4a44d86bb6b142a0fbbdb7ac765e2436b8c9222907a198ed08''"

definition UNSHIELD_VK_HASH :: string where
  "UNSHIELD_VK_HASH = ''0x001f5c8123eb2c9b803e50ef3379697e5ccf2153dab59630b893b04c10bb238a''"

definition SANCTIONS_VK_HASH :: string where
  "SANCTIONS_VK_HASH = ''0x0000000000000000000000000000000000000000000000000000000000000000''"

definition mock_header_ok :: "bytes \<Rightarrow> bool" where
  "mock_header_ok proof' = (\<not> (length proof' < 4 \<or> take 4 proof' \<noteq> str_bytes ''OBSv''))"

definition verify_transfer_proof ::
    "zk_backend \<Rightarrow> bytes \<Rightarrow> transfer_public_inputs \<Rightarrow> zk_error + unit" where
  "verify_transfer_proof b pr public_inputs =
     (if pr = [] then Inl EmptyProof
      else case b of
        Sp1 groth \<Rightarrow> if groth pr [] TRANSFER_VK_HASH then Inr () else Inl Groth16Rejected
      | Mock \<Rightarrow> if \<not> mock_header_ok pr then Inl BadHeader else Inr ())"

definition verify_unshield_proof ::
    "zk_backend \<Rightarrow> bytes \<Rightarrow> unshield_public_inputs \<Rightarrow> zk_error + unit" where
  "verify_unshield_proof b pr public_inputs =
     (if pr = [] then Inl EmptyProof
      else case b of
        Sp1 groth \<Rightarrow> if groth pr [] UNSHIELD_VK_HASH then Inr () else Inl Groth16Rejected
      | Mock \<Rightarrow> if \<not> mock_header_ok pr then Inl BadHeader else Inr ())"

definition verify_sanctions_proof ::
    "zk_backend \<Rightarrow> bytes \<Rightarrow> sanctions_public_inputs \<Rightarrow> zk_error + unit" where
  "verify_sanctions_proof b pr public_inputs =
     (if pr = [] then Inl EmptyProof
      else case b of
        Sp1 groth \<Rightarrow> if groth pr [] SANCTIONS_VK_HASH then Inr () else Inl Groth16Rejected
      | Mock \<Rightarrow> if \<not> mock_header_ok pr then Inl BadHeader else Inr ())"

definition mock_proof :: "bytes \<Rightarrow> bytes" where
  "mock_proof payload = str_bytes ''OBSv'' @ payload"

section \<open>The verifiers are gates\<close>

interpretation transfer_gate: proof_gate "verify_transfer_proof b" for b
  by unfold_locales (simp_all add: verify_transfer_proof_def)

interpretation unshield_gate: proof_gate "verify_unshield_proof b" for b
  by unfold_locales (simp_all add: verify_unshield_proof_def)

interpretation sanctions_gate: proof_gate "verify_sanctions_proof b" for b
  by unfold_locales (simp_all add: verify_sanctions_proof_def)

lemma mock_header_ok_mock_proof [simp]: "mock_header_ok (mock_proof payload)"
  by (simp add: mock_header_ok_def mock_proof_def)

lemma mock_proof_not_Nil [simp]: "mock_proof payload \<noteq> []"
  by (simp add: mock_proof_def str_bytes_def)

lemma mock_proof_accepted [simp]:
  "verify_transfer_proof Mock (mock_proof payload) tp = Inr ()"
  "verify_unshield_proof Mock (mock_proof payload) up = Inr ()"
  "verify_sanctions_proof Mock (mock_proof payload) sp = Inr ()"
  by (simp_all add: verify_transfer_proof_def verify_unshield_proof_def verify_sanctions_proof_def)

lemma mock_accepts_iff: "verify_transfer_proof Mock pr tp = Inr () \<longleftrightarrow> (\<exists>payload. pr = mock_proof payload)"
proof
  assume "verify_transfer_proof Mock pr tp = Inr ()"
  then have "take 4 pr = str_bytes ''OBSv''"
    by (simp add: verify_transfer_proof_def mock_header_ok_def split: if_splits)
  then have "pr = mock_proof (drop 4 pr)"
    by (metis append_take_drop_id mock_proof_def)
  then show "\<exists>payload. pr = mock_proof payload" ..
qed auto

end
