(* ===== verification/Pool.thy ===== *)
theory Pool
  imports Merkle Zk_Verify
begin

text \<open>
  \<open>crates/privacy/src/lib.rs\<close>: the shielded pool module. Its state is a record with one field
  per state variable (a \<open>StateValue\<close> is an option, a \<open>StateMap\<close> a partial map, a \<open>StateVec\<close> a
  list) and the list of emitted events; every handler maps a message and a state to an error or
  the new state. The hash and hex crates, the proof backend, the wall clock and the sender of the
  transaction are arguments. Reads and writes of state do not fail here: the \<open>?\<close> after them
  propagates the metering errors of the SDK.
\<close>

section \<open>State\<close>

datatype privacy_event =
    Shielded bytes32
  | PrivateTransfer u32 u32
  | Unshielded bytes32 u64
  | SanctionsRootUpdated bytes32

record pool_state =
  commitments :: "commitment list"
  merkle_root :: "bytes32 option"
  merkle_next_index :: "u64 option"
  merkle_filled_subtrees :: "u32 \<rightharpoonup> bytes32"
  merkle_roots :: "u64 \<rightharpoonup> bytes32"
  merkle_roots_count :: "u64 option"
  nullifiers :: "nullifier \<rightharpoonup> bool"
  shielded_supply :: "asset_id \<rightharpoonup> u64"
  compliance_tx_count :: "u64 option"
  compliance_total_volume :: "u64 option"
  sanctions_root :: "bytes32 option"
  sanctions_oracle :: "bytes option"
  encrypted_notes :: "string \<rightharpoonup> bytes"
  pool_events :: "privacy_event list"

definition empty_pool_state :: pool_state where
  "empty_pool_state =
     \<lparr>commitments = [], merkle_root = None, merkle_next_index = None,
      merkle_filled_subtrees = Map.empty, merkle_roots = Map.empty, merkle_roots_count = None,
      nullifiers = Map.empty, shielded_supply = Map.empty, compliance_tx_count = None,
      compliance_total_volume = None, sanctions_root = None, sanctions_oracle = None,
      encrypted_notes = Map.empty, pool_events = []\<rparr>"

section \<open>Messages\<close>

record shield_message =
  shield_note :: Note
  encrypted_note :: bytes

record transfer_message =
  transfer_proof :: bytes
  transfer_inputs :: transfer_public_inputs
  transfer_nullifiers :: "nullifier list"
  output_commitments :: "commitment list"
  sanctions_proof :: bytes
  sanctions_inputs :: sanctions_public_inputs
  encrypted_outputs :: "bytes list"

record unshield_message =
  unshield_proof :: bytes
  unshield_inputs :: unshield_public_inputs
  unshield_nullifier :: nullifier
  unshield_recipient :: bytes

record update_sanctions_root_message =
  new_sanctions_root :: bytes32

datatype call_message =
    Shield shield_message
  | Transfer transfer_message
  | Unshield unshield_message
  | UpdateSanctionsRoot update_sanctions_root_message

datatype pool_error =
    NoteError note_error
  | TreeFull
  | UnknownRoot bytes32
  | TransferProofError zk_error
  | StaleSanctionsRoot bytes32 bytes32
  | SanctionsProofTooOld u64
  | SanctionsProofError zk_error
  | NoteAlreadySpent nullifier
  | NotOracle
  | UnshieldProofError zk_error

definition SANCTIONS_PROOF_MAX_AGE_SECS :: u64 where
  "SANCTIONS_PROOF_MAX_AGE_SECS = 86400"

section \<open>Genesis\<close>

definition pool_genesis :: "hash32 \<Rightarrow> pool_state \<Rightarrow> pool_state" where
  "pool_genesis sha s =
     s\<lparr>merkle_filled_subtrees :=
         fold (\<lambda>level m. m(of_nat level \<mapsto> zero_value sha level)) [0..<TREE_DEPTH] (merkle_filled_subtrees s),
       merkle_root := Some (empty_root sha),
       merkle_next_index := Some 0,
       merkle_roots_count := Some 0,
       compliance_tx_count := Some 0,
       compliance_total_volume := Some 0\<rparr>"

section \<open>The commitment tree\<close>

definition filled_cache :: "hash32 \<Rightarrow> pool_state \<Rightarrow> bytes32 list" where
  "filled_cache sha s =
     map (\<lambda>level. unwrap_or (merkle_filled_subtrees s (of_nat level)) (zero_value sha level)) [0..<TREE_DEPTH]"

definition insert_commitment :: "hash32 \<Rightarrow> commitment \<Rightarrow> pool_state \<Rightarrow> pool_error + pool_state" where
  "insert_commitment sha c s =
     (let next_index = unwrap_or (merkle_next_index s) 0
      in if next_index \<ge> push_bit TREE_DEPTH 1 then Inl TreeFull
         else let leaf = commitment_bytes c;
                  (new_root, updates) = compute_insert sha leaf next_index (\<lambda>level. filled_cache sha s ! level);
                  roots_count = unwrap_or (merkle_roots_count s) 0;
                  slot = roots_count mod ROOTS_HISTORY_SIZE
              in Inr (s\<lparr>merkle_filled_subtrees :=
                          fold (\<lambda>(level, val) m. m(of_nat level \<mapsto> val)) updates (merkle_filled_subtrees s),
                        merkle_root := Some new_root,
                        merkle_roots := (merkle_roots s)(slot \<mapsto> new_root),
                        merkle_roots_count := Some (roots_count + 1),
                        merkle_next_index := Some (next_index + 1)\<rparr>))"

text \<open>The two calls every client makes: push to the flat list, insert into the tree.\<close>

definition append_commitment :: "hash32 \<Rightarrow> commitment \<Rightarrow> pool_state \<Rightarrow> pool_error + pool_state" where
  "append_commitment sha c s = insert_commitment sha c (s\<lparr>commitments := commitments s @ [c]\<rparr>)"

definition is_known_root :: "bytes32 \<Rightarrow> pool_state \<Rightarrow> bool" where
  "is_known_root root s =
     (let roots_count = unwrap_or (merkle_roots_count s) 0
      in if roots_count = 0 then False
         else list_ex (\<lambda>i. case merkle_roots s (of_nat i mod ROOTS_HISTORY_SIZE) of
                             Some r \<Rightarrow> r = root
                           | None \<Rightarrow> False)
                [0..<unat (min roots_count ROOTS_HISTORY_SIZE)])"

section \<open>Handlers\<close>

definition note_key :: "crates \<Rightarrow> commitment \<Rightarrow> string" where
  "note_key cr c = ''0x'' @ hex_encode cr (b32 (commitment_bytes c))"

definition store_encrypted :: "crates \<Rightarrow> commitment \<Rightarrow> bytes \<Rightarrow> pool_state \<Rightarrow> pool_state" where
  "store_encrypted cr c enc s =
     (if enc \<noteq> [] then s\<lparr>encrypted_notes := (encrypted_notes s)(note_key cr c \<mapsto> enc)\<rparr> else s)"

definition handle_shield :: "crates \<Rightarrow> shield_message \<Rightarrow> pool_state \<Rightarrow> pool_error + pool_state" where
  "handle_shield cr msg s =
     rbind (map_err NoteError (commitment_from_note (sha256 cr) (shield_note msg))) (\<lambda>c.
     rbind (append_commitment (sha256 cr) c s) (\<lambda>s1.
       let s2 = store_encrypted cr c (encrypted_note msg) s1;
           asset = note_asset (shield_note msg);
           current_supply = unwrap_or (shielded_supply s2 asset) 0
       in Inr (s2\<lparr>shielded_supply := (shielded_supply s2)(asset \<mapsto> current_supply + note_amount (shield_note msg)),
                  pool_events := pool_events s2 @ [Shielded (commitment_bytes c)]\<rparr>)))"

definition is_spent :: "pool_state \<Rightarrow> nullifier \<Rightarrow> bool" where
  "is_spent s n = unwrap_or (nullifiers s n) False"

definition check_sanctions_root :: "transfer_message \<Rightarrow> pool_state \<Rightarrow> pool_error + unit" where
  "check_sanctions_root msg s =
     (let current_root = unwrap_or (sanctions_root s) 0
      in if current_root \<noteq> 0 \<and> sanctions_root_input (sanctions_inputs msg) \<noteq> current_root
         then Inl (StaleSanctionsRoot current_root (sanctions_root_input (sanctions_inputs msg)))
         else Inr ())"

definition check_freshness :: "u64 \<Rightarrow> transfer_message \<Rightarrow> pool_error + unit" where
  "check_freshness now_secs msg =
     (let timestamp = proof_timestamp (sanctions_inputs msg);
          proof_age = saturating_sub64 now_secs timestamp
      in if timestamp > 0 \<and> proof_age > SANCTIONS_PROOF_MAX_AGE_SECS
         then Inl (SanctionsProofTooOld proof_age) else Inr ())"

definition check_unspent :: "transfer_message \<Rightarrow> pool_state \<Rightarrow> pool_error + unit" where
  "check_unspent msg s =
     (case find (is_spent s) (transfer_nullifiers msg) of
        Some n \<Rightarrow> Inl (NoteAlreadySpent n)
      | None \<Rightarrow> Inr ())"

text \<open>All the checks of \<open>handle_transfer\<close> that precede its first state change, in its order.\<close>

definition transfer_checks ::
    "zk_backend \<Rightarrow> u64 \<Rightarrow> transfer_message \<Rightarrow> pool_state \<Rightarrow> pool_error + unit" where
  "transfer_checks b now_secs msg s =
     (let claimed_root = merkle_root_input (transfer_inputs msg)
      in rbind (ensure (\<not> (claimed_root \<noteq> 0 \<and> \<not> is_known_root claimed_root s)) (UnknownRoot claimed_root)) (\<lambda>_.
         rbind (map_err TransferProofError (verify_transfer_proof b (transfer_proof msg) (transfer_inputs msg))) (\<lambda>_.
         rbind (check_sanctions_root msg s) (\<lambda>_.
         rbind (check_freshness now_secs msg) (\<lambda>_.
         rbind (map_err SanctionsProofError
                 (verify_sanctions_proof b (sanctions_proof msg) (sanctions_inputs msg))) (\<lambda>_.
         check_unspent msg s))))))"

definition mark_spent :: "nullifier list \<Rightarrow> pool_state \<Rightarrow> pool_state" where
  "mark_spent ns s = s\<lparr>nullifiers := fold (\<lambda>n m. m(n \<mapsto> True)) ns (nullifiers s)\<rparr>"

definition add_outputs :: "crates \<Rightarrow> transfer_message \<Rightarrow> pool_state \<Rightarrow> pool_error + pool_state" where
  "add_outputs cr msg =
     rfold (\<lambda>(i, c) s. rbind (append_commitment (sha256 cr) c s) (\<lambda>t.
              Inr (if i < length (encrypted_outputs msg)
                   then store_encrypted cr c (encrypted_outputs msg ! i) t else t)))
       (List.enumerate 0 (output_commitments msg))"

definition handle_transfer ::
    "crates \<Rightarrow> zk_backend \<Rightarrow> u64 \<Rightarrow> transfer_message \<Rightarrow> pool_state \<Rightarrow> pool_error + pool_state" where
  "handle_transfer cr b now_secs msg s =
     rbind (transfer_checks b now_secs msg s) (\<lambda>_.
     rbind (add_outputs cr msg (mark_spent (transfer_nullifiers msg) s)) (\<lambda>t.
       let count = unwrap_or (compliance_tx_count t) 0;
           volume = unwrap_or (compliance_total_volume t) 0
       in Inr (t\<lparr>compliance_tx_count := Some (count + 1),
                 compliance_total_volume := Some (volume + transfer_amount (transfer_inputs msg)),
                 pool_events := pool_events t @
                   [PrivateTransfer (of_nat (length (transfer_nullifiers msg)))
                                    (of_nat (length (output_commitments msg)))]\<rparr>)))"

definition handle_update_sanctions_root ::
    "bytes \<Rightarrow> update_sanctions_root_message \<Rightarrow> pool_state \<Rightarrow> pool_error + pool_state" where
  "handle_update_sanctions_root sender msg s =
     (let oracle = unwrap_or (sanctions_oracle s) []
      in if oracle \<noteq> [] \<and> sender \<noteq> oracle then Inl NotOracle
         else Inr (s\<lparr>sanctions_root := Some (new_sanctions_root msg),
                     pool_events := pool_events s @ [SanctionsRootUpdated (new_sanctions_root msg)]\<rparr>))"

definition handle_unshield ::
    "zk_backend \<Rightarrow> unshield_message \<Rightarrow> pool_state \<Rightarrow> pool_error + pool_state" where
  "handle_unshield b msg s =
     rbind (map_err UnshieldProofError (verify_unshield_proof b (unshield_proof msg) (unshield_inputs msg))) (\<lambda>_.
       if is_spent s (unshield_nullifier msg) then Inl (NoteAlreadySpent (unshield_nullifier msg))
       else let asset = unshield_asset (unshield_inputs msg);
                amount = unshield_amount (unshield_inputs msg);
                current_supply = unwrap_or (shielded_supply s asset) 0
            in Inr (s\<lparr>nullifiers := (nullifiers s)(unshield_nullifier msg \<mapsto> True),
                      shielded_supply := (shielded_supply s)(asset \<mapsto> saturating_sub64 current_supply amount),
                      pool_events := pool_events s @ [Unshielded (nullifier_bytes (unshield_nullifier msg)) amount]\<rparr>))"

fun pool_call ::
    "crates \<Rightarrow> zk_backend \<Rightarrow> u64 \<Rightarrow> bytes \<Rightarrow> call_message \<Rightarrow> pool_state \<Rightarrow> pool_error + pool_state" where
  "pool_call cr b now_secs sender (Shield msg) s = handle_shield cr msg s"
| "pool_call cr b now_secs sender (Transfer msg) s = handle_transfer cr b now_secs msg s"
| "pool_call cr b now_secs sender (Unshield msg) s = handle_unshield b msg s"
| "pool_call cr b now_secs sender (UpdateSanctionsRoot msg) s = handle_update_sanctions_root sender msg s"

end
