(* ===== verification/Bridge.thy ===== *)
theory Bridge
  imports Pool
begin

text \<open>
  \<open>crates/zk-bridge/src/module.rs\<close> with its types (\<open>types.rs\<close>, \<open>helios_types.rs\<close>) and proof
  checks (\<open>verifier.rs\<close>, \<open>helios.rs\<close>): deposit claims, withdrawals and the Helios light-client head.
  The bridge owns a handle on the pool, whose state is a field of the bridge state; a claim appends
  to the pool's commitments. As in \<open>Pool\<close>, hex and hash functions are arguments and state access
  does not fail.
\<close>

section \<open>Types\<close>

record bridge_public_inputs =
  eth_block_hash :: bytes32
  beacon_block_root :: bytes32
  deposit_id :: u64
  obscura_recipient :: bytes32
  amount :: u64
  bridge_contract :: bytes20

record claim_deposit =
  claim_proof :: bytes
  claim_inputs :: bridge_public_inputs

record withdraw_bridge =
  withdraw_deposit_id :: u64
  withdraw_eth_recipient :: bytes20

record withdrawal_record =
  wr_withdrawal_id :: u64
  wr_deposit_id :: u64
  wr_eth_recipient :: bytes20
  wr_amount :: u64
  wr_relayed :: bool

record helios_public_inputs =
  prev_trusted_root :: bytes32
  new_beacon_root :: bytes32
  new_slot :: u64
  execution_block_hash :: bytes32

record update_helios_head =
  helios_proof :: bytes
  helios_inputs :: helios_public_inputs

record helios_config =
  initial_trusted_beacon_root :: bytes32
  initial_trusted_slot :: u64
  max_slot_gap :: u64

definition default_helios_config :: helios_config where
  "default_helios_config =
     \<lparr>initial_trusted_beacon_root = 0, initial_trusted_slot = 0, max_slot_gap = 8192\<rparr>"

record bridge_config =
  bridge_contract_address :: string
  config_vk_hash :: bytes32
  max_proof_age_secs :: u64
  admin :: bytes
  config_helios :: helios_config

definition default_bridge_config :: bridge_config where
  "default_bridge_config =
     \<lparr>bridge_contract_address = ''0x0000000000000000000000000000000000000000'',
      config_vk_hash = 0, max_proof_age_secs = 7 * 24 * 3600, admin = [],
      config_helios = default_helios_config\<rparr>"

section \<open>Proof verification\<close>

datatype bridge_proof_error = NotCompiledIn | NotImplemented

datatype build_features = DefaultBuild | NativeBuild

definition MOCK_PROOF_PREFIX :: bytes where
  "MOCK_PROOF_PREFIX = str_bytes ''OBSbridge''"

definition verify_sp1_proof :: "bytes \<Rightarrow> bridge_public_inputs \<Rightarrow> bridge_proof_error + unit" where
  "verify_sp1_proof pr public_inputs = Inl NotImplemented"

definition verify_bridge_proof ::
    "build_features \<Rightarrow> bytes \<Rightarrow> bridge_public_inputs \<Rightarrow> bridge_proof_error + unit" where
  "verify_bridge_proof build pr public_inputs =
     (if starts_with MOCK_PROOF_PREFIX pr then Inr ()
      else case build of
             NativeBuild \<Rightarrow> verify_sp1_proof pr public_inputs
           | DefaultBuild \<Rightarrow> Inl NotCompiledIn)"

text \<open>
  The SP1 client: whether the circuit's ELF is on disk, the decoding of a proof, its verdict, and
  the four values the circuit committed to (reading them panics when they are malformed).
\<close>

record 'p sp1_client =
  elf_found :: bool
  decode_proof :: "bytes \<Rightarrow> 'p option"
  client_verify :: "'p \<Rightarrow> bool"
  committed_values :: "'p \<Rightarrow> helios_public_inputs option"

datatype helios_proof_error =
    HeliosNotCompiledIn | ElfNotFound | DecodeFailed | ProofInvalid | ReadPanic
  | PrevRootMismatch | NewRootMismatch | SlotMismatch | BlockHashMismatch

datatype 'p helios_build = HeliosDefault | HeliosNative "'p sp1_client"

definition MOCK_HELIOS_PREFIX :: bytes where
  "MOCK_HELIOS_PREFIX = str_bytes ''OBShelios''"

definition check_committed ::
    "helios_public_inputs \<Rightarrow> helios_public_inputs \<Rightarrow> helios_proof_error + unit" where
  "check_committed committed submitted =
     (if prev_trusted_root committed \<noteq> prev_trusted_root submitted then Inl PrevRootMismatch
      else if new_beacon_root committed \<noteq> new_beacon_root submitted then Inl NewRootMismatch
      else if new_slot committed \<noteq> new_slot submitted then Inl SlotMismatch
      else if execution_block_hash committed \<noteq> execution_block_hash submitted then Inl BlockHashMismatch
      else Inr ())"

definition verify_helios_sp1_proof ::
    "'p sp1_client \<Rightarrow> bytes \<Rightarrow> helios_public_inputs \<Rightarrow> helios_proof_error + unit" where
  "verify_helios_sp1_proof client pr submitted =
     (if \<not> elf_found client then Inl ElfNotFound
      else case decode_proof client pr of
             None \<Rightarrow> Inl DecodeFailed
           | Some p \<Rightarrow>
               if \<not> client_verify client p then Inl ProofInvalid
               else case committed_values client p of
                      None \<Rightarrow> Inl ReadPanic
                    | Some committed \<Rightarrow> check_committed committed submitted)"

definition verify_helios_proof ::
    "'p helios_build \<Rightarrow> bytes \<Rightarrow> helios_public_inputs \<Rightarrow> helios_proof_error + unit" where
  "verify_helios_proof build pr submitted =
     (if starts_with MOCK_HELIOS_PREFIX pr then Inr ()
      else case build of
             HeliosNative client \<Rightarrow> verify_helios_sp1_proof client pr submitted
           | HeliosDefault \<Rightarrow> Inl HeliosNotCompiledIn)"

section \<open>State\<close>

datatype bridge_event =
    DepositClaimed u64 bytes32 u64 bytes32
  | WithdrawalInitiated u64 u64 bytes20 u64
  | ConfigUpdated
  | HeliosHeadUpdated bytes32 bytes32 u64 bytes32

record bridge_state =
  config :: "bridge_config option"
  processed_deposits :: "string \<rightharpoonup> bool"
  total_bridged_usdc :: "u64 option"
  total_claims :: "u64 option"
  claimed_amounts :: "u64 \<rightharpoonup> u64"
  withdrawals :: "u64 \<rightharpoonup> withdrawal_record"
  next_withdrawal_id :: "u64 option"
  total_withdrawn_usdc :: "u64 option"
  helios_cfg :: "helios_config option"
  trusted_beacon_root :: "bytes32 option"
  trusted_slot :: "u64 option"
  finalized_eth_blocks :: "string \<rightharpoonup> u64"
  helios_update_count :: "u64 option"
  bridge_pool :: pool_state
  bridge_events :: "bridge_event list"

definition empty_bridge_state :: "pool_state \<Rightarrow> bridge_state" where
  "empty_bridge_state p =
     \<lparr>config = None, processed_deposits = Map.empty, total_bridged_usdc = None, total_claims = None,
      claimed_amounts = Map.empty, withdrawals = Map.empty, next_withdrawal_id = None,
      total_withdrawn_usdc = None, helios_cfg = None, trusted_beacon_root = None,
      trusted_slot = None, finalized_eth_blocks = Map.empty, helios_update_count = None,
      bridge_pool = p, bridge_events = []\<rparr>"

datatype bridge_call_message =
    ClaimDeposit claim_deposit
  | WithdrawBridge withdraw_bridge
  | UpdateHeliosHead update_helios_head

datatype bridge_error =
    ZeroAmount | ZeroRecipient | ContractLength | ContractHex | WrongContract
  | AlreadyClaimed u64 | BlockNotFinalized | BridgeProofError bridge_proof_error
  | PoolError pool_error | NotClaimed u64 | AlreadyWithdrawn u64 | NoClaimedAmount u64
  | ChainLinkMismatch | SlotNotAdvancing | SlotGapExceeded u64
  | HeliosProofError helios_proof_error | NotAdmin

definition bridge_genesis :: "bridge_config \<Rightarrow> bridge_state \<Rightarrow> bridge_state" where
  "bridge_genesis c s =
     (let h = config_helios c
      in s\<lparr>config := Some c, total_bridged_usdc := Some 0, total_claims := Some 0,
           next_withdrawal_id := Some 0, total_withdrawn_usdc := Some 0, helios_update_count := Some 0,
           trusted_beacon_root := Some (initial_trusted_beacon_root h),
           trusted_slot := Some (initial_trusted_slot h), helios_cfg := Some h\<rparr>)"

section \<open>Helpers\<close>

definition make_deposit_key_str :: "crates \<Rightarrow> bytes20 \<Rightarrow> u64 \<Rightarrow> string" where
  "make_deposit_key_str cr contract deposit =
     ''0x'' @ hex_encode cr (b20 contract) @ ''_'' @ show_u64 deposit"

definition withdrawal_key :: "u64 \<Rightarrow> string" where
  "withdrawal_key deposit = ''wd_'' @ show_u64 deposit"

definition block_key :: "crates \<Rightarrow> bytes32 \<Rightarrow> string" where
  "block_key cr h = ''0x'' @ hex_encode cr (b32 h)"

definition parse_contract_address :: "crates \<Rightarrow> string \<Rightarrow> bridge_error + bytes20" where
  "parse_contract_address cr addr =
     (let s = (case strip_prefix ''0x'' (trim addr) of Some t \<Rightarrow> t | None \<Rightarrow> trim addr)
      in if length s \<noteq> 40 then Inl ContractLength
         else case hex_decode cr s of
                None \<Rightarrow> Inl ContractHex
              | Some bs \<Rightarrow> if length bs \<noteq> 20 then Inl ContractHex else Inr (array20 bs))"

definition bridged_usdc_asset :: asset_id where
  "bridged_usdc_asset = AssetId (array32 (str_bytes ''bridged-usdc-obscura-network-v01''))"

section \<open>Handlers\<close>

definition is_processed :: "bridge_state \<Rightarrow> string \<Rightarrow> bool" where
  "is_processed s k = unwrap_or (processed_deposits s k) False"

text \<open>The checks of a claim, in their order; the key under which it is recorded is returned.\<close>

definition claim_checks ::
    "crates \<Rightarrow> build_features \<Rightarrow> claim_deposit \<Rightarrow> bridge_state \<Rightarrow> bridge_error + string" where
  "claim_checks cr build claim s =
     (let i = claim_inputs claim
      in rbind (ensure (amount i \<noteq> 0) ZeroAmount) (\<lambda>_.
         rbind (ensure (obscura_recipient i \<noteq> 0) ZeroRecipient) (\<lambda>_.
         rbind (parse_contract_address cr
                  (bridge_contract_address (unwrap_or (config s) default_bridge_config))) (\<lambda>expected_contract.
         rbind (ensure (bridge_contract i = expected_contract) WrongContract) (\<lambda>_.
           let deposit_key = make_deposit_key_str cr (bridge_contract i) (deposit_id i)
           in rbind (ensure (\<not> is_processed s deposit_key) (AlreadyClaimed (deposit_id i))) (\<lambda>_.
              rbind (ensure (\<not> (unwrap_or (trusted_slot s) 0 > 0 \<and>
                        unwrap_or (finalized_eth_blocks s (block_key cr (eth_block_hash i))) 0 = 0))
                      BlockNotFinalized) (\<lambda>_.
              rbind (map_err BridgeProofError (verify_bridge_proof build (claim_proof claim) i)) (\<lambda>_.
              Inr deposit_key))))))))"

definition handle_claim_deposit ::
    "crates \<Rightarrow> build_features \<Rightarrow> claim_deposit \<Rightarrow> bridge_state \<Rightarrow> bridge_error + bridge_state" where
  "handle_claim_deposit cr build claim s =
     (let i = claim_inputs claim
      in rbind (claim_checks cr build claim s) (\<lambda>deposit_key.
         let s1 = s\<lparr>processed_deposits := (processed_deposits s)(deposit_key \<mapsto> True),
                    claimed_amounts := (claimed_amounts s)(deposit_id i \<mapsto> amount i)\<rparr>;
             c = Commitment (obscura_recipient i)
         in rbind (map_err PoolError (append_commitment (sha256 cr) c (bridge_pool s1))) (\<lambda>p.
            let current_shielded = unwrap_or (shielded_supply p bridged_usdc_asset) 0;
                p' = p\<lparr>shielded_supply :=
                         (shielded_supply p)(bridged_usdc_asset \<mapsto> current_shielded + amount i)\<rparr>;
                prev_total = unwrap_or (total_bridged_usdc s1) 0;
                prev_claims = unwrap_or (total_claims s1) 0
            in Inr (s1\<lparr>bridge_pool := p',
                       total_bridged_usdc := Some (prev_total + amount i),
                       total_claims := Some (prev_claims + 1),
                       bridge_events := bridge_events s1 @
                         [DepositClaimed (deposit_id i) (obscura_recipient i) (amount i) (eth_block_hash i)]\<rparr>))))"

definition handle_withdraw_bridge ::
    "crates \<Rightarrow> withdraw_bridge \<Rightarrow> bridge_state \<Rightarrow> bridge_error + bridge_state" where
  "handle_withdraw_bridge cr msg s =
     rbind (parse_contract_address cr
              (bridge_contract_address (unwrap_or (config s) default_bridge_config))) (\<lambda>contract.
       let deposit = withdraw_deposit_id msg;
           deposit_key = make_deposit_key_str cr contract deposit
       in rbind (ensure (is_processed s deposit_key) (NotClaimed deposit)) (\<lambda>_.
          rbind (ensure (\<not> is_processed s (withdrawal_key deposit)) (AlreadyWithdrawn deposit)) (\<lambda>_.
            let amt = unwrap_or (claimed_amounts s deposit) 0
            in rbind (ensure (amt \<noteq> 0) (NoClaimedAmount deposit)) (\<lambda>_.
               let withdrawal_id = unwrap_or (next_withdrawal_id s) 0;
                   r = \<lparr>wr_withdrawal_id = withdrawal_id, wr_deposit_id = deposit,
                        wr_eth_recipient = withdraw_eth_recipient msg, wr_amount = amt, wr_relayed = False\<rparr>;
                   prev_withdrawn = unwrap_or (total_withdrawn_usdc s) 0
               in Inr (s\<lparr>next_withdrawal_id := Some (withdrawal_id + 1),
                         processed_deposits := (processed_deposits s)(withdrawal_key deposit \<mapsto> True),
                         withdrawals := (withdrawals s)(withdrawal_id \<mapsto> r),
                         total_withdrawn_usdc := Some (prev_withdrawn + amt),
                         bridge_events := bridge_events s @
                           [WithdrawalInitiated withdrawal_id deposit (withdraw_eth_recipient msg) amt]\<rparr>)))))"

definition helios_checks ::
    "'p helios_build \<Rightarrow> update_helios_head \<Rightarrow> bridge_state \<Rightarrow> bridge_error + unit" where
  "helios_checks build update s =
     (let i = helios_inputs update;
          current_root = unwrap_or (trusted_beacon_root s) 0;
          current_slot = unwrap_or (trusted_slot s) 0;
          cfg = unwrap_or (helios_cfg s) default_helios_config;
          gap = saturating_sub64 (new_slot i) current_slot
      in rbind (ensure (prev_trusted_root i = current_root) ChainLinkMismatch) (\<lambda>_.
         rbind (ensure (\<not> new_slot i \<le> current_slot) SlotNotAdvancing) (\<lambda>_.
         rbind (ensure (\<not> (current_slot > 0 \<and> gap > max_slot_gap cfg)) (SlotGapExceeded gap)) (\<lambda>_.
         map_err HeliosProofError (verify_helios_proof build (helios_proof update) i)))))"

definition handle_update_helios_head ::
    "crates \<Rightarrow> 'p helios_build \<Rightarrow> update_helios_head \<Rightarrow> bridge_state \<Rightarrow> bridge_error + bridge_state" where
  "handle_update_helios_head cr build update s =
     (let i = helios_inputs update
      in rbind (helios_checks build update s) (\<lambda>_.
         let count = unwrap_or (helios_update_count s) 0
         in Inr (s\<lparr>trusted_beacon_root := Some (new_beacon_root i),
                   trusted_slot := Some (new_slot i),
                   finalized_eth_blocks :=
                     (finalized_eth_blocks s)(block_key cr (execution_block_hash i) \<mapsto> new_slot i),
                   helios_update_count := Some (count + 1),
                   bridge_events := bridge_events s @
                     [HeliosHeadUpdated (prev_trusted_root i) (new_beacon_root i) (new_slot i)
                        (execution_block_hash i)]\<rparr>)))"

text \<open>\<open>update_config\<close> is not reachable through a call message.\<close>

definition update_config :: "bytes \<Rightarrow> bridge_config \<Rightarrow> bridge_state \<Rightarrow> bridge_error + bridge_state" where
  "update_config caller new_config s =
     (let current = unwrap_or (config s) default_bridge_config
      in if admin current \<noteq> [] \<and> caller \<noteq> admin current then Inl NotAdmin
         else Inr (s\<lparr>config := Some new_config, bridge_events := bridge_events s @ [ConfigUpdated]\<rparr>))"

fun bridge_call ::
    "crates \<Rightarrow> build_features \<Rightarrow> 'p helios_build \<Rightarrow> bridge_call_message \<Rightarrow> bridge_state \<Rightarrow>
     bridge_error + bridge_state" where
  "bridge_call cr build hb (ClaimDeposit claim) s = handle_claim_deposit cr build claim s"
| "bridge_call cr build hb (WithdrawBridge w) s = handle_withdraw_bridge cr w s"
| "bridge_call cr build hb (UpdateHeliosHead u) s = handle_update_helios_head cr hb u s"

end
