(* ===== verification/Pool_Tree.thy ===== *)
theory Pool_Tree
  imports Pool
begin

text \<open>
  The tree part of the pool state against its abstract specification, the list of appended
  commitments: \<open>insert_commitment\<close> keeps the root, the leaf counter, the filled subtrees and the
  ring buffer of roots consistent with that list, and \<open>is_known_root\<close> accepts exactly the roots
  after the last 100 insertions.
\<close>

section \<open>Representation invariant\<close>

abbreviation leaves :: "pool_state \<Rightarrow> bytes32 list" where
  "leaves s \<equiv> map commitment_bytes (commitments s)"

definition filled_at :: "hash32 \<Rightarrow> pool_state \<Rightarrow> nat \<Rightarrow> bytes32" where
  "filled_at sha s level = unwrap_or (merkle_filled_subtrees s (of_nat level)) (zero_value sha level)"

definition root_after :: "hash32 \<Rightarrow> commitment list \<Rightarrow> nat \<Rightarrow> bytes32" where
  "root_after sha cs j = tree_root sha (map commitment_bytes (take (Suc j) cs))"

definition recent :: "nat \<Rightarrow> nat \<Rightarrow> bool" where
  "recent n j \<longleftrightarrow> j < n \<and> n \<le> j + 100"

definition ring_ok :: "hash32 \<Rightarrow> (u64 \<rightharpoonup> bytes32) \<Rightarrow> commitment list \<Rightarrow> bool" where
  "ring_ok sha ring cs \<longleftrightarrow>
     (\<forall>j. recent (length cs) j \<longrightarrow> ring (of_nat (j mod 100)) = Some (root_after sha cs j))"

definition pool_inv :: "hash32 \<Rightarrow> pool_state \<Rightarrow> bool" where
  "pool_inv sha s \<longleftrightarrow>
     length (commitments s) \<le> 2 ^ TREE_DEPTH \<and>
     merkle_next_index s = Some (of_nat (length (commitments s))) \<and>
     merkle_roots_count s = Some (of_nat (length (commitments s))) \<and>
     merkle_root s = Some (tree_root sha (leaves s)) \<and>
     filled_ok sha (filled_at sha s) (leaves s) \<and>
     ring_ok sha (merkle_roots s) (commitments s)"

section \<open>Genesis\<close>

lemma fold_level_updates:
  assumes "k < 2 ^ 32" "\<forall>l \<in> set ls. l < 2 ^ 32"
  shows "fold (\<lambda>(level, val) m. m(word_of_nat level \<mapsto> val)) (map (\<lambda>l. (l, g l)) ls) m (word_of_nat k :: u32) =
    (if k \<in> set ls then Some (g k) else m (word_of_nat k))"
  using assms(2)
proof (induction ls arbitrary: m)
  case (Cons l ls)
  have "(word_of_nat k :: u32) = word_of_nat l \<longleftrightarrow> k = l"
    using assms(1) Cons.prems by (simp add: word_of_nat_eq_iff take_bit_nat_eq_self)
  with Cons show ?case by auto
qed simp

lemma pool_genesis_inv: "pool_inv sha (pool_genesis sha empty_pool_state)"
  by (simp add: pool_inv_def pool_genesis_def empty_pool_state_def empty_root_tree_root ring_ok_def recent_def)

section \<open>Inserting a commitment\<close>

lemma filled_ok_cong:
  "(\<And>l. l < TREE_DEPTH \<Longrightarrow> f l = g l) \<Longrightarrow> filled_ok sha f xs \<longleftrightarrow> filled_ok sha g xs"
  by (simp add: filled_ok_def)

lemma filled_cache_nth: "l < TREE_DEPTH \<Longrightarrow> filled_cache sha s ! l = filled_at sha s l"
  by (simp add: filled_cache_def filled_at_def)

lemma slot_of_nat:
  "n < 2 ^ 64 \<Longrightarrow> (word_of_nat n :: u64) mod ROOTS_HISTORY_SIZE = word_of_nat (n mod 100)"
  by (simp add: word_unat_eq_iff unat_mod ROOTS_HISTORY_SIZE_def unat_of_nat take_bit_nat_eq_self
    flip: take_bit_eq_mod)

lemma word_of_nat_slot_eq: "(word_of_nat (i mod 100) :: u64) = word_of_nat (j mod 100) \<longleftrightarrow> i mod 100 = j mod 100"
proof -
  have "k mod 100 < 2 ^ 64" for k :: nat using mod_less_divisor [of 100 k] by simp
  then show ?thesis by (simp add: word_of_nat_eq_iff take_bit_nat_eq_self)
qed

lemma ring_ok_snoc:
  assumes "ring_ok sha ring cs" "new_root = tree_root sha (map commitment_bytes (cs @ [c]))"
  shows "ring_ok sha (ring(word_of_nat (length cs mod 100) \<mapsto> new_root)) (cs @ [c])"
  unfolding ring_ok_def
proof (intro allI impI)
  fix j assume j: "recent (length (cs @ [c])) j"
  show "(ring(word_of_nat (length cs mod 100) \<mapsto> new_root)) (word_of_nat (j mod 100)) =
      Some (root_after sha (cs @ [c]) j)"
  proof (cases "j = length cs")
    case True
    with assms(2) show ?thesis by (simp add: root_after_def)
  next
    case False
    with j have "recent (length cs) j" by (simp add: recent_def)
    moreover from this False j have "j mod 100 \<noteq> length cs mod 100"
      by (auto simp: recent_def mod_eq_dvd_iff_nat [of j "length cs"] dest!: sym [of "j mod 100"] dvd_imp_le)
    ultimately show ?thesis
      using assms(1) by (simp add: ring_ok_def root_after_def word_of_nat_slot_eq recent_def)
  qed
qed

lemma next_index_unat:
  "pool_inv sha s \<Longrightarrow> unat (unwrap_or (merkle_next_index s) 0) = length (commitments s)"
  by (simp add: pool_inv_def TREE_DEPTH_def unat_of_nat take_bit_nat_eq_self flip: take_bit_eq_mod)

lemma tree_full_iff:
  "pool_inv sha s \<Longrightarrow>
   unwrap_or (merkle_next_index s) 0 \<ge> push_bit TREE_DEPTH 1 \<longleftrightarrow> \<not> length (commitments s) < 2 ^ TREE_DEPTH"
  by (simp only: word_le_nat_alt next_index_unat) (auto simp: TREE_DEPTH_def)

lemma append_commitment_ok:
  assumes inv: "pool_inv sha s" and room: "length (commitments s) < 2 ^ TREE_DEPTH"
  shows "\<exists>s'. append_commitment sha c s = Inr s' \<and> pool_inv sha s' \<and> commitments s' = commitments s @ [c]"
proof -
  let ?n = "length (commitments s)" and ?x = "commitment_bytes c"
  let ?s = "s\<lparr>commitments := commitments s @ [c]\<rparr>"
  let ?ups = "map (\<lambda>k. (k, pool_node sha (leaves s @ [?x]) k (?n div 2 ^ k)))
    (filter (\<lambda>k. even (?n div 2 ^ k)) [0..<TREE_DEPTH])"
  have next_eq: "merkle_next_index s = Some (of_nat ?n)" "merkle_roots_count s = Some (of_nat ?n)"
    using inv by (simp_all add: pool_inv_def)
  have small: "?n < 2 ^ 64" using room by (simp add: TREE_DEPTH_def)
  have "filled_ok sha (\<lambda>l. filled_cache sha ?s ! l) (leaves s)"
    using inv filled_ok_cong [of "\<lambda>l. filled_cache sha ?s ! l" "filled_at sha s" sha "leaves s"]
    by (simp add: filled_cache_nth pool_inv_def) (simp add: filled_at_def)
  then have ci: "compute_insert sha ?x (of_nat ?n) (\<lambda>l. filled_cache sha ?s ! l) =
      (tree_root sha (leaves s @ [?x]), ?ups)"
    using compute_insert_spec [of sha "\<lambda>l. filled_cache sha ?s ! l" "leaves s" "of_nat ?n" ?x] room small
    by (simp add: unat_of_nat take_bit_nat_eq_self flip: take_bit_eq_mod)
  let ?s' = "?s\<lparr>merkle_filled_subtrees :=
      fold (\<lambda>(level, val) m. m(of_nat level \<mapsto> val)) ?ups (merkle_filled_subtrees s),
      merkle_root := Some (tree_root sha (leaves s @ [?x])),
      merkle_roots := (merkle_roots s)(of_nat (?n mod 100) \<mapsto> tree_root sha (leaves s @ [?x])),
      merkle_roots_count := Some (of_nat ?n + 1),
      merkle_next_index := Some (of_nat ?n + 1)\<rparr>"
  have full: "\<not> push_bit TREE_DEPTH 1 \<le> (of_nat ?n :: u64)"
    using tree_full_iff [OF inv] room next_eq by simp
  have "append_commitment sha c s = Inr ?s'"
    using full ci slot_of_nat [OF small] next_eq
    by (simp add: append_commitment_def insert_commitment_def Let_def)
  moreover have "filled_ok sha (filled_at sha ?s') (leaves s @ [?x])"
  proof (rule filled_ok_snoc [where filled = "filled_at sha s"])
    show "filled_ok sha (filled_at sha s) (leaves s)" using inv by (simp add: pool_inv_def)
    fix l assume l: "l < TREE_DEPTH"
    have "fold (\<lambda>(level, val) m. m(of_nat level \<mapsto> val)) ?ups (merkle_filled_subtrees s) (of_nat l) =
        (if even (?n div 2 ^ l) then Some (pool_node sha (leaves s @ [?x]) l (?n div 2 ^ l))
         else merkle_filled_subtrees s (of_nat l))"
      using l by (subst fold_level_updates) (auto simp: TREE_DEPTH_def)
    then show "filled_at sha ?s' l = (if even (length (leaves s) div 2 ^ l)
        then pool_node sha (leaves s @ [?x]) l (length (leaves s) div 2 ^ l) else filled_at sha s l)"
      by (simp add: filled_at_def)
  qed
  moreover have "ring_ok sha (merkle_roots ?s') (commitments s @ [c])"
    using ring_ok_snoc [of sha "merkle_roots s" "commitments s" _ c] inv by (simp add: pool_inv_def)
  ultimately show ?thesis
    using room by (simp add: pool_inv_def)
qed

interpretation tree_log: commitment_log
  "append_commitment sha" commitments "pool_inv sha" "2 ^ TREE_DEPTH" for sha
proof unfold_locales
  fix s :: pool_state and s' c
  assume inv: "pool_inv sha s"
  show "\<exists>s'. append_commitment sha c s = Inr s'" if "length (commitments s) < 2 ^ TREE_DEPTH"
    using append_commitment_ok [OF inv that] by blast
  show full: "\<exists>e. append_commitment sha c s = Inl e" if "\<not> length (commitments s) < 2 ^ TREE_DEPTH"
    using tree_full_iff [OF inv] that by (simp add: append_commitment_def insert_commitment_def)
  assume app: "append_commitment sha c s = Inr s'"
  with full have "length (commitments s) < 2 ^ TREE_DEPTH" by fastforce
  from append_commitment_ok [OF inv this, of c] app
  show "commitments s' = commitments s @ [c]" "pool_inv sha s'" by auto
qed

section \<open>Known roots\<close>

lemma recent_slot:
  assumes "i < min n 100"
  obtains j where "recent n j" "j mod 100 = i"
proof -
  let ?j = "i + 100 * ((n - 1 - i) div 100)"
  have "100 * ((n - 1 - i) div 100) \<le> n - 1 - i" "n - 1 - i < 100 + 100 * ((n - 1 - i) div 100)"
    using dividend_less_times_div [of 100 "n - 1 - i"] by simp_all
  with assms have "recent n ?j" unfolding recent_def by linarith
  with assms that [of ?j] show thesis by simp
qed

lemma is_known_root_iff:
  assumes "pool_inv sha s"
  shows "is_known_root r s \<longleftrightarrow>
    (\<exists>j. recent (length (commitments s)) j \<and> r = root_after sha (commitments s) j)"
proof -
  let ?n = "length (commitments s)"
  have small: "?n < 2 ^ 64" and count: "merkle_roots_count s = Some (of_nat ?n)"
    and ring: "\<And>j. recent ?n j \<Longrightarrow> merkle_roots s (of_nat (j mod 100)) = Some (root_after sha (commitments s) j)"
    using assms by (auto simp: pool_inv_def TREE_DEPTH_def ring_ok_def)
  have unat_n: "unat (of_nat ?n :: u64) = ?n"
    using small by (simp add: unat_of_nat take_bit_nat_eq_self flip: take_bit_eq_mod)
  have bound: "unat (min (of_nat ?n) ROOTS_HISTORY_SIZE :: u64) = min ?n 100"
    unfolding min_def word_le_nat_alt unat_n by (auto simp: ROOTS_HISTORY_SIZE_def unat_n)
  have zero: "(of_nat ?n :: u64) = 0 \<longleftrightarrow> ?n = 0"
    by (subst unat_eq_0 [symmetric]) (simp only: unat_n)
  have slot: "(of_nat i :: u64) mod ROOTS_HISTORY_SIZE = of_nat i" if "i < 100" for i
    using slot_of_nat [of i] that by simp
  have "is_known_root r s \<longleftrightarrow> ?n \<noteq> 0 \<and> (\<exists>i \<in> {0..<min ?n 100}.
      case merkle_roots s (of_nat i mod ROOTS_HISTORY_SIZE) of Some r' \<Rightarrow> r' = r | None \<Rightarrow> False)"
    by (simp only: is_known_root_def count unwrap_or_simps Let_def zero bound list_ex_iff set_upt) simp
  also have "\<dots> \<longleftrightarrow> (\<exists>i < min ?n 100. merkle_roots s (of_nat i) = Some r)"
    using slot by (fastforce split: option.splits)
  also have "\<dots> \<longleftrightarrow> (\<exists>j. recent ?n j \<and> r = root_after sha (commitments s) j)"
  proof
    assume "\<exists>i < min ?n 100. merkle_roots s (of_nat i) = Some r"
    then obtain i where i: "i < min ?n 100" "merkle_roots s (of_nat i) = Some r" by blast
    from recent_slot [OF i(1)] obtain j where "recent ?n j" "j mod 100 = i" .
    with i ring [of j] show "\<exists>j. recent ?n j \<and> r = root_after sha (commitments s) j" by auto
  next
    assume "\<exists>j. recent ?n j \<and> r = root_after sha (commitments s) j"
    then obtain j where j: "recent ?n j" "r = root_after sha (commitments s) j" by blast
    then have "j mod 100 < min ?n 100"
      using mod_less_eq_dividend [of j 100] mod_less_divisor [of 100 j] unfolding recent_def by linarith
    with j ring show "\<exists>i < min ?n 100. merkle_roots s (of_nat i) = Some r" by blast
  qed
  finally show ?thesis .
qed

lemma known_root_nonempty: "pool_inv sha s \<Longrightarrow> is_known_root r s \<Longrightarrow> commitments s \<noteq> []"
  by (auto simp: is_known_root_iff recent_def)

end
