(* ===== verification/Pool_Ledger.thy ===== *)
theory Pool_Ledger
  imports Pool_Tree
begin

text \<open>
  What the pool's handlers guarantee over whole message sequences: the invariant of the tree, the
  nullifier discipline, the conditions under which a transfer is accepted, and the accounting of
  the shielded supply. A transaction is a message with the wall-clock time at its execution and
  the address of its sender.
\<close>

section \<open>Transactions\<close>

type_synonym pool_tx = "u64 \<times> bytes \<times> call_message"

fun pool_step :: "crates \<Rightarrow> zk_backend \<Rightarrow> pool_tx \<Rightarrow> pool_state \<Rightarrow> pool_error + pool_state" where
  "pool_step cr b (now_secs, sender, msg) s = pool_call cr b now_secs sender msg s"

fun msg_nullifiers :: "call_message \<Rightarrow> nullifier set" where
  "msg_nullifiers (Transfer msg) = set (transfer_nullifiers msg)"
| "msg_nullifiers (Unshield msg) = {unshield_nullifier msg}"
| "msg_nullifiers _ = {}"

definition tx_nullifiers :: "pool_tx \<Rightarrow> nullifier set" where
  "tx_nullifiers t = msg_nullifiers (snd (snd t))"

definition spent_set :: "pool_state \<Rightarrow> nullifier set" where
  "spent_set s = {n. is_spent s n}"

fun msg_outputs :: "hash32 \<Rightarrow> call_message \<Rightarrow> commitment list" where
  "msg_outputs sha (Shield msg) = [Commitment (sha (note_preimage (shield_note msg)))]"
| "msg_outputs sha (Transfer msg) = output_commitments msg"
| "msg_outputs sha _ = []"

section \<open>Frame conditions\<close>

text \<open>The part of the state that appending commitments does not touch.\<close>

definition same_ledger :: "pool_state \<Rightarrow> pool_state \<Rightarrow> bool" where
  "same_ledger s t \<longleftrightarrow>
     nullifiers t = nullifiers s \<and> shielded_supply t = shielded_supply s \<and>
     compliance_tx_count t = compliance_tx_count s \<and>
     compliance_total_volume t = compliance_total_volume s \<and>
     sanctions_root t = sanctions_root s \<and> sanctions_oracle t = sanctions_oracle s \<and>
     pool_events t = pool_events s"

lemma same_ledger_refl [simp]: "same_ledger s s"
  by (simp add: same_ledger_def)

lemma same_ledger_trans: "same_ledger s t \<Longrightarrow> same_ledger t u \<Longrightarrow> same_ledger s u"
  by (simp add: same_ledger_def)

lemma append_commitment_frame:
  "append_commitment sha c s = Inr s' \<Longrightarrow> same_ledger s s' \<and> encrypted_notes s' = encrypted_notes s"
  by (auto simp: append_commitment_def insert_commitment_def same_ledger_def Let_def
      split: if_splits prod.splits)

lemma store_encrypted_tree [simp]:
  "commitments (store_encrypted cr c enc s) = commitments s"
  "pool_inv sha (store_encrypted cr c enc s) \<longleftrightarrow> pool_inv sha s"
  by (simp_all add: store_encrypted_def pool_inv_def filled_at_def [abs_def])

lemma store_encrypted_frame [simp]: "same_ledger s (store_encrypted cr c enc s)"
  by (simp add: store_encrypted_def same_ledger_def)

lemma mark_spent_tree [simp]:
  "commitments (mark_spent ns s) = commitments s"
  "pool_inv sha (mark_spent ns s) \<longleftrightarrow> pool_inv sha s"
  by (simp_all add: mark_spent_def pool_inv_def filled_at_def [abs_def])

lemma add_outputs_alt:
  "add_outputs cr msg =
     rfold (\<lambda>x s. rbind (append_commitment (sha256 cr) (snd x) s) (\<lambda>t.
              Inr (if fst x < length (encrypted_outputs msg)
                   then store_encrypted cr (snd x) (encrypted_outputs msg ! fst x) t else t)))
       (List.enumerate 0 (output_commitments msg))"
  by (simp only: add_outputs_def split_def)

lemma add_outputs_frame: "add_outputs cr msg s = Inr t \<Longrightarrow> same_ledger s t"
  unfolding add_outputs_alt
  by (erule rfold_invariant)
    (auto split: if_splits dest!: append_commitment_frame
      intro: same_ledger_trans same_ledger_trans [OF _ store_encrypted_frame])

lemma add_outputs_log:
  "pool_inv (sha256 cr) s \<Longrightarrow> add_outputs cr msg s = Inr t \<Longrightarrow>
   commitments t = commitments s @ output_commitments msg \<and> pool_inv (sha256 cr) t"
  unfolding add_outputs_alt
  by (drule tree_log.rfold_add) simp_all

lemma add_outputs_ok_iff:
  "pool_inv (sha256 cr) s \<Longrightarrow> (\<exists>t. add_outputs cr msg s = Inr t) \<longleftrightarrow>
   output_commitments msg = [] \<or> length (commitments s) + length (output_commitments msg) \<le> 2 ^ TREE_DEPTH"
  unfolding add_outputs_alt
  by (subst tree_log.rfold_add_ok_iff) (auto simp flip: length_0_conv)

section \<open>Acceptance\<close>

lemma transfer_checks_Inr_iff:
  "transfer_checks b now_secs msg s = Inr () \<longleftrightarrow>
     (merkle_root_input (transfer_inputs msg) = 0 \<or> is_known_root (merkle_root_input (transfer_inputs msg)) s) \<and>
     verify_transfer_proof b (transfer_proof msg) (transfer_inputs msg) = Inr () \<and>
     (unwrap_or (sanctions_root s) 0 = 0 \<or>
      sanctions_root_input (sanctions_inputs msg) = unwrap_or (sanctions_root s) 0) \<and>
     (proof_timestamp (sanctions_inputs msg) = 0 \<or>
      unat now_secs \<le> unat (proof_timestamp (sanctions_inputs msg)) + 86400) \<and>
     verify_sanctions_proof b (sanctions_proof msg) (sanctions_inputs msg) = Inr () \<and>
     set (transfer_nullifiers msg) \<inter> spent_set s = {}"
proof -
  have fresh: "check_freshness now_secs msg = Inr () \<longleftrightarrow>
      proof_timestamp (sanctions_inputs msg) = 0 \<or>
      unat now_secs \<le> unat (proof_timestamp (sanctions_inputs msg)) + 86400"
    by (auto simp: check_freshness_def Let_def SANCTIONS_PROOF_MAX_AGE_SECS_def word_less_nat_alt
        unat_saturating_sub64 word_neq_0_conv [symmetric] unat_eq_0 [symmetric])
  have root: "check_sanctions_root msg s = Inr () \<longleftrightarrow> unwrap_or (sanctions_root s) 0 = 0 \<or>
      sanctions_root_input (sanctions_inputs msg) = unwrap_or (sanctions_root s) 0"
    by (auto simp: check_sanctions_root_def Let_def)
  have unspent: "check_unspent msg s = Inr () \<longleftrightarrow> set (transfer_nullifiers msg) \<inter> spent_set s = {}"
  proof -
    have "check_unspent msg s = Inr () \<longleftrightarrow> find (is_spent s) (transfer_nullifiers msg) = None"
      by (simp add: check_unspent_def split: option.split)
    then show ?thesis by (auto simp: find_None_iff spent_set_def)
  qed
  show ?thesis
    by (simp add: transfer_checks_def Let_def fresh root unspent)
qed

lemma transfer_ok_iff:
  assumes "pool_inv (sha256 cr) s"
  shows "is_ok (handle_transfer cr b now_secs msg s) \<longleftrightarrow>
    transfer_checks b now_secs msg s = Inr () \<and>
    (output_commitments msg = [] \<or>
     length (commitments s) + length (output_commitments msg) \<le> 2 ^ TREE_DEPTH)"
proof -
  have "is_ok (handle_transfer cr b now_secs msg s) \<longleftrightarrow> transfer_checks b now_secs msg s = Inr () \<and>
      (\<exists>t. add_outputs cr msg (mark_spent (transfer_nullifiers msg) s) = Inr t)"
    by (auto simp: is_ok_iff handle_transfer_def Let_def)
  with add_outputs_ok_iff [of cr "mark_spent (transfer_nullifiers msg) s" msg] assms show ?thesis
    by simp
qed

section \<open>Nullifiers\<close>

lemma fold_mark: "fold (\<lambda>n m. m(n \<mapsto> True)) ns m n = (if n \<in> set ns then Some True else m n)"
  by (induction ns arbitrary: m) auto

lemma spent_set_mark_spent: "spent_set (mark_spent ns s) = spent_set s \<union> set ns"
  by (auto simp: spent_set_def is_spent_def mark_spent_def fold_mark)

lemma spent_set_same_ledger: "same_ledger s t \<Longrightarrow> spent_set t = spent_set s"
  by (simp add: same_ledger_def spent_set_def is_spent_def)

lemma handle_transfer_frame:
  assumes "handle_transfer cr b now_secs msg s = Inr s'"
  obtains t where "transfer_checks b now_secs msg s = Inr ()"
    "add_outputs cr msg (mark_spent (transfer_nullifiers msg) s) = Inr t"
    "same_ledger (mark_spent (transfer_nullifiers msg) s) t"
    "s' = t\<lparr>compliance_tx_count := Some (unwrap_or (compliance_tx_count t) 0 + 1),
            compliance_total_volume := Some (unwrap_or (compliance_total_volume t) 0 +
              transfer_amount (transfer_inputs msg)),
            pool_events := pool_events t @ [PrivateTransfer (of_nat (length (transfer_nullifiers msg)))
              (of_nat (length (output_commitments msg)))]\<rparr>"
  using assms by (auto simp: handle_transfer_def Let_def dest: add_outputs_frame)

lemma handle_shield_frame:
  assumes "handle_shield cr msg s = Inr s'"
  obtains c t where "commitment_from_note (sha256 cr) (shield_note msg) = Inr c"
    "append_commitment (sha256 cr) c s = Inr t"
    "same_ledger s t"
    "s' = (store_encrypted cr c (encrypted_note msg) t)
        \<lparr>shielded_supply := (shielded_supply s)(note_asset (shield_note msg) \<mapsto>
           unwrap_or (shielded_supply s (note_asset (shield_note msg))) 0 + note_amount (shield_note msg)),
         pool_events := pool_events s @ [Shielded (commitment_bytes c)]\<rparr>"
proof -
  from assms obtain c t where ct: "commitment_from_note (sha256 cr) (shield_note msg) = Inr c"
    "append_commitment (sha256 cr) c s = Inr t" by (auto simp: handle_shield_def)
  then have "same_ledger s t" by (simp add: append_commitment_frame)
  with store_encrypted_frame [of t cr c "encrypted_note msg"]
  have "same_ledger s (store_encrypted cr c (encrypted_note msg) t)" by (blast intro: same_ledger_trans)
  with that [OF ct \<open>same_ledger s t\<close>] assms ct show thesis
    by (simp add: handle_shield_def Let_def same_ledger_def)
qed

lemma handle_unshield_frame:
  assumes "handle_unshield b msg s = Inr s'"
  shows "verify_unshield_proof b (unshield_proof msg) (unshield_inputs msg) = Inr ()"
    and "\<not> is_spent s (unshield_nullifier msg)"
    and "s' = s\<lparr>nullifiers := (nullifiers s)(unshield_nullifier msg \<mapsto> True),
           shielded_supply := (shielded_supply s)(unshield_asset (unshield_inputs msg) \<mapsto>
             saturating_sub64 (unwrap_or (shielded_supply s (unshield_asset (unshield_inputs msg))) 0)
               (unshield_amount (unshield_inputs msg))),
           pool_events := pool_events s @ [Unshielded (nullifier_bytes (unshield_nullifier msg))
             (unshield_amount (unshield_inputs msg))]\<rparr>"
  using assms by (auto simp: handle_unshield_def Let_def split: if_splits)

lemma handle_update_frame:
  assumes "handle_update_sanctions_root sender msg s = Inr s'"
  shows "s' = s\<lparr>sanctions_root := Some (new_sanctions_root msg),
           pool_events := pool_events s @ [SanctionsRootUpdated (new_sanctions_root msg)]\<rparr>"
  using assms by (auto simp: handle_update_sanctions_root_def Let_def split: if_splits)

lemma spent_set_pool_call:
  assumes "pool_call cr b now_secs sender msg s = Inr s'"
  shows "msg_nullifiers msg \<inter> spent_set s = {} \<and> spent_set s' = spent_set s \<union> msg_nullifiers msg"
proof (cases msg)
  case (Shield m)
  with assms obtain t where "same_ledger s t" "nullifiers s' = nullifiers t"
    by (auto elim!: handle_shield_frame simp: store_encrypted_def)
  then have "spent_set s' = spent_set s" by (simp add: spent_set_def is_spent_def same_ledger_def)
  with Shield show ?thesis by simp
next
  case (Transfer m)
  with assms have "handle_transfer cr b now_secs m s = Inr s'" by simp
  then obtain t where "transfer_checks b now_secs m s = Inr ()"
    "same_ledger (mark_spent (transfer_nullifiers m) s) t" "nullifiers s' = nullifiers t"
    by (elim handle_transfer_frame) simp
  moreover from this have "spent_set s' = spent_set (mark_spent (transfer_nullifiers m) s)"
    by (simp add: spent_set_def is_spent_def same_ledger_def)
  ultimately show ?thesis
    using Transfer by (simp add: transfer_checks_Inr_iff spent_set_mark_spent)
next
  case (Unshield m)
  with assms handle_unshield_frame [of b m s s'] show ?thesis
    by (auto simp: spent_set_def is_spent_def)
next
  case (UpdateSanctionsRoot m)
  with assms handle_update_frame [of sender m s s'] show ?thesis
    by (simp add: spent_set_def is_spent_def)
qed

interpretation nullifier_guard: replay_guard "pool_step cr b" tx_nullifiers spent_set for cr b
proof unfold_locales
  fix tx :: pool_tx and s s'
  assume "pool_step cr b tx s = Inr s'"
  then have "msg_nullifiers (snd (snd tx)) \<inter> spent_set s = {} \<and>
      spent_set s' = spent_set s \<union> msg_nullifiers (snd (snd tx))"
    by (cases tx) (auto dest: spent_set_pool_call)
  then show "tx_nullifiers tx \<inter> spent_set s = {}" "spent_set s' = spent_set s \<union> tx_nullifiers tx"
    by (simp_all add: tx_nullifiers_def)
qed

section \<open>The tree invariant over runs\<close>

lemma pool_call_log:
  assumes "pool_call cr b now_secs sender msg s = Inr s'" "pool_inv (sha256 cr) s"
  shows "commitments s' = commitments s @ msg_outputs (sha256 cr) msg \<and> pool_inv (sha256 cr) s'"
proof (cases msg)
  case (Shield m)
  with assms obtain c t where ct: "commitment_from_note (sha256 cr) (shield_note m) = Inr c"
    "append_commitment (sha256 cr) c s = Inr t"
    "commitments s' = commitments t" "pool_inv (sha256 cr) s' = pool_inv (sha256 cr) t"
    by (auto elim!: handle_shield_frame simp: pool_inv_def filled_at_def [abs_def] store_encrypted_def)
  with tree_log.add_entries [OF assms(2) ct(2)] tree_log.add_inv [OF assms(2) ct(2)] Shield
  show ?thesis by (simp add: commitment_from_note_Inr_iff)
next
  case (Transfer m)
  with assms have "handle_transfer cr b now_secs m s = Inr s'" by simp
  then obtain t where t: "add_outputs cr m (mark_spent (transfer_nullifiers m) s) = Inr t"
    "commitments s' = commitments t" "pool_inv (sha256 cr) s' = pool_inv (sha256 cr) t"
    by (elim handle_transfer_frame) (simp add: pool_inv_def filled_at_def [abs_def])
  with add_outputs_log [OF _ t(1)] assms(2) Transfer show ?thesis by simp
next
  case (Unshield m)
  with assms handle_unshield_frame [of b m s s'] show ?thesis
    by (simp add: pool_inv_def filled_at_def [abs_def])
next
  case (UpdateSanctionsRoot m)
  with assms handle_update_frame [of sender m s s'] show ?thesis
    by (simp add: pool_inv_def filled_at_def [abs_def])
qed

lemma pool_run_log:
  assumes "pool_inv (sha256 cr) s"
  shows "commitments (run (pool_step cr b) txs s) =
      commitments s @ concat (map (\<lambda>tx. msg_outputs (sha256 cr) (snd (snd tx))) (accepted (pool_step cr b) txs s))
    \<and> pool_inv (sha256 cr) (run (pool_step cr b) txs s)"
  using assms
proof (induction txs arbitrary: s)
  case (Cons tx txs)
  obtain now_secs sender msg where tx: "tx = (now_secs, sender, msg)" by (cases tx) auto
  show ?case
  proof (cases "pool_step cr b tx s")
    case (Inl e)
    with Cons show ?thesis by simp
  next
    case (Inr s')
    then have "commitments s' = commitments s @ msg_outputs (sha256 cr) msg" "pool_inv (sha256 cr) s'"
      using pool_call_log [of cr b now_secs sender msg s s'] Cons.prems tx by simp_all
    with Cons.IH [of s'] Inr tx show ?thesis by simp
  qed
qed simp

section \<open>Accounting\<close>

definition supply_of :: "pool_state \<Rightarrow> asset_id \<Rightarrow> nat" where
  "supply_of s a = unat (unwrap_or (shielded_supply s a) 0)"

fun msg_deposit :: "asset_id \<Rightarrow> call_message \<Rightarrow> nat" where
  "msg_deposit a (Shield m) = (if note_asset (shield_note m) = a then unat (note_amount (shield_note m)) else 0)"
| "msg_deposit a _ = 0"

fun msg_withdrawal :: "asset_id \<Rightarrow> call_message \<Rightarrow> nat" where
  "msg_withdrawal a (Unshield m) =
     (if unshield_asset (unshield_inputs m) = a then unat (unshield_amount (unshield_inputs m)) else 0)"
| "msg_withdrawal a _ = 0"

definition total_of :: "(call_message \<Rightarrow> nat) \<Rightarrow> pool_tx list \<Rightarrow> nat" where
  "total_of f txs = sum_list (map (\<lambda>tx. f (snd (snd tx))) txs)"

lemma supply_pool_call:
  assumes "pool_call cr b now_secs sender msg s = Inr s'" "supply_of s a + msg_deposit a msg < 2 ^ 64"
  shows "supply_of s' a = supply_of s a + msg_deposit a msg - msg_withdrawal a msg"
proof (cases msg)
  case (Shield m)
  with assms obtain c t where "same_ledger s t"
    and sup: "shielded_supply s' = (shielded_supply s)(note_asset (shield_note m) \<mapsto>
       unwrap_or (shielded_supply s (note_asset (shield_note m))) 0 + note_amount (shield_note m))"
    by (auto elim!: handle_shield_frame)
  show ?thesis
  proof (cases "note_asset (shield_note m) = a")
    case True
    with assms(2) Shield have "unat (unwrap_or (shielded_supply s a) 0) + unat (note_amount (shield_note m)) < 2 ^ LENGTH(64)"
      by (simp add: supply_of_def)
    then have "unat (unwrap_or (shielded_supply s a) 0 + note_amount (shield_note m)) =
        unat (unwrap_or (shielded_supply s a) 0) + unat (note_amount (shield_note m))"
      by (rule unat_add_lem [THEN iffD1])
    with True Shield sup show ?thesis by (simp add: supply_of_def)
  qed (use Shield sup in \<open>simp add: supply_of_def\<close>)
next
  case (Transfer m)
  with assms have "handle_transfer cr b now_secs m s = Inr s'" by simp
  then obtain t where "same_ledger (mark_spent (transfer_nullifiers m) s) t" "shielded_supply s' = shielded_supply t"
    by (elim handle_transfer_frame) simp
  with Transfer show ?thesis by (simp add: supply_of_def same_ledger_def mark_spent_def)
next
  case (Unshield m)
  with assms handle_unshield_frame [of b m s s'] show ?thesis
    by (simp add: supply_of_def unat_saturating_sub64)
next
  case (UpdateSanctionsRoot m)
  with assms handle_update_frame [of sender m s s'] show ?thesis by (simp add: supply_of_def)
qed

interpretation supply_account: bounded_account "pool_step cr b" "\<lambda>s. supply_of s a"
    "\<lambda>tx. msg_deposit a (snd (snd tx))" "\<lambda>tx. msg_withdrawal a (snd (snd tx))" "2 ^ 64" for cr b a
proof unfold_locales
  fix tx :: pool_tx and s s'
  assume "pool_step cr b tx s = Inr s'" "supply_of s a + msg_deposit a (snd (snd tx)) < 2 ^ 64"
  then show "supply_of s' a = supply_of s a + msg_deposit a (snd (snd tx)) - msg_withdrawal a (snd (snd tx))"
    by (cases tx) (auto dest: supply_pool_call)
qed

section \<open>The sanctions oracle\<close>

lemma sanctions_oracle_pool_call:
  assumes "pool_call cr b now_secs sender msg s = Inr s'"
  shows "sanctions_oracle s' = sanctions_oracle s"
proof (cases msg)
  case (Shield m)
  with assms show ?thesis
    by (auto elim!: handle_shield_frame simp: same_ledger_def store_encrypted_def)
next
  case (Transfer m)
  with assms have "handle_transfer cr b now_secs m s = Inr s'" by simp
  then show ?thesis by (elim handle_transfer_frame) (simp add: same_ledger_def mark_spent_def)
next
  case (Unshield m)
  with assms handle_unshield_frame [of b m s s'] show ?thesis by simp
next
  case (UpdateSanctionsRoot m)
  with assms handle_update_frame [of sender m s s'] show ?thesis by simp
qed

lemma sanctions_oracle_run:
  "sanctions_oracle (run (pool_step cr b) txs s) = sanctions_oracle s"
proof (rule run_invariant [where P = "\<lambda>t. sanctions_oracle t = sanctions_oracle s"])
  fix tx t t'
  assume "sanctions_oracle t = sanctions_oracle s" "pool_step cr b tx t = Inr t'"
  then show "sanctions_oracle t' = sanctions_oracle s"
    by (cases tx) (simp add: sanctions_oracle_pool_call)
qed simp

section \<open>Duplicate nullifiers\<close>

lemma mark_spent_cong: "set ns = set ms \<Longrightarrow> mark_spent ns s = mark_spent ms s"
proof -
  assume "set ns = set ms"
  then have "fold (\<lambda>n m. m(n \<mapsto> True)) ns (nullifiers s) = fold (\<lambda>n m. m(n \<mapsto> True)) ms (nullifiers s)"
    by (intro ext) (simp only: fold_mark)
  then show ?thesis by (simp add: mark_spent_def)
qed

lemma transfer_checks_nullifier_set:
  assumes "set (transfer_nullifiers msg) = set ns"
  shows "transfer_checks b now_secs msg s = Inr () \<longleftrightarrow>
    transfer_checks b now_secs (msg\<lparr>transfer_nullifiers := ns\<rparr>) s = Inr ()"
  using assms by (simp add: transfer_checks_Inr_iff)

end
