(* ===== verification/Bridge_Ledger.thy ===== *)
theory Bridge_Ledger
  imports Bridge Pool_Ledger
begin

text \<open>
  The bridge over whole message sequences. The emitted events are the abstract history: the claimed
  and withdrawn deposits and the accepted head updates can be read off them, and the invariant ties
  the state maps and counters to that history.
\<close>

section \<open>The history in the events\<close>

fun claim_of :: "bridge_event \<Rightarrow> (u64 \<times> u64) option" where
  "claim_of (DepositClaimed deposit r amt h) = Some (deposit, amt)"
| "claim_of _ = None"

fun withdrawal_of :: "bridge_event \<Rightarrow> (u64 \<times> u64) option" where
  "withdrawal_of (WithdrawalInitiated wid deposit r amt) = Some (deposit, amt)"
| "withdrawal_of _ = None"

fun head_of :: "bridge_event \<Rightarrow> (bytes32 \<times> bytes32 \<times> u64) option" where
  "head_of (HeliosHeadUpdated prev new sl h) = Some (prev, new, sl)"
| "head_of _ = None"

definition claims :: "bridge_state \<Rightarrow> (u64 \<times> u64) list" where
  "claims s = List.map_filter claim_of (bridge_events s)"

definition withdrawn :: "bridge_state \<Rightarrow> (u64 \<times> u64) list" where
  "withdrawn s = List.map_filter withdrawal_of (bridge_events s)"

definition heads :: "bridge_state \<Rightarrow> (bytes32 \<times> bytes32 \<times> u64) list" where
  "heads s = List.map_filter head_of (bridge_events s)"

lemma map_filter_append: "List.map_filter f (xs @ ys) = List.map_filter f xs @ List.map_filter f ys"
  by (simp add: List.map_filter_def)

section \<open>What each handler does\<close>

lemma claim_checks_Inr_iff:
  "claim_checks cr build claim s = Inr k \<longleftrightarrow>
     amount (claim_inputs claim) \<noteq> 0 \<and> obscura_recipient (claim_inputs claim) \<noteq> 0 \<and>
     parse_contract_address cr (bridge_contract_address (unwrap_or (config s) default_bridge_config))
       = Inr (bridge_contract (claim_inputs claim)) \<and>
     k = make_deposit_key_str cr (bridge_contract (claim_inputs claim)) (deposit_id (claim_inputs claim)) \<and>
     \<not> is_processed s k \<and>
     (unwrap_or (trusted_slot s) 0 = 0 \<or>
      unwrap_or (finalized_eth_blocks s (block_key cr (eth_block_hash (claim_inputs claim)))) 0 \<noteq> 0) \<and>
     verify_bridge_proof build (claim_proof claim) (claim_inputs claim) = Inr ()"
  by (auto simp: claim_checks_def Let_def word_gt_0)

lemma handle_claim_frame:
  assumes "handle_claim_deposit cr build claim s = Inr s'"
  obtains p where "claim_checks cr build claim s =
      Inr (make_deposit_key_str cr (bridge_contract (claim_inputs claim)) (deposit_id (claim_inputs claim)))"
    "append_commitment (sha256 cr) (Commitment (obscura_recipient (claim_inputs claim))) (bridge_pool s) = Inr p"
    "same_ledger (bridge_pool s) p"
    "s' = s\<lparr>processed_deposits := (processed_deposits s)
             (make_deposit_key_str cr (bridge_contract (claim_inputs claim)) (deposit_id (claim_inputs claim)) \<mapsto> True),
           claimed_amounts := (claimed_amounts s)(deposit_id (claim_inputs claim) \<mapsto> amount (claim_inputs claim)),
           bridge_pool := p\<lparr>shielded_supply := (shielded_supply p)(bridged_usdc_asset \<mapsto>
             unwrap_or (shielded_supply p bridged_usdc_asset) 0 + amount (claim_inputs claim))\<rparr>,
           total_bridged_usdc := Some (unwrap_or (total_bridged_usdc s) 0 + amount (claim_inputs claim)),
           total_claims := Some (unwrap_or (total_claims s) 0 + 1),
           bridge_events := bridge_events s @ [DepositClaimed (deposit_id (claim_inputs claim))
             (obscura_recipient (claim_inputs claim)) (amount (claim_inputs claim)) (eth_block_hash (claim_inputs claim))]\<rparr>"
proof -
  from assms obtain k p where k: "claim_checks cr build claim s = Inr k"
    "append_commitment (sha256 cr) (Commitment (obscura_recipient (claim_inputs claim))) (bridge_pool s) = Inr p"
    by (auto simp: handle_claim_deposit_def Let_def)
  moreover from k(1) have "k = make_deposit_key_str cr (bridge_contract (claim_inputs claim)) (deposit_id (claim_inputs claim))"
    unfolding claim_checks_Inr_iff by blast
  ultimately show thesis
    using that [of p] assms append_commitment_frame [OF k(2)]
    by (simp add: handle_claim_deposit_def Let_def)
qed

lemma handle_withdraw_frame:
  assumes "handle_withdraw_bridge cr msg s = Inr s'"
  obtains contract where
    "parse_contract_address cr (bridge_contract_address (unwrap_or (config s) default_bridge_config)) = Inr contract"
    "is_processed s (make_deposit_key_str cr contract (withdraw_deposit_id msg))"
    "\<not> is_processed s (withdrawal_key (withdraw_deposit_id msg))"
    "unwrap_or (claimed_amounts s (withdraw_deposit_id msg)) 0 \<noteq> 0"
    "s' = s\<lparr>next_withdrawal_id := Some (unwrap_or (next_withdrawal_id s) 0 + 1),
           processed_deposits := (processed_deposits s)(withdrawal_key (withdraw_deposit_id msg) \<mapsto> True),
           withdrawals := (withdrawals s)(unwrap_or (next_withdrawal_id s) 0 \<mapsto>
             \<lparr>wr_withdrawal_id = unwrap_or (next_withdrawal_id s) 0, wr_deposit_id = withdraw_deposit_id msg,
              wr_eth_recipient = withdraw_eth_recipient msg,
              wr_amount = unwrap_or (claimed_amounts s (withdraw_deposit_id msg)) 0, wr_relayed = False\<rparr>),
           total_withdrawn_usdc := Some (unwrap_or (total_withdrawn_usdc s) 0 +
             unwrap_or (claimed_amounts s (withdraw_deposit_id msg)) 0),
           bridge_events := bridge_events s @ [WithdrawalInitiated (unwrap_or (next_withdrawal_id s) 0)
             (withdraw_deposit_id msg) (withdraw_eth_recipient msg)
             (unwrap_or (claimed_amounts s (withdraw_deposit_id msg)) 0)]\<rparr>"
  using assms by (auto simp: handle_withdraw_bridge_def Let_def)

lemma helios_checks_Inr_iff:
  "helios_checks build update s = Inr () \<longleftrightarrow>
     prev_trusted_root (helios_inputs update) = unwrap_or (trusted_beacon_root s) 0 \<and>
     unwrap_or (trusted_slot s) 0 < new_slot (helios_inputs update) \<and>
     (unwrap_or (trusted_slot s) 0 = 0 \<or>
      unat (new_slot (helios_inputs update)) \<le> unat (unwrap_or (trusted_slot s) 0) +
        unat (max_slot_gap (unwrap_or (helios_cfg s) default_helios_config))) \<and>
     verify_helios_proof build (helios_proof update) (helios_inputs update) = Inr ()"
  by (auto simp: helios_checks_def Let_def word_gt_0 word_less_nat_alt word_le_nat_alt unat_saturating_sub64 unat_eq_0 unat_gt_0)

lemma handle_helios_frame:
  assumes "handle_update_helios_head cr build update s = Inr s'"
  shows "helios_checks build update s = Inr ()"
    and "s' = s\<lparr>trusted_beacon_root := Some (new_beacon_root (helios_inputs update)),
           trusted_slot := Some (new_slot (helios_inputs update)),
           finalized_eth_blocks := (finalized_eth_blocks s)
             (block_key cr (execution_block_hash (helios_inputs update)) \<mapsto> new_slot (helios_inputs update)),
           helios_update_count := Some (unwrap_or (helios_update_count s) 0 + 1),
           bridge_events := bridge_events s @ [HeliosHeadUpdated (prev_trusted_root (helios_inputs update))
             (new_beacon_root (helios_inputs update)) (new_slot (helios_inputs update))
             (execution_block_hash (helios_inputs update))]\<rparr>"
  using assms by (auto simp: handle_update_helios_head_def Let_def)

lemma bridge_call_config:
  "bridge_call cr build hb msg s = Inr s' \<Longrightarrow> config s' = config s \<and> helios_cfg s' = helios_cfg s"
  by (cases msg) (auto elim!: handle_claim_frame handle_withdraw_frame dest!: handle_helios_frame(2))

section \<open>Keys\<close>

lemma deposit_key_inject [simp]:
  "make_deposit_key_str cr c i = make_deposit_key_str cr c j \<longleftrightarrow> i = j"
  by (simp add: make_deposit_key_str_def)

lemma withdrawal_key_inject [simp]: "withdrawal_key i = withdrawal_key j \<longleftrightarrow> i = j"
  by (simp add: withdrawal_key_def)

lemma deposit_key_withdrawal_key [simp]: "make_deposit_key_str cr c i \<noteq> withdrawal_key j"
  "withdrawal_key j \<noteq> make_deposit_key_str cr c i"
  by (simp_all add: make_deposit_key_str_def withdrawal_key_def)

fun bridge_keys :: "crates \<Rightarrow> bridge_call_message \<Rightarrow> string set" where
  "bridge_keys cr (ClaimDeposit claim) =
     {make_deposit_key_str cr (bridge_contract (claim_inputs claim)) (deposit_id (claim_inputs claim))}"
| "bridge_keys cr (WithdrawBridge w) = {withdrawal_key (withdraw_deposit_id w)}"
| "bridge_keys cr (UpdateHeliosHead u) = {}"

definition processed_set :: "bridge_state \<Rightarrow> string set" where
  "processed_set s = {k. is_processed s k}"

interpretation deposit_guard: replay_guard "bridge_call cr build hb" "bridge_keys cr" processed_set
  for cr build hb
proof unfold_locales
  fix msg s s'
  assume step: "bridge_call cr build hb msg s = Inr s'"
  have "bridge_keys cr msg \<inter> processed_set s = {} \<and> processed_set s' = processed_set s \<union> bridge_keys cr msg"
  proof (cases msg)
    case (ClaimDeposit c)
    with step show ?thesis
      by (auto elim!: handle_claim_frame simp: processed_set_def is_processed_def claim_checks_Inr_iff)
  next
    case (WithdrawBridge w)
    with step show ?thesis
      by (auto elim!: handle_withdraw_frame simp: processed_set_def is_processed_def)
  next
    case (UpdateHeliosHead u)
    with step show ?thesis
      by (auto dest!: handle_helios_frame(2) simp: processed_set_def is_processed_def)
  qed
  then show "bridge_keys cr msg \<inter> processed_set s = {}" "processed_set s' = processed_set s \<union> bridge_keys cr msg"
    by simp_all
qed

section \<open>The ledger invariant\<close>

definition contract_of :: "crates \<Rightarrow> bridge_state \<Rightarrow> bytes20" where
  "contract_of cr s =
     (case parse_contract_address cr (bridge_contract_address (unwrap_or (config s) default_bridge_config)) of
        Inl _ \<Rightarrow> 0 | Inr c \<Rightarrow> c)"

definition amounts :: "(u64 \<times> u64) list \<Rightarrow> u64" where
  "amounts xs = sum_list (map snd xs)"

definition claims_inv :: "crates \<Rightarrow> bridge_state \<Rightarrow> bool" where
  "claims_inv cr s \<longleftrightarrow>
     distinct (map fst (claims s)) \<and>
     (\<forall>i. is_processed s (make_deposit_key_str cr (contract_of cr s) i) \<longleftrightarrow> i \<in> fst ` set (claims s)) \<and>
     (\<forall>(i, a) \<in> set (claims s). claimed_amounts s i = Some a) \<and>
     total_bridged_usdc s = Some (amounts (claims s)) \<and>
     total_claims s = Some (of_nat (length (claims s)))"

definition withdrawals_inv :: "bridge_state \<Rightarrow> bool" where
  "withdrawals_inv s \<longleftrightarrow>
     distinct (map fst (withdrawn s)) \<and> set (withdrawn s) \<subseteq> set (claims s) \<and>
     (\<forall>i. is_processed s (withdrawal_key i) \<longleftrightarrow> i \<in> fst ` set (withdrawn s)) \<and>
     next_withdrawal_id s = Some (of_nat (length (withdrawn s))) \<and>
     total_withdrawn_usdc s = Some (amounts (withdrawn s)) \<and>
     (\<forall>j < length (withdrawn s). \<exists>r. withdrawals s (of_nat j) = Some r \<and>
        wr_withdrawal_id r = of_nat j \<and> (wr_deposit_id r, wr_amount r) = withdrawn s ! j)"

lemma claims_simps [simp]:
  "claims (s\<lparr>bridge_events := bridge_events s @ [DepositClaimed i r a h]\<rparr>) = claims s @ [(i, a)]"
  "bridge_events s' = bridge_events s @ [DepositClaimed i r a h] \<Longrightarrow> claims s' = claims s @ [(i, a)]"
  "bridge_events s' = bridge_events s @ [WithdrawalInitiated w i e a] \<Longrightarrow> claims s' = claims s"
  "bridge_events s' = bridge_events s @ [HeliosHeadUpdated p n sl h] \<Longrightarrow> claims s' = claims s"
  by (simp_all add: claims_def List.map_filter_def)

lemma withdrawn_simps [simp]:
  "bridge_events s' = bridge_events s @ [DepositClaimed i r a h] \<Longrightarrow> withdrawn s' = withdrawn s"
  "bridge_events s' = bridge_events s @ [WithdrawalInitiated w i e a] \<Longrightarrow> withdrawn s' = withdrawn s @ [(i, a)]"
  "bridge_events s' = bridge_events s @ [HeliosHeadUpdated p n sl h] \<Longrightarrow> withdrawn s' = withdrawn s"
  by (simp_all add: withdrawn_def List.map_filter_def)

lemma heads_simps [simp]:
  "bridge_events s' = bridge_events s @ [DepositClaimed i r a h] \<Longrightarrow> heads s' = heads s"
  "bridge_events s' = bridge_events s @ [WithdrawalInitiated w i e a] \<Longrightarrow> heads s' = heads s"
  "bridge_events s' = bridge_events s @ [HeliosHeadUpdated p n sl h] \<Longrightarrow> heads s' = heads s @ [(p, n, sl)]"
  by (simp_all add: heads_def List.map_filter_def)

lemma amounts_snoc [simp]: "amounts (xs @ [(i, a)]) = amounts xs + a"
  by (simp add: amounts_def)

lemma amounts_Nil [simp]: "amounts [] = 0"
  by (simp add: amounts_def)

lemma is_processed_upd:
  "processed_deposits s' = (processed_deposits s)(k \<mapsto> True) \<Longrightarrow> is_processed s' k' \<longleftrightarrow> k' = k \<or> is_processed s k'"
  by (simp add: is_processed_def)

lemma is_processed_same: "processed_deposits s' = processed_deposits s \<Longrightarrow> is_processed s' = is_processed s"
  by (simp add: is_processed_def fun_eq_iff)

lemma contract_of_same: "config s' = config s \<Longrightarrow> contract_of cr s' = contract_of cr s"
  by (simp add: contract_of_def)

lemma claim_invs:
  assumes "handle_claim_deposit cr build claim s = Inr s'" "claims_inv cr s" "withdrawals_inv s"
  shows "claims_inv cr s' \<and> withdrawals_inv s'"
proof -
  let ?i = "deposit_id (claim_inputs claim)" and ?a = "amount (claim_inputs claim)"
  from assms(1) have contract: "contract_of cr s = bridge_contract (claim_inputs claim)"
    and fresh: "\<not> is_processed s (make_deposit_key_str cr (contract_of cr s) ?i)"
    by (auto elim!: handle_claim_frame simp: claim_checks_Inr_iff contract_of_def)
  from assms(1) obtain r h where s':
    "processed_deposits s' = (processed_deposits s)(make_deposit_key_str cr (contract_of cr s) ?i \<mapsto> True)"
    "claimed_amounts s' = (claimed_amounts s)(?i \<mapsto> ?a)"
    "total_bridged_usdc s' = Some (unwrap_or (total_bridged_usdc s) 0 + ?a)"
    "total_claims s' = Some (unwrap_or (total_claims s) 0 + 1)"
    "bridge_events s' = bridge_events s @ [DepositClaimed ?i r ?a h]"
    "config s' = config s" "withdrawals s' = withdrawals s" "next_withdrawal_id s' = next_withdrawal_id s"
    "total_withdrawn_usdc s' = total_withdrawn_usdc s"
    unfolding contract by (elim handle_claim_frame) simp
  have new: "?i \<notin> fst ` set (claims s)" using fresh assms(2) by (simp add: claims_inv_def)
  note upd = is_processed_upd [OF s'(1)]
  have "claims_inv cr s'"
    using assms(2) new
    by (auto simp: claims_inv_def s' upd contract_of_same [OF s'(6)] image_iff split: prod.splits)
  moreover have "withdrawals_inv s'"
    using assms(3) by (auto simp: withdrawals_inv_def s' upd)
  ultimately show ?thesis ..
qed

lemma distinct_ids_bound:
  assumes "distinct (map fst (xs :: (u64 \<times> u64) list))"
  shows "length xs \<le> 2 ^ 64"
proof -
  have "length xs = card (set (map fst xs))" using assms by (metis distinct_card length_map)
  also have "\<dots> \<le> card (UNIV :: u64 set)" by (rule card_mono) simp_all
  finally show ?thesis by (simp add: card_word)
qed

lemma withdraw_invs:
  assumes "handle_withdraw_bridge cr msg s = Inr s'" "claims_inv cr s" "withdrawals_inv s"
  shows "claims_inv cr s' \<and> withdrawals_inv s'"
proof -
  let ?i = "withdraw_deposit_id msg" and ?n = "length (withdrawn s)"
  let ?a = "unwrap_or (claimed_amounts s ?i) 0"
  have next_id: "next_withdrawal_id s = Some (of_nat ?n)" using assms(3) by (simp add: withdrawals_inv_def)
  from assms(1) have claimed: "is_processed s (make_deposit_key_str cr (contract_of cr s) ?i)"
    and fresh: "\<not> is_processed s (withdrawal_key ?i)" and pos: "?a \<noteq> 0"
    by (auto elim!: handle_withdraw_frame simp: contract_of_def)
  let ?r = "\<lparr>wr_withdrawal_id = of_nat ?n, wr_deposit_id = ?i,
    wr_eth_recipient = withdraw_eth_recipient msg, wr_amount = ?a, wr_relayed = False\<rparr>"
  from assms(1) have s': "processed_deposits s' = (processed_deposits s)(withdrawal_key ?i \<mapsto> True)"
    "claimed_amounts s' = claimed_amounts s" "total_bridged_usdc s' = total_bridged_usdc s"
    "total_claims s' = total_claims s" "withdrawals s' = (withdrawals s)(of_nat ?n \<mapsto> ?r)"
    "next_withdrawal_id s' = Some (of_nat ?n + 1)" "config s' = config s"
    "total_withdrawn_usdc s' = Some (unwrap_or (total_withdrawn_usdc s) 0 + ?a)"
    "bridge_events s' = bridge_events s @ [WithdrawalInitiated (of_nat ?n) ?i (withdraw_eth_recipient msg) ?a]"
    by (elim handle_withdraw_frame, simp add: next_id)+
  from claimed assms(2) have "?i \<in> fst ` set (claims s)" by (simp add: claims_inv_def)
  then obtain a where "(?i, a) \<in> set (claims s)" by auto
  with assms(2) have mem: "(?i, ?a) \<in> set (claims s)" by (fastforce simp: claims_inv_def)
  have new: "?i \<notin> fst ` set (withdrawn s)" using fresh assms(3) by (simp add: withdrawals_inv_def)
  note upd = is_processed_upd [OF s'(1)]
  have "claims_inv cr s'"
    using assms(2) by (auto simp: claims_inv_def s' upd contract_of_same [OF s'(7)])
  moreover have "withdrawals_inv s'"
  proof -
    have dist: "distinct (map fst (withdrawn s @ [(?i, ?a)]))"
      using assms(3) new by (simp add: withdrawals_inv_def)
    have lt: "?n < 2 ^ 64" using distinct_ids_bound [OF dist] by simp
    have same: "(of_nat j :: u64) = of_nat ?n \<longleftrightarrow> j = ?n" if "j \<le> ?n" for j
    proof -
      have "unat (of_nat j :: u64) = j" "unat (of_nat ?n :: u64) = ?n"
        using that lt by (auto intro!: unat_of_nat_small)
      then show ?thesis by metis
    qed
    have records: "\<exists>q. withdrawals s' (of_nat j) = Some q \<and> wr_withdrawal_id q = of_nat j \<and>
        (wr_deposit_id q, wr_amount q) = (withdrawn s @ [(?i, ?a)]) ! j" if "j < Suc ?n" for j
    proof (cases "j = ?n")
      case True
      then show ?thesis by (simp add: s')
    next
      case False
      with that have "j < ?n" by simp
      with assms(3) same [of j] show ?thesis by (simp add: withdrawals_inv_def s' nth_append)
    qed
    show ?thesis
      using assms(3) dist mem records upd by (auto simp: withdrawals_inv_def s')
  qed
  ultimately show ?thesis ..
qed

lemma helios_invs:
  assumes "handle_update_helios_head cr hb update s = Inr s'" "claims_inv cr s" "withdrawals_inv s"
  shows "claims_inv cr s' \<and> withdrawals_inv s'"
proof -
  from handle_helios_frame(2) [OF assms(1)] obtain p n sl h where s':
    "processed_deposits s' = processed_deposits s" "claimed_amounts s' = claimed_amounts s"
    "total_bridged_usdc s' = total_bridged_usdc s" "total_claims s' = total_claims s"
    "withdrawals s' = withdrawals s" "next_withdrawal_id s' = next_withdrawal_id s"
    "total_withdrawn_usdc s' = total_withdrawn_usdc s" "config s' = config s"
    "bridge_events s' = bridge_events s @ [HeliosHeadUpdated p n sl h]"
    by simp
  show ?thesis
    using assms(2,3)
    by (simp add: claims_inv_def withdrawals_inv_def s' is_processed_same [OF s'(1)] contract_of_same [OF s'(8)])
qed

lemma bridge_call_invs:
  "bridge_call cr build hb msg s = Inr s' \<Longrightarrow> claims_inv cr s \<Longrightarrow> withdrawals_inv s \<Longrightarrow>
   claims_inv cr s' \<and> withdrawals_inv s'"
  by (cases msg) (auto dest: claim_invs withdraw_invs helios_invs)

section \<open>The chain of trusted heads\<close>

text \<open>Each head starts from the root the one before it proved, at a later slot, at most
  \<open>gap\<close> slots on (the first head from slot zero excepted).\<close>

fun head_chain :: "u64 \<Rightarrow> bytes32 \<Rightarrow> u64 \<Rightarrow> (bytes32 \<times> bytes32 \<times> u64) list \<Rightarrow> bool" where
  "head_chain gap r sl [] = True"
| "head_chain gap r sl ((prev, new, sl') # hs) =
     (prev = r \<and> sl < sl' \<and> (sl = 0 \<or> unat sl' \<le> unat sl + unat gap) \<and> head_chain gap new sl' hs)"

fun last_head :: "bytes32 \<Rightarrow> u64 \<Rightarrow> (bytes32 \<times> bytes32 \<times> u64) list \<Rightarrow> bytes32 \<times> u64" where
  "last_head r sl [] = (r, sl)"
| "last_head r sl ((prev, new, sl') # hs) = last_head new sl' hs"

lemma head_chain_snoc:
  "head_chain gap r sl (hs @ [(prev, new, sl')]) \<longleftrightarrow>
     head_chain gap r sl hs \<and> prev = fst (last_head r sl hs) \<and> snd (last_head r sl hs) < sl' \<and>
     (snd (last_head r sl hs) = 0 \<or> unat sl' \<le> unat (snd (last_head r sl hs)) + unat gap)"
  by (induction hs arbitrary: r sl) auto

lemma last_head_snoc [simp]: "last_head r sl (hs @ [(prev, new, sl')]) = (new, sl')"
  by (induction hs arbitrary: r sl) auto

definition heads_inv :: "helios_config \<Rightarrow> bridge_state \<Rightarrow> bool" where
  "heads_inv c s \<longleftrightarrow>
     helios_cfg s = Some c \<and>
     head_chain (max_slot_gap c) (initial_trusted_beacon_root c) (initial_trusted_slot c) (heads s) \<and>
     (let (r, sl) = last_head (initial_trusted_beacon_root c) (initial_trusted_slot c) (heads s)
      in trusted_beacon_root s = Some r \<and> trusted_slot s = Some sl)"

lemma bridge_call_heads:
  assumes "bridge_call cr build hb msg s = Inr s'" "heads_inv c s"
  shows "heads_inv c s'"
proof (cases msg)
  case (ClaimDeposit claim)
  with assms(1) obtain i r a h where "bridge_events s' = bridge_events s @ [DepositClaimed i r a h]"
    "trusted_beacon_root s' = trusted_beacon_root s" "trusted_slot s' = trusted_slot s" "helios_cfg s' = helios_cfg s"
    by (auto elim!: handle_claim_frame)
  with assms(2) show ?thesis by (simp add: heads_inv_def)
next
  case (WithdrawBridge w)
  with assms(1) obtain n i e a where "bridge_events s' = bridge_events s @ [WithdrawalInitiated n i e a]"
    "trusted_beacon_root s' = trusted_beacon_root s" "trusted_slot s' = trusted_slot s" "helios_cfg s' = helios_cfg s"
    by (auto elim!: handle_withdraw_frame)
  with assms(2) show ?thesis by (simp add: heads_inv_def)
next
  case (UpdateHeliosHead u)
  with assms(1) have ok: "handle_update_helios_head cr hb u s = Inr s'" by simp
  let ?i = "helios_inputs u"
  from handle_helios_frame(2) [OF ok] have s':
    "bridge_events s' = bridge_events s @
       [HeliosHeadUpdated (prev_trusted_root ?i) (new_beacon_root ?i) (new_slot ?i) (execution_block_hash ?i)]"
    "trusted_beacon_root s' = Some (new_beacon_root ?i)" "trusted_slot s' = Some (new_slot ?i)"
    "helios_cfg s' = helios_cfg s" by simp_all
  with assms(2) handle_helios_frame(1) [OF ok] show ?thesis
    by (auto simp: heads_inv_def helios_checks_Inr_iff head_chain_snoc split: prod.splits)
qed

section \<open>Finalised blocks\<close>

text \<open>Every claimed block is backed by an earlier head update, once the light client is active.\<close>

definition backed :: "crates \<Rightarrow> bridge_event list \<Rightarrow> bool" where
  "backed cr es \<longleftrightarrow>
     (\<forall>k < length es. \<forall>i r a h. es ! k = DepositClaimed i r a h \<longrightarrow>
        (\<exists>j < k. \<exists>p n sl b. es ! j = HeliosHeadUpdated p n sl b \<and> block_key cr b = block_key cr h))"

definition finality_inv :: "crates \<Rightarrow> bridge_state \<Rightarrow> bool" where
  "finality_inv cr s \<longleftrightarrow>
     unwrap_or (trusted_slot s) 0 > 0 \<and> backed cr (bridge_events s) \<and>
     (\<forall>k sl. finalized_eth_blocks s k = Some sl \<longrightarrow>
        (\<exists>p n sl b. HeliosHeadUpdated p n sl b \<in> set (bridge_events s) \<and> block_key cr b = k))"

lemma backed_snoc:
  "backed cr (es @ [e]) \<longleftrightarrow> backed cr es \<and>
     (\<forall>i r a h. e = DepositClaimed i r a h \<longrightarrow>
        (\<exists>p n sl b. HeliosHeadUpdated p n sl b \<in> set es \<and> block_key cr b = block_key cr h))"
  (is "?L \<longleftrightarrow> ?R")
proof
  assume L: ?L
  have "backed cr es"
    unfolding backed_def
  proof (intro allI impI)
    fix k i r a h assume "k < length es" "es ! k = DepositClaimed i r a h"
    with L [unfolded backed_def, rule_format, of k i r a h]
    show "\<exists>j < k. \<exists>p n sl b. es ! j = HeliosHeadUpdated p n sl b \<and> block_key cr b = block_key cr h"
      by (auto simp: nth_append dest: less_trans)
  qed
  moreover have "\<exists>p n sl b. HeliosHeadUpdated p n sl b \<in> set es \<and> block_key cr b = block_key cr h"
    if "e = DepositClaimed i r a h" for i r a h
    using L [unfolded backed_def, rule_format, of "length es" i r a h] that
    by (auto simp: nth_append) (metis nth_mem)
  ultimately show ?R by blast
next
  assume R: ?R
  show ?L
    unfolding backed_def
  proof (intro allI impI)
    fix k i r a h assume k: "k < length (es @ [e])" "(es @ [e]) ! k = DepositClaimed i r a h"
    show "\<exists>j < k. \<exists>p n sl b. (es @ [e]) ! j = HeliosHeadUpdated p n sl b \<and> block_key cr b = block_key cr h"
    proof (cases "k < length es")
      case True
      with k R obtain j p n sl b where "j < k" "es ! j = HeliosHeadUpdated p n sl b" "block_key cr b = block_key cr h"
        unfolding backed_def by (simp add: nth_append) blast
      with True show ?thesis by (intro exI [of _ j]) (auto simp: nth_append)
    next
      case False
      with k have "k = length es" "e = DepositClaimed i r a h" by (auto simp: nth_append)
      with R obtain p n sl b where "HeliosHeadUpdated p n sl b \<in> set es" "block_key cr b = block_key cr h" by blast
      with \<open>k = length es\<close> show ?thesis by (metis in_set_conv_nth nth_append)
    qed
  qed
qed

lemma bridge_call_finality:
  assumes "bridge_call cr build hb msg s = Inr s'" "finality_inv cr s"
  shows "finality_inv cr s'"
proof (cases msg)
  case (ClaimDeposit claim)
  let ?h = "eth_block_hash (claim_inputs claim)"
  from ClaimDeposit assms(1) obtain i r a where s': "bridge_events s' = bridge_events s @ [DepositClaimed i r a ?h]"
    "trusted_slot s' = trusted_slot s" "finalized_eth_blocks s' = finalized_eth_blocks s"
    and fin: "unwrap_or (trusted_slot s) 0 = 0 \<or> unwrap_or (finalized_eth_blocks s (block_key cr ?h)) 0 \<noteq> 0"
    by (auto elim!: handle_claim_frame simp: claim_checks_Inr_iff)
  from fin assms(2) obtain sl where "finalized_eth_blocks s (block_key cr ?h) = Some sl"
    by (cases "finalized_eth_blocks s (block_key cr ?h)") (auto simp: finality_inv_def)
  with assms(2) have "\<exists>p n sl b. HeliosHeadUpdated p n sl b \<in> set (bridge_events s) \<and> block_key cr b = block_key cr ?h"
    unfolding finality_inv_def by blast
  with assms(2) s' show ?thesis by (auto simp: finality_inv_def backed_snoc)
next
  case (WithdrawBridge w)
  with assms(1) obtain n i e a where "bridge_events s' = bridge_events s @ [WithdrawalInitiated n i e a]"
    "trusted_slot s' = trusted_slot s" "finalized_eth_blocks s' = finalized_eth_blocks s"
    by (auto elim!: handle_withdraw_frame)
  with assms(2) show ?thesis by (auto simp: finality_inv_def backed_snoc)
next
  case (UpdateHeliosHead u)
  with assms(1) have ok: "handle_update_helios_head cr hb u s = Inr s'" by simp
  from handle_helios_frame(1) [OF ok] have "0 < new_slot (helios_inputs u)"
    by (auto simp: helios_checks_Inr_iff word_gt_0)
  with assms(2) handle_helios_frame(2) [OF ok] show ?thesis
    by (auto simp: finality_inv_def backed_snoc split: if_splits) blast
qed

end
