(* ===== verification/Encryption.thy ===== *)
theory Encryption
  imports Rust_Str
begin

unbundle bit_operations_syntax

text \<open>
  \<open>crates/privacy/src/keys.rs\<close> and \<open>encryption.rs\<close>: viewing keys, the ECIES-style encryption of
  note contents, and the byte layout of the double ciphertext. X25519 is a third-party crate:
  its public-key derivation and its Diffie-Hellman function are the record \<open>x25519\<close>; the random
  ephemeral secret is an argument.
\<close>

section \<open>Keys\<close>

record x25519 =
  pubkey_of :: "bytes32 \<Rightarrow> bytes32"
  diffie_hellman :: "bytes32 \<Rightarrow> bytes32 \<Rightarrow> bytes32"

record viewing_keypair =
  secret :: bytes32
  public :: bytes32

text \<open>\<open>generate\<close> takes its secret from the operating system: it is an argument.\<close>

definition keypair_generate :: "x25519 \<Rightarrow> bytes32 \<Rightarrow> viewing_keypair" where
  "keypair_generate x random = \<lparr>secret = random, public = pubkey_of x random\<rparr>"

definition from_spending_key :: "hash32 \<Rightarrow> x25519 \<Rightarrow> bytes32 \<Rightarrow> viewing_keypair" where
  "from_spending_key sha x spending_key =
     (let viewing_sk_bytes = sha (str_bytes ''obscura-viewing-key-v1'' @ b32 spending_key)
      in \<lparr>secret = viewing_sk_bytes, public = pubkey_of x viewing_sk_bytes\<rparr>)"

definition COMPLIANCE_ORACLE_PUBKEY :: bytes32 where
  "COMPLIANCE_ORACLE_PUBKEY = 0xd47ee5dbcced129e126c8a6e54d369eaad0125e580f745ef94d74ed243b23678"

definition compliance_oracle_keypair :: "hash32 \<Rightarrow> x25519 \<Rightarrow> viewing_keypair" where
  "compliance_oracle_keypair sha x =
     (let sk_bytes = sha (str_bytes ''obscura-compliance-oracle-testnet-v1-secret'')
      in \<lparr>secret = sk_bytes, public = pubkey_of x sk_bytes\<rparr>)"

section \<open>Encryption\<close>

definition ENCRYPTION_OVERHEAD :: nat where
  "ENCRYPTION_OVERHEAD = 64"

definition MIN_ENCRYPTED_NOTE_SIZE :: nat where
  "MIN_ENCRYPTED_NOTE_SIZE = ENCRYPTION_OVERHEAD + 72"

datatype decrypt_error =
    BlobTooShort
  | MacMismatch
  | ContentTooShort
  | EncNoteTooShort
  | RecipientTruncated
  | ComplianceTruncated

definition derive_key :: "hash32 \<Rightarrow> bytes32 \<Rightarrow> bytes32 \<Rightarrow> bytes32" where
  "derive_key sha dh_bytes eph_pk = sha (str_bytes ''obscura-enc-v1'' @ b32 dh_bytes @ b32 eph_pk)"

definition mac_pre :: "bytes32 \<Rightarrow> bytes \<Rightarrow> bytes" where
  "mac_pre key ciphertext = str_bytes ''mac'' @ b32 key @ ciphertext"

definition compute_mac :: "hash32 \<Rightarrow> bytes32 \<Rightarrow> bytes \<Rightarrow> bytes32" where
  "compute_mac sha key ciphertext = sha (mac_pre key ciphertext)"

definition keystream_block :: "hash32 \<Rightarrow> bytes32 \<Rightarrow> byte \<Rightarrow> bytes" where
  "keystream_block sha key block_idx = b32 (sha (str_bytes ''ks'' @ b32 key @ [block_idx]))"

text \<open>The loop of \<open>stream_xor\<close>: the slice still to be processed takes the place of
  \<open>offset\<close> and \<open>remaining\<close>; the block counter is a byte that wraps around.\<close>

function stream_xor_loop :: "hash32 \<Rightarrow> bytes32 \<Rightarrow> byte \<Rightarrow> bytes \<Rightarrow> bytes" where
  "stream_xor_loop sha key block_idx data =
     (if data = [] then []
      else map2 (XOR) (take 32 data) (keystream_block sha key block_idx)
             @ stream_xor_loop sha key (block_idx + 1) (drop 32 data))"
  by pat_completeness auto
termination
  by (relation "measure (\<lambda>(sha, key, i, data). length data)") auto

declare stream_xor_loop.simps [simp del]

definition stream_xor :: "hash32 \<Rightarrow> bytes \<Rightarrow> bytes32 \<Rightarrow> bytes" where
  "stream_xor sha data key = stream_xor_loop sha key 0 data"

definition encrypt_note :: "hash32 \<Rightarrow> x25519 \<Rightarrow> bytes32 \<Rightarrow> bytes \<Rightarrow> bytes32 \<Rightarrow> bytes" where
  "encrypt_note sha x eph_sk plaintext recipient_pk =
     (let eph_pk = pubkey_of x eph_sk;
          dh = diffie_hellman x eph_sk recipient_pk;
          key = derive_key sha dh eph_pk;
          ciphertext = stream_xor sha plaintext key;
          mac = compute_mac sha key ciphertext
      in b32 eph_pk @ b32 mac @ ciphertext)"

definition decrypt_note :: "hash32 \<Rightarrow> x25519 \<Rightarrow> bytes \<Rightarrow> bytes32 \<Rightarrow> decrypt_error + bytes" where
  "decrypt_note sha x blob my_sk =
     (if length blob < ENCRYPTION_OVERHEAD then Inl BlobTooShort
      else let eph_pk = array32 (take 32 blob);
               expected_mac = array32 (take 32 (drop 32 blob));
               ciphertext = drop 64 blob;
               key = derive_key sha (diffie_hellman x my_sk eph_pk) eph_pk
           in if compute_mac sha key ciphertext \<noteq> expected_mac then Inl MacMismatch
              else Inr (stream_xor sha ciphertext key))"

section \<open>Note contents\<close>

record note_content =
  content_amount :: u64
  content_asset :: bytes32
  content_salt :: bytes32
  content_memo :: "512 word"

definition content_to_bytes :: "note_content \<Rightarrow> bytes" where
  "content_to_bytes c =
     le8 (content_amount c) @ b32 (content_asset c) @ b32 (content_salt c) @ to_be_bytes 64 (content_memo c)"

definition content_from_bytes :: "bytes \<Rightarrow> decrypt_error + note_content" where
  "content_from_bytes data =
     (if length data < 136 then Inl ContentTooShort
      else Inr \<lparr>content_amount = from_le_bytes (take 8 data),
                content_asset = array32 (take 32 (drop 8 data)),
                content_salt = array32 (take 32 (drop 40 data)),
                content_memo = from_be_bytes (take 64 (drop 72 data))\<rparr>)"

section \<open>The double ciphertext\<close>

record encrypted_note =
  enc_for_recipient :: bytes
  enc_for_compliance :: bytes

text \<open>Each of the two encryptions draws its own ephemeral secret.\<close>

definition encrypted_note_create ::
    "hash32 \<Rightarrow> x25519 \<Rightarrow> bytes32 \<Rightarrow> bytes32 \<Rightarrow> note_content \<Rightarrow> bytes32 \<Rightarrow> bytes32 \<Rightarrow> encrypted_note" where
  "encrypted_note_create sha x eph1 eph2 content recipient_pk oracle_pk =
     (let plaintext = content_to_bytes content
      in \<lparr>enc_for_recipient = encrypt_note sha x eph1 plaintext recipient_pk,
          enc_for_compliance = encrypt_note sha x eph2 plaintext oracle_pk\<rparr>)"

definition decrypt_as_recipient ::
    "hash32 \<Rightarrow> x25519 \<Rightarrow> encrypted_note \<Rightarrow> bytes32 \<Rightarrow> decrypt_error + note_content" where
  "decrypt_as_recipient sha x e viewing_sk =
     rbind (decrypt_note sha x (enc_for_recipient e) viewing_sk) content_from_bytes"

definition decrypt_as_oracle ::
    "hash32 \<Rightarrow> x25519 \<Rightarrow> encrypted_note \<Rightarrow> bytes32 \<Rightarrow> decrypt_error + note_content" where
  "decrypt_as_oracle sha x e oracle_sk =
     rbind (decrypt_note sha x (enc_for_compliance e) oracle_sk) content_from_bytes"

definition try_decrypt ::
    "hash32 \<Rightarrow> x25519 \<Rightarrow> encrypted_note \<Rightarrow> bytes32 \<Rightarrow> note_content option" where
  "try_decrypt sha x e viewing_sk =
     (case rbind (decrypt_note sha x (enc_for_recipient e) viewing_sk) content_from_bytes of
        Inr c \<Rightarrow> Some c
      | Inl _ \<Rightarrow>
          (case rbind (decrypt_note sha x (enc_for_compliance e) viewing_sk) content_from_bytes of
             Inr c \<Rightarrow> Some c
           | Inl _ \<Rightarrow> None))"

text \<open>The two lengths are cast to 16 bits.\<close>

definition encrypted_note_to_bytes :: "encrypted_note \<Rightarrow> bytes" where
  "encrypted_note_to_bytes e =
     to_le_bytes 2 (of_nat (length (enc_for_recipient e)) :: u16) @ enc_for_recipient e @
     to_le_bytes 2 (of_nat (length (enc_for_compliance e)) :: u16) @ enc_for_compliance e"

definition encrypted_note_from_bytes :: "bytes \<Rightarrow> decrypt_error + encrypted_note" where
  "encrypted_note_from_bytes data =
     (if length data < 4 then Inl EncNoteTooShort
      else let r_len = unat (from_le_bytes (take 2 data) :: u16)
           in if length data < 2 + r_len + 2 then Inl RecipientTruncated
              else let c_off = 2 + r_len;
                       c_len = unat (from_le_bytes (take 2 (drop c_off data)) :: u16)
                   in if length data < c_off + 2 + c_len then Inl ComplianceTruncated
                      else Inr \<lparr>enc_for_recipient = take r_len (drop 2 data),
                                enc_for_compliance = take c_len (drop (c_off + 2) data)\<rparr>)"

section \<open>The stream cipher\<close>

lemma length_keystream_block [simp]: "length (keystream_block sha key i) = 32"
  by (simp add: keystream_block_def)

lemma keystream_block_not_Nil: "keystream_block sha key i \<noteq> []"
  using length_keystream_block [of sha key i] by (auto simp del: length_keystream_block)

lemma length_stream_xor_loop: "length (stream_xor_loop sha key i data) = length data"
proof (induction sha key i data rule: stream_xor_loop.induct)
  case (1 sha key i data)
  then show ?case by (subst stream_xor_loop.simps) (auto simp: min_def)
qed

lemma length_stream_xor [simp]: "length (stream_xor sha data key) = length data"
  by (simp add: stream_xor_def length_stream_xor_loop)

lemma map2_xor_cancel:
  "length xs \<le> length ks \<Longrightarrow> map2 (XOR) (map2 (XOR) xs ks) ks = (xs :: bytes)"
  by (induction xs ks rule: list_induct2') (simp_all add: xor.assoc)

lemma stream_xor_loop_involution:
  "stream_xor_loop sha key i (stream_xor_loop sha key i data) = data"
proof (induction sha key i data rule: stream_xor_loop.induct)
  case (1 sha key i data)
  show ?case
  proof (cases "data = []")
    case False
    let ?c = "map2 (XOR) (take 32 data) (keystream_block sha key i)"
    let ?r = "stream_xor_loop sha key (i + 1) (drop 32 data)"
    have eq: "stream_xor_loop sha key i data = ?c @ ?r"
      using False by (subst stream_xor_loop.simps) simp
    have "keystream_block sha key i \<noteq> []" by (rule keystream_block_not_Nil)
    then have "?c \<noteq> []" using False by simp
    have parts: "take 32 (?c @ ?r) = ?c" "drop 32 (?c @ ?r) = ?r"
    proof -
      have "length ?c = 32 \<or> ?r = []"
        by (cases "length data < 32") (auto simp: stream_xor_loop.simps)
      then show "take 32 (?c @ ?r) = ?c" "drop 32 (?c @ ?r) = ?r" by auto
    qed
    have "stream_xor_loop sha key i (?c @ ?r) =
        map2 (XOR) ?c (keystream_block sha key i) @ stream_xor_loop sha key (i + 1) ?r"
      using \<open>?c \<noteq> []\<close> by (subst stream_xor_loop.simps) (simp only: parts, simp)
    also have "\<dots> = take 32 data @ drop 32 data"
      using 1 [OF False] by (simp add: map2_xor_cancel)
    finally show ?thesis unfolding eq by simp
  qed (simp add: stream_xor_loop.simps)
qed

lemma stream_xor_involution [simp]: "stream_xor sha (stream_xor sha data key) key = data"
  by (simp add: stream_xor_def stream_xor_loop_involution)

text \<open>Byte k of the keystream; the block counter repeats every 256 blocks.\<close>

lemma stream_xor_loop_nth:
  "k < length data \<Longrightarrow>
   stream_xor_loop sha key i data ! k =
     data ! k XOR keystream_block sha key (i + of_nat (k div 32)) ! (k mod 32)"
proof (induction sha key i data arbitrary: k rule: stream_xor_loop.induct)
  case (1 sha key i data)
  let ?c = "map2 (XOR) (take 32 data) (keystream_block sha key i)"
  have ne: "data \<noteq> []" using 1 by auto
  have eq: "stream_xor_loop sha key i data = ?c @ stream_xor_loop sha key (i + 1) (drop 32 data)"
    using ne by (subst stream_xor_loop.simps) simp
  show ?case
  proof (cases "k < 32")
    case True
    with "1.prems" show ?thesis by (simp add: eq nth_append)
  next
    case False
    then have "k div 32 = Suc ((k - 32) div 32)" "(k - 32) mod 32 = k mod 32"
      by (simp_all add: le_div_geq le_mod_geq)
    with "1.IH" [OF ne, of "k - 32"] "1.prems" False show ?thesis
      by (simp add: eq nth_append min_def ac_simps)
  qed
qed

section \<open>Decryption inverts encryption\<close>

lemma decrypt_parts:
  "length blob \<ge> 64 \<Longrightarrow> blob = b32 (array32 (take 32 blob)) @ b32 (array32 (take 32 (drop 32 blob))) @ drop 64 blob"
proof -
  assume *: "length blob \<ge> 64"
  then have "b32 (array32 (take 32 blob)) = take 32 blob"
    "b32 (array32 (take 32 (drop 32 blob))) = take 32 (drop 32 blob)"
    by (auto intro!: b32_array32)
  moreover have "blob = take 32 blob @ take 32 (drop 32 blob) @ drop 32 (drop 32 blob)"
    by (simp only: append_take_drop_id)
  ultimately show ?thesis by simp
qed

lemma length_encrypt_note [simp]:
  "length (encrypt_note sha x eph_sk plaintext pk) = ENCRYPTION_OVERHEAD + length plaintext"
  by (simp add: encrypt_note_def Let_def ENCRYPTION_OVERHEAD_def)

lemma decrypt_assembled:
  "decrypt_note sha x (b32 p @ b32 m @ ct) sk =
     (let key = derive_key sha (diffie_hellman x sk p) p
      in if compute_mac sha key ct \<noteq> m then Inl MacMismatch else Inr (stream_xor sha ct key))"
  by (simp add: decrypt_note_def ENCRYPTION_OVERHEAD_def)

lemma decrypt_encrypt:
  assumes "diffie_hellman x sk (pubkey_of x eph_sk) = diffie_hellman x eph_sk (pubkey_of x sk)"
  shows "decrypt_note sha x (encrypt_note sha x eph_sk plaintext (pubkey_of x sk)) sk = Inr plaintext"
  by (simp add: encrypt_note_def Let_def decrypt_assembled assms)

lemma content_round_trip [simp]:
  "content_from_bytes (content_to_bytes c @ rest) = Inr c"
  by (simp add: content_from_bytes_def content_to_bytes_def from_to_le_bytes from_to_be_bytes)

lemma content_round_trip_exact [simp]: "content_from_bytes (content_to_bytes c) = Inr c"
  using content_round_trip [of c "[]"] by simp

lemma length_content_to_bytes [simp]: "length (content_to_bytes c) = 136"
  by (simp add: content_to_bytes_def)

text \<open>An accepted ciphertext that shares its MAC with an honest one is the honest one.\<close>

lemma mac_pre_inject [simp]: "mac_pre k c = mac_pre k' c' \<longleftrightarrow> k = k' \<and> c = c'"
  by (simp add: mac_pre_def)

lemma mac_binding:
  assumes "compute_mac sha key ct = compute_mac sha key' ct'" "inj_on sha {mac_pre key ct, mac_pre key' ct'}"
  shows "key = key' \<and> ct = ct'"
proof -
  have "mac_pre key ct = mac_pre key' ct'"
    by (rule inj_on_pairD [OF assms(2)]) (use assms(1) in \<open>simp only: compute_mac_def\<close>)
  then show ?thesis by simp
qed

lemma encrypted_note_round_trip_lemma:
  assumes "length (enc_for_recipient e) < 65536" "length (enc_for_compliance e) < 65536"
  shows "encrypted_note_from_bytes (encrypted_note_to_bytes e @ rest) = Inr e"
  using assms
  by (simp add: encrypted_note_from_bytes_def encrypted_note_to_bytes_def Let_def from_to_le_bytes
    unat_of_nat)

section \<open>Properties\<close>

text \<open>Property C25. Every encrypted note can be read by both parties: for key pairs that satisfy the
  Diffie-Hellman agreement, the recipient's secret and the compliance oracle's secret both recover
  the note's contents, from the container and from its serialised form, for every pair of
  ephemeral secrets; and a wallet's trial decryption finds the note.\<close>

theorem dual_decryption:
  assumes dh: "\<And>a b. diffie_hellman x a (pubkey_of x b) = diffie_hellman x b (pubkey_of x a)"
  shows "let e = encrypted_note_create sha x eph1 eph2 content (pubkey_of x sk) (pubkey_of x oracle_sk)
    in decrypt_as_recipient sha x e sk = Inr content \<and>
       decrypt_as_oracle sha x e oracle_sk = Inr content \<and>
       try_decrypt sha x e sk = Some content \<and>
       encrypted_note_from_bytes (encrypted_note_to_bytes e) = Inr e"
proof -
  let ?e = "encrypted_note_create sha x eph1 eph2 content (pubkey_of x sk) (pubkey_of x oracle_sk)"
  have "encrypted_note_from_bytes (encrypted_note_to_bytes ?e @ []) = Inr ?e"
    by (rule encrypted_note_round_trip_lemma) (simp_all add: encrypted_note_create_def Let_def ENCRYPTION_OVERHEAD_def)
  then show ?thesis
    using decrypt_encrypt [OF dh]
    by (simp add: encrypted_note_create_def Let_def decrypt_as_recipient_def decrypt_as_oracle_def try_decrypt_def)
qed

text \<open>Property C28. Tampering is detected: a ciphertext that carries the header (ephemeral key and
  MAC) of an encryption made for the recipient and that the recipient's decryption accepts is that
  encryption, unless the hash collides on the two MAC inputs.\<close>

theorem tampering_detected:
  assumes "diffie_hellman x sk (pubkey_of x eph_sk) = diffie_hellman x eph_sk (pubkey_of x sk)"
    and "take 64 blob = take 64 (encrypt_note sha x eph_sk plaintext (pubkey_of x sk))"
    and "decrypt_note sha x blob sk = Inr opened"
    and "let key = derive_key sha (diffie_hellman x eph_sk (pubkey_of x sk)) (pubkey_of x eph_sk)
         in inj_on sha {mac_pre key (drop 64 blob), mac_pre key (stream_xor sha plaintext key)}"
  shows "blob = encrypt_note sha x eph_sk plaintext (pubkey_of x sk)"
proof -
  let ?p = "pubkey_of x eph_sk"
  let ?key = "derive_key sha (diffie_hellman x eph_sk (pubkey_of x sk)) ?p"
  let ?ct = "stream_xor sha plaintext ?key"
  let ?enc = "b32 ?p @ b32 (compute_mac sha ?key ?ct) @ ?ct"
  have enc: "encrypt_note sha x eph_sk plaintext (pubkey_of x sk) = ?enc"
    by (simp add: encrypt_note_def Let_def)
  have head: "take 64 blob = b32 ?p @ b32 (compute_mac sha ?key ?ct)"
    using assms(2) unfolding enc by simp
  then have blob: "blob = b32 ?p @ b32 (compute_mac sha ?key ?ct) @ drop 64 blob"
    using append_take_drop_id [of 64 blob] by simp
  from assms(3) have "decrypt_note sha x (b32 ?p @ b32 (compute_mac sha ?key ?ct) @ drop 64 blob) sk = Inr opened"
    using blob by simp
  then have "compute_mac sha ?key (drop 64 blob) = compute_mac sha ?key ?ct"
    by (simp add: decrypt_assembled Let_def assms(1) split: if_splits)
  with assms(4) have "drop 64 blob = ?ct" by (auto simp: Let_def dest: mac_binding)
  with blob enc show ?thesis by simp
qed

text \<open>The keystream has a period of 8192 bytes, because the block counter is one byte:
  the XOR of two ciphertext bytes 8192 apart is the XOR of the plaintext bytes.\<close>

lemma keystream_repeats:
  assumes "k + 8192 < length data"
  shows "stream_xor sha data key ! k XOR stream_xor sha data key ! (k + 8192) = data ! k XOR data ! (k + 8192)"
proof -
  have "(word_of_nat ((k + 8192) div 32) :: byte) = word_of_nat (k div 32)"
    by (simp add: div_add1_eq [of k 8192])
  moreover have "(k + 8192) mod 32 = k mod 32" by (simp add: mod_add_eq [symmetric])
  ultimately have "stream_xor sha data key ! (k + 8192) =
      data ! (k + 8192) XOR keystream_block sha key (word_of_nat (k div 32)) ! (k mod 32)"
    using assms by (simp add: stream_xor_def stream_xor_loop_nth)
  moreover have "stream_xor sha data key ! k =
      data ! k XOR keystream_block sha key (word_of_nat (k div 32)) ! (k mod 32)"
    using assms by (simp add: stream_xor_def stream_xor_loop_nth)
  ultimately show ?thesis by (simp add: ac_simps)
qed

section \<open>Witnesses\<close>

text \<open>A commutative stand-in for X25519.\<close>

definition sample_x25519 :: x25519 where
  "sample_x25519 = \<lparr>pubkey_of = (\<lambda>a. 9 * a), diffie_hellman = (\<lambda>a p. a * p)\<rparr>"

lemma sample_dh:
  "diffie_hellman sample_x25519 a (pubkey_of sample_x25519 b) =
   diffie_hellman sample_x25519 b (pubkey_of sample_x25519 a)"
  by (simp add: sample_x25519_def)

definition sample_content :: note_content where
  "sample_content = \<lparr>content_amount = 5000, content_asset = 1, content_salt = 2, content_memo = 0\<rparr>"

theorem dual_decryption_witness:
  "let e = encrypted_note_create sample_hash sample_x25519 11 12 sample_content 27 45
   in decrypt_as_recipient sample_hash sample_x25519 e 3 = Inr sample_content \<and>
      decrypt_as_oracle sample_hash sample_x25519 e 5 = Inr sample_content"
  using dual_decryption [OF sample_dh, of sample_hash 11 12 sample_content 3 5]
  by (simp add: sample_x25519_def Let_def)

theorem tampering_detected_witness:
  "let blob = encrypt_note sample_hash sample_x25519 11 (b32 7) 27
   in decrypt_note sample_hash sample_x25519 blob 3 = Inr (b32 7) \<and>
      blob = encrypt_note sample_hash sample_x25519 11 (b32 7) 27"
proof -
  let ?blob = "encrypt_note sample_hash sample_x25519 11 (b32 7) (pubkey_of sample_x25519 3)"
  let ?key = "derive_key sample_hash (diffie_hellman sample_x25519 11 (pubkey_of sample_x25519 3))
    (pubkey_of sample_x25519 11)"
  have dec: "decrypt_note sample_hash sample_x25519 ?blob 3 = Inr (b32 7)"
    by (rule decrypt_encrypt) (rule sample_dh)
  have "drop 64 ?blob = stream_xor sample_hash (b32 7) ?key"
    by (simp add: encrypt_note_def Let_def)
  then have "inj_on sample_hash {mac_pre ?key (drop 64 ?blob), mac_pre ?key (stream_xor sample_hash (b32 7) ?key)}"
    by simp
  then have "?blob = encrypt_note sample_hash sample_x25519 11 (b32 7) (pubkey_of sample_x25519 3)"
    using tampering_detected [OF sample_dh refl dec] by (simp only: Let_def)
  with dec show ?thesis by (simp add: sample_x25519_def)
qed

lemma keystream_repeats_example:
  "stream_xor sample_hash (replicate 9000 1) 5 ! 100 XOR stream_xor sample_hash (replicate 9000 1) 5 ! 8292 = 0"
proof -
  have "stream_xor sample_hash (replicate 9000 1) 5 ! 100 XOR stream_xor sample_hash (replicate 9000 1) 5 ! (100 + 8192)
      = (replicate 9000 1 :: bytes) ! 100 XOR (replicate 9000 1 :: bytes) ! (100 + 8192)"
    by (rule keystream_repeats) simp
  also have "\<dots> = 0" by (simp only: nth_replicate) simp
  finally show ?thesis by simp
qed

end
