(* ===== verification/Pool_Properties.thy ===== *)
theory Pool_Properties
  imports Pool_Ledger Encryption
begin

text \<open>
  The properties of the shielded pool, over every sequence of transactions from genesis, and those
  of the encrypted notes it stores. \<open>ledger cr b txs\<close> is the state after the transactions, each
  rejected one leaving the state as it was.
\<close>

definition genesis_state :: "crates \<Rightarrow> pool_state" where
  "genesis_state cr = pool_genesis (sha256 cr) empty_pool_state"

definition ledger :: "crates \<Rightarrow> zk_backend \<Rightarrow> pool_tx list \<Rightarrow> pool_state" where
  "ledger cr b txs = run (pool_step cr b) txs (genesis_state cr)"

definition ledger_txs :: "crates \<Rightarrow> zk_backend \<Rightarrow> pool_tx list \<Rightarrow> pool_tx list" where
  "ledger_txs cr b txs = accepted (pool_step cr b) txs (genesis_state cr)"

definition log_of :: "crates \<Rightarrow> pool_tx list \<Rightarrow> commitment list" where
  "log_of cr txs = concat (map (\<lambda>tx. msg_outputs (sha256 cr) (snd (snd tx))) txs)"

lemma genesis_state_simps [simp]:
  "commitments (genesis_state cr) = []" "sanctions_oracle (genesis_state cr) = None"
  "shielded_supply (genesis_state cr) = Map.empty" "nullifiers (genesis_state cr) = Map.empty"
  by (simp_all add: genesis_state_def pool_genesis_def empty_pool_state_def)

lemma ledger_inv: "pool_inv (sha256 cr) (ledger cr b txs)"
  and ledger_commitments: "commitments (ledger cr b txs) = log_of cr (ledger_txs cr b txs)"
  using pool_run_log [of cr "genesis_state cr" b txs] pool_genesis_inv [of "sha256 cr"]
  by (simp_all add: ledger_def ledger_txs_def log_of_def) (simp_all add: genesis_state_def)

section \<open>The commitment tree\<close>

text \<open>After any sequence of transactions the pool's tree state is a refinement of the
  list of commitments the accepted transactions created: the flat list is that list, at most
  \<open>2 ^ 20\<close> long, the leaf counter is its length and the incrementally maintained root is the root
  of the full binary tree over it.\<close>

lemma pool_tree_refines_log:
  "let s = ledger cr b txs; cs = log_of cr (ledger_txs cr b txs)
   in commitments s = cs \<and> length cs \<le> 2 ^ TREE_DEPTH \<and>
      merkle_next_index s = Some (of_nat (length cs)) \<and>
      merkle_root s = Some (tree_root (sha256 cr) (map commitment_bytes cs))"
  using ledger_inv [of cr b txs] ledger_commitments [of cr b txs]
  by (simp add: pool_inv_def)

text \<open>Property C15. \<open>is_known_root\<close> accepts exactly the roots the tree had after one of the last
  100 insertions.\<close>

theorem known_roots_are_recent:
  "is_known_root r (ledger cr b txs) \<longleftrightarrow>
   (\<exists>j. recent (length (commitments (ledger cr b txs))) j \<and>
        r = tree_root (sha256 cr) (map commitment_bytes (take (Suc j) (commitments (ledger cr b txs)))))"
  using is_known_root_iff [OF ledger_inv] by (simp add: root_after_def)

text \<open>Property C14. For every commitment in the pool, the path \<open>build_proof_paths\<close> computes from the
  flat list is accepted by \<open>verify\<close> against the current on-chain root, at the commitment's
  position.\<close>

theorem every_commitment_provable:
  "let s = ledger cr b txs; n = length (commitments s)
   in \<exists>paths. build_proof_paths (sha256 cr) (leaves s) = Some paths \<and> length paths = n \<and>
        list_all (\<lambda>i. verify (sha256 cr)
           \<lparr>leaf_index = of_nat i, siblings = paths ! i, proof_root = the (merkle_root s)\<rparr>
           (commitment_bytes (commitments s ! i))) [0..<n]"
proof -
  let ?s = "ledger cr b txs"
  let ?n = "length (commitments ?s)"
  have le: "?n \<le> 2 ^ TREE_DEPTH" and root: "merkle_root ?s = Some (tree_root (sha256 cr) (leaves ?s))"
    using ledger_inv [of cr b txs] by (simp_all add: pool_inv_def)
  have "verify (sha256 cr) \<lparr>leaf_index = of_nat i,
      siblings = sibling_path (hash_pair (sha256 cr)) (padded (leaves ?s)) TREE_DEPTH i,
      proof_root = tree_root (sha256 cr) (leaves ?s)\<rparr> (commitment_bytes (commitments ?s ! i))"
    if "i < ?n" for i
    using verify_sibling_path [of i "sha256 cr" "leaves ?s"] that le by (simp add: padded_def)
  then show ?thesis
    using build_proof_paths_spec [of "leaves ?s" "sha256 cr"] le root by (simp add: list_all_iff Let_def)
qed

text \<open>Property C16. A Merkle proof that verify accepts against the current root shows that its
  leaf is the commitment at the position that the low twenty bits of its index name (the zero leaf
  beyond the last one), unless the hash collides on one of the forty node preimages on the two
  paths. verify does not bound the index and ignores its higher bits, so a proof for index i is
  also one for i + 2^20: the position is the index modulo the size of the tree.\<close>

theorem membership_binding:
  assumes "verify (sha256 cr) p leaf" "merkle_root (ledger cr b txs) = Some (proof_root p)"
    and "inj_on (sha256 cr)
      (set (path_pres pair_pre (hash_pair (sha256 cr)) (unat (leaf_index p)) leaf (siblings p)) \<union>
       set (trunk_pres pair_pre (hash_pair (sha256 cr)) (padded (leaves (ledger cr b txs))) TREE_DEPTH
              (unat (leaf_index p) mod 2 ^ TREE_DEPTH)))"
  shows "leaf = padded (leaves (ledger cr b txs)) (unat (leaf_index p) mod 2 ^ TREE_DEPTH)"
proof (rule verify_binding [OF assms(1) _ refl assms(3)])
  show "proof_root p = tree_root (sha256 cr) (leaves (ledger cr b txs))"
    using assms(2) ledger_inv [of cr b txs] by (simp add: pool_inv_def)
qed

section \<open>Spending\<close>

text \<open>Over any sequence of transactions, from any state, the sets of nullifiers that the accepted
  transactions reveal are pairwise disjoint, disjoint from the nullifiers spent before, and all of
  them are recorded as spent. This is about nullifiers: one message may repeat a nullifier, and one
  note has as many nullifiers as there are keys.\<close>

lemma nullifiers_accepted_once:
  "disjoint_list (spent_set s # map tx_nullifiers (accepted (pool_step cr b) txs s)) \<and>
   spent_set (run (pool_step cr b) txs s) =
     spent_set s \<union> \<Union> (tx_nullifiers ` set (accepted (pool_step cr b) txs s))"
  using nullifier_guard.no_replay nullifier_guard.spent_run nullifier_guard.accepted_fresh
  by (fastforce simp: Int_commute)

text \<open>Property C5. The exact conditions under which a private transfer is accepted: the claimed
  Merkle root is zero or recent, both proofs pass, the sanctions root is unset or matched, the
  sanctions proof is at most 24 hours old unless it carries no timestamp, no nullifier is spent,
  and the tree has room for the outputs. This is what the code does in both builds; its comments say
  otherwise in two places. They allow the zero root for mock proofs only, but it passes in the sp1
  build too, and they ask for a proof of less than 24 hours, but one of exactly 24 hours passes.\<close>

theorem transfer_accepted_iff:
  "is_ok (handle_transfer cr b now_secs msg (ledger cr b txs)) \<longleftrightarrow>
   (let s = ledger cr b txs; root = merkle_root_input (transfer_inputs msg);
        sroot = unwrap_or (sanctions_root s) 0; ts = proof_timestamp (sanctions_inputs msg)
    in (root = 0 \<or> is_known_root root s) \<and>
       verify_transfer_proof b (transfer_proof msg) (transfer_inputs msg) = Inr () \<and>
       (sroot = 0 \<or> sanctions_root_input (sanctions_inputs msg) = sroot) \<and>
       (ts = 0 \<or> unat now_secs \<le> unat ts + 86400) \<and>
       verify_sanctions_proof b (sanctions_proof msg) (sanctions_inputs msg) = Inr () \<and>
       set (transfer_nullifiers msg) \<inter> spent_set s = {} \<and>
       (output_commitments msg = [] \<or>
        length (commitments s) + length (output_commitments msg) \<le> 2 ^ TREE_DEPTH))"
  unfolding transfer_ok_iff [OF ledger_inv] transfer_checks_Inr_iff Let_def by simp

text \<open>As long as the deposits of an asset stay below \<open>2 ^ 64\<close>, its shielded supply
  never exceeds what was shielded, and what was shielded never exceeds the supply plus what was
  withdrawn: shielding does not wrap and unshielding never takes off more than it pays out.\<close>

lemma shielded_supply_bounds:
  assumes "total_of (msg_deposit a) (ledger_txs cr b txs) < 2 ^ 64"
  shows "supply_of (ledger cr b txs) a \<le> total_of (msg_deposit a) (ledger_txs cr b txs) \<and>
    total_of (msg_deposit a) (ledger_txs cr b txs) \<le>
      supply_of (ledger cr b txs) a + total_of (msg_withdrawal a) (ledger_txs cr b txs)"
  using supply_account.balance_run [where cr = cr and b = b and a = a and s = "genesis_state cr" and ms = txs] assms
  by (simp add: ledger_def ledger_txs_def supply_of_def total_of_def)

section \<open>Limits of the checks\<close>

text \<open>Nothing ever sets the sanctions oracle: after any sequence of transactions
  every sender is authorised to replace the sanctions root.\<close>

lemma anyone_updates_sanctions_root:
  "\<exists>s'. pool_call cr b now_secs sender (UpdateSanctionsRoot \<lparr>new_sanctions_root = r\<rparr>) (ledger cr b txs)
        = Inr s' \<and> sanctions_root s' = Some r"
  using sanctions_oracle_run [of cr b txs "genesis_state cr"]
  by (simp add: handle_update_sanctions_root_def ledger_def)

text \<open>\<open>handle_transfer\<close> sees only the set of nullifiers of a message: a message that
  lists one nullifier several times is accepted whenever the message that lists it once is.\<close>

lemma duplicate_nullifiers_accepted:
  "is_ok (handle_transfer cr b now_secs msg (ledger cr b txs)) \<longleftrightarrow>
   is_ok (handle_transfer cr b now_secs
     (msg\<lparr>transfer_nullifiers := remdups (transfer_nullifiers msg)\<rparr>) (ledger cr b txs))"
  unfolding transfer_ok_iff [OF ledger_inv]
  using transfer_checks_nullifier_set [of msg "remdups (transfer_nullifiers msg)"] by simp

text \<open>The acceptance of a withdrawal depends on the proof and the nullifier alone:
  its amount and asset are not bound to the proof, and no commitment need exist. In the default
  build every unspent nullifier is accepted with any amount.\<close>

lemma unshield_unbound:
  "is_ok (handle_unshield b msg s) =
     is_ok (handle_unshield b (msg\<lparr>unshield_inputs := up, unshield_recipient := r\<rparr>) s) \<and>
   is_ok (handle_unshield Mock (msg\<lparr>unshield_proof := mock_proof payload\<rparr>) s) =
     (\<not> is_spent s (unshield_nullifier msg))"
proof -
  have "verify_unshield_proof b (unshield_proof msg) (unshield_inputs msg) =
      verify_unshield_proof b (unshield_proof msg) up"
    by (rule unshield_gate.input_blind)
  then show ?thesis
    by (cases "verify_unshield_proof b (unshield_proof msg) up") (simp_all add: handle_unshield_def Let_def)
qed

section \<open>Witnesses\<close>

text \<open>A pool with one shielded note, under a hash that keeps the first half of its input.\<close>

definition left_crates :: crates where
  "left_crates = sample_crates\<lparr>sha256 := (\<lambda>bs. array32 (take 32 bs))\<rparr>"

definition sample_note :: Note where
  "sample_note = \<lparr>note_amount = 5, note_asset = AssetId 7, note_owner = replicate 32 1, note_salt = 9\<rparr>"

definition sample_tx :: pool_tx where
  "sample_tx = (0, [], Shield \<lparr>shield_note = sample_note, encrypted_note = []\<rparr>)"

definition sample_leaf :: bytes32 where
  "sample_leaf = array32 (take 32 (note_preimage sample_note))"

lemma shield_ok:
  assumes "note_amount (shield_note m) \<noteq> 0" "length (note_owner (shield_note m)) = 32"
    "pool_inv (sha256 cr) s" "length (commitments s) < 2 ^ TREE_DEPTH"
  shows "\<exists>s'. pool_step cr b (n, sd, Shield m) s = Inr s'"
proof -
  obtain t where "append_commitment (sha256 cr) (Commitment (sha256 cr (note_preimage (shield_note m)))) s = Inr t"
    using tree_log.add_ok [OF assms(3,4)] by blast
  with assms(1,2) show ?thesis
    by (simp add: handle_shield_def commitment_from_note_def Let_def)
qed

lemma sample_ledger_txs: "ledger_txs cr b [sample_tx] = [sample_tx]"
proof -
  obtain s' where "pool_step cr b sample_tx (genesis_state cr) = Inr s'"
    using shield_ok [of "\<lparr>shield_note = sample_note, encrypted_note = []\<rparr>" cr "genesis_state cr" b 0 "[]"]
      pool_genesis_inv [of "sha256 cr"]
    by (auto simp: sample_tx_def sample_note_def genesis_state_def [symmetric])
  then show ?thesis by (simp add: ledger_txs_def)
qed

lemma sample_leaves: "leaves (ledger left_crates b [sample_tx]) = [sample_leaf]"
  unfolding ledger_commitments sample_ledger_txs
  by (simp add: log_of_def sample_tx_def sample_leaf_def left_crates_def)

abbreviation left_hash :: hash32 where
  "left_hash \<equiv> sha256 left_crates"

lemma left_hash_pair [simp]: "hash_pair left_hash x y = x"
  by (simp add: hash_pair_def left_crates_def)

lemma left_node: "tree_node (hash_pair left_hash) f l i = f (i * 2 ^ l)"
  by (induction l arbitrary: i) (simp_all add: ac_simps)

lemma left_path_pres:
  "set (path_pres pair_pre (hash_pair left_hash) 0 x (replicate n 0)) \<subseteq> {pair_pre x 0}"
  by (induction n) auto

lemma left_trunk_pres:
  "set (trunk_pres pair_pre (hash_pair left_hash) (padded [x]) n 0) \<subseteq> {pair_pre x 0}"
  by (auto simp: trunk_pres_def left_node padded_def)

lemma left_climb: "climb (hash_pair left_hash) 0 x (replicate n 0) = x"
  by (induction n) auto

theorem membership_binding_witness:
  "let p = \<lparr>leaf_index = 0, siblings = replicate 20 0, proof_root = sample_leaf\<rparr>
   in verify left_hash p sample_leaf \<and> sample_leaf = padded (leaves (ledger left_crates Mock [sample_tx])) 0"
proof -
  let ?p = "\<lparr>leaf_index = 0, siblings = replicate 20 0, proof_root = sample_leaf\<rparr>"
  let ?L = "ledger left_crates Mock [sample_tx]"
  have v: "verify left_hash ?p sample_leaf"
    by (simp only: verify_def verify_loop_climb merkle_proof.simps unat_0 left_climb length_replicate)
      (simp add: TREE_DEPTH_def)
  have "merkle_root ?L = Some (tree_root left_hash [sample_leaf])"
    using ledger_inv [of left_crates Mock "[sample_tx]"] by (simp add: pool_inv_def sample_leaves)
  then have root: "merkle_root ?L = Some (proof_root ?p)"
    by (simp add: tree_root_def left_node padded_def)
  have "inj_on left_hash {pair_pre sample_leaf 0}" by simp
  then have inj: "inj_on left_hash
      (set (path_pres pair_pre (hash_pair left_hash) (unat (leaf_index ?p)) sample_leaf (siblings ?p)) \<union>
       set (trunk_pres pair_pre (hash_pair left_hash) (padded (leaves ?L)) TREE_DEPTH
              (unat (leaf_index ?p) mod 2 ^ TREE_DEPTH)))"
    by (rule inj_on_subset)
      (use left_path_pres [of sample_leaf 20] left_trunk_pres [of sample_leaf TREE_DEPTH] in
        \<open>simp only: sample_leaves merkle_proof.simps unat_0 mod_0 Un_least\<close>)
  from membership_binding [OF v root inj] v show ?thesis by simp
qed

lemma shielded_supply_bounds_example:
  "supply_of (ledger sample_crates Mock [sample_tx]) (AssetId 7) \<le> 5 \<and>
   5 \<le> supply_of (ledger sample_crates Mock [sample_tx]) (AssetId 7)"
proof -
  have "total_of (msg_deposit (AssetId 7)) [sample_tx] = 5" "total_of (msg_withdrawal (AssetId 7)) [sample_tx] = 0"
    by (simp_all add: total_of_def sample_tx_def sample_note_def)
  then show ?thesis
    using shielded_supply_bounds [of "AssetId 7" sample_crates Mock "[sample_tx]"]
    by (simp add: sample_ledger_txs)
qed

end
