(* ===== verification/Bridge_Properties.thy ===== *)
theory Bridge_Properties
  imports Bridge_Ledger Pool_Properties
begin

text \<open>
  The properties of the bridge over every sequence of call messages from genesis, for any genesis
  configuration, any state of the pool and both builds of the proof checks.
\<close>

definition bridge_ledger ::
    "crates \<Rightarrow> build_features \<Rightarrow> 'p helios_build \<Rightarrow> bridge_config \<Rightarrow> pool_state \<Rightarrow>
     bridge_call_message list \<Rightarrow> bridge_state" where
  "bridge_ledger cr build hb c p msgs =
     run (bridge_call cr build hb) msgs (bridge_genesis c (empty_bridge_state p))"

lemma genesis_invs:
  "claims_inv cr (bridge_genesis c (empty_bridge_state p))"
  "withdrawals_inv (bridge_genesis c (empty_bridge_state p))"
  "heads_inv (config_helios c) (bridge_genesis c (empty_bridge_state p))"
  by (simp_all add: claims_inv_def withdrawals_inv_def heads_inv_def bridge_genesis_def empty_bridge_state_def
    claims_def withdrawn_def heads_def List.map_filter_def is_processed_def Let_def)

lemma ledger_invs:
  "claims_inv cr (bridge_ledger cr build hb c p msgs) \<and> withdrawals_inv (bridge_ledger cr build hb c p msgs)"
  unfolding bridge_ledger_def
proof (rule run_invariant)
  show "claims_inv cr (bridge_genesis c (empty_bridge_state p)) \<and>
      withdrawals_inv (bridge_genesis c (empty_bridge_state p))"
    by (simp add: genesis_invs)
next
  fix m s s'
  assume "claims_inv cr s \<and> withdrawals_inv s" "bridge_call cr build hb m s = Inr s'"
  then show "claims_inv cr s' \<and> withdrawals_inv s'" using bridge_call_invs by blast
qed

lemma ledger_heads: "heads_inv (config_helios c) (bridge_ledger cr build hb c p msgs)"
  unfolding bridge_ledger_def
  by (rule run_invariant) (auto intro: genesis_invs bridge_call_heads)

section \<open>Deposits and withdrawals\<close>

text \<open>Over any sequence of messages every deposit is claimed at most once and
  withdrawn at most once, and a withdrawal is always of a claimed deposit and of exactly the
  claimed amount; the withdrawal records are numbered consecutively and say the same.\<close>

lemma deposits_claimed_and_withdrawn_once:
  "let s = bridge_ledger cr build hb c p msgs
   in distinct (map fst (claims s)) \<and> distinct (map fst (withdrawn s)) \<and>
      set (withdrawn s) \<subseteq> set (claims s) \<and>
      list_all (\<lambda>j. case withdrawals s (of_nat j) of
                      None \<Rightarrow> False
                    | Some r \<Rightarrow> (wr_deposit_id r, wr_amount r) = withdrawn s ! j)
        [0..<length (withdrawn s)]"
  using ledger_invs [of cr build hb c p msgs]
  by (fastforce simp: Let_def claims_inv_def withdrawals_inv_def list_all_iff)

lemma amounts_of_nat: "amounts xs = of_nat (\<Sum>(i, a)\<leftarrow>xs. unat a)"
  by (induction xs) (auto simp: amounts_def)

lemma sub_claims_sum:
  fixes xs ys :: "(u64 \<times> u64) list"
  assumes "distinct (map fst xs)" "distinct (map fst ys)" "set xs \<subseteq> set ys"
  shows "(\<Sum>(i, a)\<leftarrow>xs. unat a) \<le> (\<Sum>(i, a)\<leftarrow>ys. unat a)"
proof -
  have "distinct xs" "distinct ys" using assms(1,2) by (simp_all add: distinct_map)
  then have "(\<Sum>(i, a)\<leftarrow>xs. unat a) = (\<Sum>(i, a)\<in>set xs. unat a)"
    "(\<Sum>(i, a)\<leftarrow>ys. unat a) = (\<Sum>(i, a)\<in>set ys. unat a)"
    by (simp_all add: sum_list_distinct_conv_sum_set)
  with assms(3) show ?thesis by (simp add: sum_mono2)
qed

text \<open>The bridge never pays out more than it took in: the withdrawn amounts sum to at
  most the claimed amounts, and the two counters in the state are these sums modulo \<open>2 ^ 64\<close>.\<close>

lemma bridge_solvent:
  "let s = bridge_ledger cr build hb c p msgs;
       taken = (\<Sum>(i, a)\<leftarrow>claims s. unat a); paid = (\<Sum>(i, a)\<leftarrow>withdrawn s. unat a)
   in paid \<le> taken \<and> total_bridged_usdc s = Some (of_nat taken) \<and> total_withdrawn_usdc s = Some (of_nat paid)"
proof -
  let ?s = "bridge_ledger cr build hb c p msgs"
  have inv: "claims_inv cr ?s" "withdrawals_inv ?s" using ledger_invs by blast+
  then have "(\<Sum>(i, a)\<leftarrow>withdrawn ?s. unat a) \<le> (\<Sum>(i, a)\<leftarrow>claims ?s. unat a)"
    by (intro sub_claims_sum) (simp_all add: claims_inv_def withdrawals_inv_def)
  with inv show ?thesis
    by (simp add: Let_def claims_inv_def withdrawals_inv_def amounts_of_nat)
qed

section \<open>The light client\<close>

text \<open>Property C17. The accepted head updates form a chain from the genesis configuration: each
  starts from the root the previous one proved, the slots increase strictly, by at most the
  configured gap unless the previous slot is zero, and the trusted root and slot in the state are
  those of the last update. The exception concerns the first update alone: with the default
  configuration, whose initial slot is zero, it may jump to any slot.\<close>

theorem trusted_heads_form_chain:
  "let s = bridge_ledger cr build hb c p msgs; h = config_helios c
   in head_chain (max_slot_gap h) (initial_trusted_beacon_root h) (initial_trusted_slot h) (heads s) \<and>
      (let (r, sl) = last_head (initial_trusted_beacon_root h) (initial_trusted_slot h) (heads s)
       in trusted_beacon_root s = Some r \<and> trusted_slot s = Some sl)"
  using ledger_heads [of c cr build hb p msgs]
  by (simp add: heads_inv_def Let_def)

text \<open>Property C18. When genesis configures a trusted slot, a deposit is claimed only against an
  Ethereum block that an earlier accepted head update finalised, provided hexadecimal encoding is
  reversible.\<close>

theorem claims_need_finalized_block:
  assumes "\<And>bs. hex_decode cr (hex_encode cr bs) = Some bs"
    and "0 < initial_trusted_slot (config_helios c)"
    and "k < length (bridge_events (bridge_ledger cr build hb c p msgs))"
    and "bridge_events (bridge_ledger cr build hb c p msgs) ! k = DepositClaimed i r a h"
  shows "\<exists>j < k. \<exists>prev new sl.
    bridge_events (bridge_ledger cr build hb c p msgs) ! j = HeliosHeadUpdated prev new sl h"
proof -
  have "finality_inv cr (bridge_ledger cr build hb c p msgs)"
    unfolding bridge_ledger_def
  proof (rule run_invariant)
    show "finality_inv cr (bridge_genesis c (empty_bridge_state p))"
      using assms(2) by (simp add: finality_inv_def bridge_genesis_def empty_bridge_state_def backed_def Let_def)
  qed (rule bridge_call_finality)
  then obtain j prev new sl b where "j < k"
    "bridge_events (bridge_ledger cr build hb c p msgs) ! j = HeliosHeadUpdated prev new sl b"
    "block_key cr b = block_key cr h"
    using assms(3,4) unfolding finality_inv_def backed_def by blast
  moreover have "b = h"
  proof -
    have "hex_encode cr (b32 b) = hex_encode cr (b32 h)"
      using \<open>block_key cr b = block_key cr h\<close> by (simp add: block_key_def)
    then have "b32 b = b32 h" using assms(1) by (metis option.inject)
    then show ?thesis by simp
  qed
  ultimately show ?thesis by blast
qed

section \<open>Limits of the checks\<close>

text \<open>A withdrawal burns nothing and is bound to nobody: an accepted withdrawal leaves
  the shielded pool as it was, and the same deposit can be withdrawn to any Ethereum address.\<close>

lemma withdrawal_unbound:
  assumes "handle_withdraw_bridge cr msg s = Inr s'"
  shows "bridge_pool s' = bridge_pool s \<and>
    (\<exists>s'' r. handle_withdraw_bridge cr (msg\<lparr>withdraw_eth_recipient := e\<rparr>) s = Inr s'' \<and>
       withdrawals s'' (unwrap_or (next_withdrawal_id s) 0) = Some r \<and> wr_eth_recipient r = e \<and>
       wr_amount r = unwrap_or (claimed_amounts s (withdraw_deposit_id msg)) 0)"
proof
  from assms show "bridge_pool s' = bridge_pool s" by (elim handle_withdraw_frame) simp
  from assms show "\<exists>s'' r. handle_withdraw_bridge cr (msg\<lparr>withdraw_eth_recipient := e\<rparr>) s = Inr s'' \<and>
       withdrawals s'' (unwrap_or (next_withdrawal_id s) 0) = Some r \<and> wr_eth_recipient r = e \<and>
       wr_amount r = unwrap_or (claimed_amounts s (withdraw_deposit_id msg)) 0"
    by (auto simp: handle_withdraw_bridge_def Let_def)
qed

text \<open>Proof checking in both builds is the mock check: a deposit proof passes exactly
  when it has the mock prefix, in the native build too, where every real proof is refused; and the
  mock prefix passes the native check of a head update whatever the SP1 client says.\<close>

lemma native_build_accepts_mock_proofs:
  "(verify_bridge_proof build pr i = Inr () \<longleftrightarrow> starts_with MOCK_PROOF_PREFIX pr) \<and>
   verify_helios_proof (HeliosNative client) (MOCK_HELIOS_PREFIX @ rest) j = Inr ()"
  by (cases build) (simp_all add: verify_bridge_proof_def verify_sp1_proof_def verify_helios_proof_def)

text \<open>A head update without the mock prefix passes the native check only with a proof
  the SP1 client verifies and whose committed values are exactly the submitted inputs.\<close>

lemma native_head_proof_binds_inputs:
  "verify_helios_sp1_proof client pr i = Inr () \<longleftrightarrow>
   elf_found client \<and>
   (\<exists>q. decode_proof client pr = Some q \<and> client_verify client q \<and> committed_values client q = Some i)"
  by (auto simp: verify_helios_sp1_proof_def check_committed_def split: option.splits if_splits)

section \<open>Witnesses\<close>

lemma demo_parse:
  "parse_contract_address sample_crates ''0x0000000000000000000000000000000000000000'' = Inr 0"
proof -
  have "trim ''0x0000000000000000000000000000000000000000'' = ''0x0000000000000000000000000000000000000000''"
    by (rule trim_id) (simp add: white_space_eval)
  moreover have "sample_decode ''0000000000000000000000000000000000000000'' = Some (replicate 20 0)"
    by (simp only: sample_decode.simps hex_digit_value_eval option.case prod.case) (simp add: eval_nat_numeral)
  moreover have "array20 (replicate 20 0) = 0" by code_simp
  ultimately show ?thesis
    by (simp add: parse_contract_address_def strip_prefix_def sample_crates_def)
qed

definition demo_config :: bridge_config where
  "demo_config = default_bridge_config\<lparr>config_helios :=
     \<lparr>initial_trusted_beacon_root = 1, initial_trusted_slot = 5, max_slot_gap = 8192\<rparr>\<rparr>"

definition demo_update :: update_helios_head where
  "demo_update = \<lparr>helios_proof = MOCK_HELIOS_PREFIX,
     helios_inputs = \<lparr>prev_trusted_root = 1, new_beacon_root = 2, new_slot = 9, execution_block_hash = 3\<rparr>\<rparr>"

definition demo_claim :: claim_deposit where
  "demo_claim = \<lparr>claim_proof = MOCK_PROOF_PREFIX,
     claim_inputs = \<lparr>eth_block_hash = 3, beacon_block_root = 0, deposit_id = 1, obscura_recipient = 7,
       amount = 5, bridge_contract = 0\<rparr>\<rparr>"

definition demo_ledger :: bridge_state where
  "demo_ledger = bridge_ledger sample_crates DefaultBuild (HeliosDefault :: unit helios_build) demo_config
     (genesis_state sample_crates) [UpdateHeliosHead demo_update, ClaimDeposit demo_claim]"

lemma demo_ledger_facts:
  shows demo_events: "bridge_events demo_ledger = [HeliosHeadUpdated 1 2 9 3, DepositClaimed 1 7 5 3]"
    and demo_state: "config demo_ledger = Some demo_config" "claimed_amounts demo_ledger 1 = Some 5"
      "processed_deposits demo_ledger = [make_deposit_key_str sample_crates 0 1 \<mapsto> True]"
proof -
  let ?s0 = "bridge_genesis demo_config (empty_bridge_state (genesis_state sample_crates))"
  let ?c = "Commitment (obscura_recipient (claim_inputs demo_claim))"
  obtain s1 where s1: "handle_update_helios_head sample_crates (HeliosDefault :: unit helios_build) demo_update ?s0 = Inr s1"
    by (simp add: handle_update_helios_head_def helios_checks_def Let_def bridge_genesis_def demo_config_def
        demo_update_def verify_helios_proof_def saturating_sub64_def starts_with_def)
  note e1 = handle_helios_frame(2) [OF s1]
  have ev1: "bridge_events s1 = [HeliosHeadUpdated 1 2 9 3]" "config s1 = Some demo_config"
    "bridge_pool s1 = genesis_state sample_crates" "processed_deposits s1 = Map.empty" "trusted_slot s1 = Some 9"
    "finalized_eth_blocks s1 (block_key sample_crates 3) = Some 9"
    by (simp_all add: e1 bridge_genesis_def empty_bridge_state_def demo_update_def Let_def)
  obtain p where p: "append_commitment (sha256 sample_crates) ?c (bridge_pool s1) = Inr p"
    using tree_log.add_ok [of "sha256 sample_crates" "genesis_state sample_crates" ?c]
      pool_genesis_inv [of "sha256 sample_crates"]
    by (auto simp: ev1 genesis_state_def [symmetric])
  have "claim_checks sample_crates DefaultBuild demo_claim s1 = Inr (make_deposit_key_str sample_crates 0 1)"
    unfolding claim_checks_Inr_iff
    by (simp add: demo_claim_def ev1 is_processed_def verify_bridge_proof_def starts_with_def demo_config_def
        default_bridge_config_def demo_parse)
  with p obtain s2 where s2: "handle_claim_deposit sample_crates DefaultBuild demo_claim s1 = Inr s2"
    by (simp add: handle_claim_deposit_def Let_def)
  have L: "demo_ledger = s2"
    using s1 s2 by (simp add: demo_ledger_def bridge_ledger_def)
  from s2 show "bridge_events demo_ledger = [HeliosHeadUpdated 1 2 9 3, DepositClaimed 1 7 5 3]"
    "config demo_ledger = Some demo_config" "claimed_amounts demo_ledger 1 = Some 5"
    "processed_deposits demo_ledger = [make_deposit_key_str sample_crates 0 1 \<mapsto> True]"
    unfolding L by (elim handle_claim_frame; simp add: ev1 demo_claim_def)+
qed

theorem claims_need_finalized_block_witness:
  "\<exists>j < 1. \<exists>prev new sl. bridge_events demo_ledger ! j = HeliosHeadUpdated prev new sl 3"
proof -
  have "0 < initial_trusted_slot (config_helios demo_config)" by (simp add: demo_config_def)
  from claims_need_finalized_block [OF sample_crates_hex this, where k = 1,
      of DefaultBuild "HeliosDefault :: unit helios_build" "genesis_state sample_crates"
        "[UpdateHeliosHead demo_update, ClaimDeposit demo_claim]" 1 7 5 3]
  show ?thesis unfolding demo_ledger_def [symmetric] demo_events by simp
qed

lemma withdrawal_unbound_example:
  "\<exists>s'. handle_withdraw_bridge sample_crates \<lparr>withdraw_deposit_id = 1, withdraw_eth_recipient = 66\<rparr> demo_ledger = Inr s' \<and>
     bridge_pool s' = bridge_pool demo_ledger"
proof -
  obtain s' where "handle_withdraw_bridge sample_crates \<lparr>withdraw_deposit_id = 1, withdraw_eth_recipient = 66\<rparr> demo_ledger = Inr s'"
    by (simp add: handle_withdraw_bridge_def Let_def demo_state is_processed_def demo_config_def
        default_bridge_config_def demo_parse)
  with withdrawal_unbound [OF this] show ?thesis by blast
qed
end
