(* ===== verification/Rollup.thy ===== *)
theory Rollup
  imports Bridge_Properties
begin

text \<open>
  The state transition function: the runtime of \<open>crates/stf/stf-declaration/src/lib.rs\<close> with its
  genesis and dispatch, the example module \<open>examples/value-setter\<close>, the transaction authenticator of
  \<open>crates/stf/src/authentication.rs\<close> and the glue of \<open>runtime.rs\<close> and \<open>delegation.rs\<close>. The modules of
  the Sovereign SDK (accounts, bank, EVM and the others) and its authenticators are parameters; they
  share one state component of their own. The bridge module contains the pool module, so both act
  on one pool state, and the interleavings of their calls are what the lemmas are about.
\<close>

section \<open>The value setter\<close>

datatype value_setter_call = SetValue u32

fun value_setter_step :: "value_setter_call \<Rightarrow> u32 option \<Rightarrow> u32 option" where
  "value_setter_step (SetValue new_value) v = Some new_value"

section \<open>The runtime\<close>

text \<open>One constructor for each module of the repository, one for the EVM, and one for the others.\<close>

datatype ('v, 'c) runtime_call =
    ValueSetterCall value_setter_call
  | ObscuraPrivacyCall call_message
  | ObscuraBridgeCall bridge_call_message
  | EvmCall 'v
  | SdkModuleCall 'c

record 'o rollup_state =
  rs_value :: "u32 option"
  rs_bridge :: bridge_state
  rs_sdk :: 'o

datatype runtime_error = PrivacyError pool_error | BridgeError bridge_error | SdkError

text \<open>What the runtime is built from: the crates, the two proof builds of the modules, and the
  modules of the SDK.\<close>

record ('v, 'c, 'o, 'p) runtime_env =
  env_crates :: crates
  env_zk :: zk_backend
  env_bridge_build :: build_features
  env_helios_build :: "'p helios_build"
  evm_module :: "bytes \<Rightarrow> 'v \<Rightarrow> 'o \<Rightarrow> 'o option"
  sdk_module :: "bytes \<Rightarrow> 'c \<Rightarrow> 'o \<Rightarrow> 'o option"

text \<open>Genesis runs the modules in the order of the runtime's fields: the pool before the bridge.\<close>

definition rollup_genesis ::
    "('v, 'c, 'o, 'p) runtime_env \<Rightarrow> bridge_config \<Rightarrow> 'o \<Rightarrow> 'o rollup_state" where
  "rollup_genesis e c o' =
     \<lparr>rs_value = None,
      rs_bridge = bridge_genesis c (empty_bridge_state (pool_genesis (sha256 (env_crates e)) empty_pool_state)),
      rs_sdk = o'\<rparr>"

fun dispatch_call ::
    "('v, 'c, 'o, 'p) runtime_env \<Rightarrow> u64 \<Rightarrow> bytes \<Rightarrow> ('v, 'c) runtime_call \<Rightarrow> 'o rollup_state \<Rightarrow>
     runtime_error + 'o rollup_state" where
  "dispatch_call e now_secs sender (ValueSetterCall m) s =
     Inr (s\<lparr>rs_value := value_setter_step m (rs_value s)\<rparr>)"
| "dispatch_call e now_secs sender (ObscuraPrivacyCall m) s =
     rbind (map_err PrivacyError
       (pool_call (env_crates e) (env_zk e) now_secs sender m (bridge_pool (rs_bridge s)))) (\<lambda>p.
     Inr (s\<lparr>rs_bridge := (rs_bridge s)\<lparr>bridge_pool := p\<rparr>\<rparr>))"
| "dispatch_call e now_secs sender (ObscuraBridgeCall m) s =
     rbind (map_err BridgeError
       (bridge_call (env_crates e) (env_bridge_build e) (env_helios_build e) m (rs_bridge s))) (\<lambda>b.
     Inr (s\<lparr>rs_bridge := b\<rparr>))"
| "dispatch_call e now_secs sender (EvmCall v) s =
     (case evm_module e sender v (rs_sdk s) of None \<Rightarrow> Inl SdkError | Some o' \<Rightarrow> Inr (s\<lparr>rs_sdk := o'\<rparr>))"
| "dispatch_call e now_secs sender (SdkModuleCall c) s =
     (case sdk_module e sender c (rs_sdk s) of None \<Rightarrow> Inl SdkError | Some o' \<Rightarrow> Inr (s\<lparr>rs_sdk := o'\<rparr>))"

section \<open>Authentication\<close>

datatype ('t, 'u) auth_input = EvmInput 't | Eip712Input 'u | StandardInput 'u

datatype ('f, 'h, 'g) auth_error = FatalError 'f 'h | OutOfGas 'g

datatype ('f, 'h, 'g) unregistered_error =
    InvalidAuthenticationDiscriminant | UnregisteredFatal 'f 'h | UnregisteredOutOfGas 'g

text \<open>The SDK's part: decoding the envelope (\<open>borsh\<close>), the three authenticators, which read the
  state, the call decoders, and the hashes. A successful authentication returns the hash of the
  transaction, its authorization data and the call.\<close>

record ('v, 'c, 'o, 'f, 'h, 'g, 'a) sdk_auth =
  decode_input :: "bytes \<Rightarrow> (bytes, bytes) auth_input option"
  deserialization_error :: "bytes \<Rightarrow> 'o \<Rightarrow> ('f, 'h, 'g) auth_error"
  evm_authenticate :: "bytes \<Rightarrow> 'o \<Rightarrow> ('f, 'h, 'g) auth_error + ('h \<times> 'a \<times> 'v)"
  eip712_authenticate :: "bytes \<Rightarrow> 'o \<Rightarrow> ('f, 'h, 'g) auth_error + ('h \<times> 'a \<times> ('v, 'c) runtime_call)"
  standard_authenticate :: "bytes \<Rightarrow> 'o \<Rightarrow> ('f, 'h, 'g) auth_error + ('h \<times> 'a \<times> ('v, 'c) runtime_call)"
  decode_evm_tx :: "bytes \<Rightarrow> ('v \<times> 'h) option"
  decode_sov_tx :: "bytes \<Rightarrow> ('v, 'c) runtime_call option"
  decode_eip712_tx :: "bytes \<Rightarrow> ('v, 'c) runtime_call option"
  calculate_hash :: "bytes \<Rightarrow> 'h"
  sender_of :: "'a \<Rightarrow> bytes"

definition authenticate ::
    "('v, 'c, 'o, 'f, 'h, 'g, 'a) sdk_auth \<Rightarrow> bytes \<Rightarrow> 'o \<Rightarrow>
     ('f, 'h, 'g) auth_error + ('h \<times> 'a \<times> ('v, ('v, 'c) runtime_call) auth_input)" where
  "authenticate au tx st =
     (case decode_input au tx of
        None \<Rightarrow> Inl (deserialization_error au tx st)
      | Some (EvmInput t) \<Rightarrow>
          rbind (evm_authenticate au t st) (\<lambda>(h, a, c). Inr (h, a, EvmInput c))
      | Some (Eip712Input t) \<Rightarrow>
          rbind (eip712_authenticate au t st) (\<lambda>(h, a, c). Inr (h, a, Eip712Input c))
      | Some (StandardInput t) \<Rightarrow>
          rbind (standard_authenticate au t st) (\<lambda>(h, a, c). Inr (h, a, StandardInput c)))"

fun unregistered :: "('f, 'h, 'g) auth_error \<Rightarrow> ('f, 'h, 'g) unregistered_error" where
  "unregistered (FatalError f h) = UnregisteredFatal f h"
| "unregistered (OutOfGas g) = UnregisteredOutOfGas g"

definition authenticate_unregistered ::
    "('v, 'c, 'o, 'f, 'h, 'g, 'a) sdk_auth \<Rightarrow> bytes \<Rightarrow> 'o \<Rightarrow>
     ('f, 'h, 'g) unregistered_error + ('h \<times> 'a \<times> ('v, ('v, 'c) runtime_call) auth_input)" where
  "authenticate_unregistered au tx st =
     (case decode_input au tx of
        Some (StandardInput t) \<Rightarrow>
          rbind (map_err unregistered (standard_authenticate au t st)) (\<lambda>(h, a, c). Inr (h, a, StandardInput c))
      | _ \<Rightarrow> Inl InvalidAuthenticationDiscriminant)"

definition compute_tx_hash :: "('v, 'c, 'o, 'f, 'h, 'g, 'a) sdk_auth \<Rightarrow> bytes \<Rightarrow> 'h option" where
  "compute_tx_hash au tx =
     (case decode_input au tx of
        None \<Rightarrow> None
      | Some (EvmInput t) \<Rightarrow> map_option snd (decode_evm_tx au t)
      | Some (Eip712Input t) \<Rightarrow> Some (calculate_hash au t)
      | Some (StandardInput t) \<Rightarrow> Some (calculate_hash au t))"

definition decode_serialized_tx ::
    "('v, 'c, 'o, 'f, 'h, 'g, 'a) sdk_auth \<Rightarrow> bytes \<Rightarrow> ('v, ('v, 'c) runtime_call) auth_input option" where
  "decode_serialized_tx au tx =
     (case decode_input au tx of
        None \<Rightarrow> None
      | Some (EvmInput t) \<Rightarrow> map_option (\<lambda>(c, h). EvmInput c) (decode_evm_tx au t)
      | Some (StandardInput t) \<Rightarrow> map_option StandardInput (decode_sov_tx au t)
      | Some (Eip712Input t) \<Rightarrow> map_option Eip712Input (decode_eip712_tx au t))"

definition add_standard_auth :: "bytes \<Rightarrow> (bytes, bytes) auth_input" where
  "add_standard_auth raw = StandardInput raw"

definition add_ethereum_auth :: "bytes \<Rightarrow> (bytes, bytes) auth_input" where
  "add_ethereum_auth raw = EvmInput raw"

definition add_eip712_auth :: "bytes \<Rightarrow> (bytes, bytes) auth_input" where
  "add_eip712_auth raw = Eip712Input raw"

fun wrap_call :: "('v, ('v, 'c) runtime_call) auth_input \<Rightarrow> ('v, 'c) runtime_call" where
  "wrap_call (EvmInput call) = EvmCall call"
| "wrap_call (Eip712Input call) = call"
| "wrap_call (StandardInput call) = call"

section \<open>Executing transactions\<close>

type_synonym ('v, 'c) runtime_tx = "u64 \<times> bytes \<times> ('v, 'c) runtime_call"

fun runtime_step ::
    "('v, 'c, 'o, 'p) runtime_env \<Rightarrow> ('v, 'c) runtime_tx \<Rightarrow> 'o rollup_state \<Rightarrow>
     runtime_error + 'o rollup_state" where
  "runtime_step e (now_secs, sender, call) s = dispatch_call e now_secs sender call s"

text \<open>The pool of the rollup, and what an accepted call appends to its commitments.\<close>

abbreviation rs_pool :: "'o rollup_state \<Rightarrow> pool_state" where
  "rs_pool s \<equiv> bridge_pool (rs_bridge s)"

fun call_outputs :: "hash32 \<Rightarrow> ('v, 'c) runtime_call \<Rightarrow> commitment list" where
  "call_outputs sha (ObscuraPrivacyCall m) = msg_outputs sha m"
| "call_outputs sha (ObscuraBridgeCall (ClaimDeposit claim)) = [Commitment (obscura_recipient (claim_inputs claim))]"
| "call_outputs sha _ = []"

text \<open>The keys a call uses up: nullifiers and the bridge's deposit keys.\<close>

fun call_keys :: "crates \<Rightarrow> ('v, 'c) runtime_call \<Rightarrow> (nullifier + string) set" where
  "call_keys cr (ObscuraPrivacyCall m) = Inl ` msg_nullifiers m"
| "call_keys cr (ObscuraBridgeCall m) = Inr ` bridge_keys cr m"
| "call_keys cr _ = {}"

definition used_keys :: "'o rollup_state \<Rightarrow> (nullifier + string) set" where
  "used_keys s = Inl ` spent_set (rs_pool s) \<union> Inr ` processed_set (rs_bridge s)"

section \<open>What a call does to the pool and to the bridge\<close>

lemma bridge_pool_upd [simp]:
  "claims (b\<lparr>bridge_pool := p\<rparr>) = claims b" "withdrawn (b\<lparr>bridge_pool := p\<rparr>) = withdrawn b"
  "heads (b\<lparr>bridge_pool := p\<rparr>) = heads b" "is_processed (b\<lparr>bridge_pool := p\<rparr>) = is_processed b"
  "processed_set (b\<lparr>bridge_pool := p\<rparr>) = processed_set b"
  "contract_of cr (b\<lparr>bridge_pool := p\<rparr>) = contract_of cr b"
  by (simp_all add: claims_def withdrawn_def heads_def is_processed_def fun_eq_iff processed_set_def contract_of_def)

lemma bridge_invs_pool [simp]:
  "claims_inv cr (b\<lparr>bridge_pool := p\<rparr>) \<longleftrightarrow> claims_inv cr b"
  "withdrawals_inv (b\<lparr>bridge_pool := p\<rparr>) \<longleftrightarrow> withdrawals_inv b"
  "heads_inv c (b\<lparr>bridge_pool := p\<rparr>) \<longleftrightarrow> heads_inv c b"
  "finality_inv cr (b\<lparr>bridge_pool := p\<rparr>) \<longleftrightarrow> finality_inv cr b"
  by (simp_all add: claims_inv_def withdrawals_inv_def heads_inv_def finality_inv_def)

text \<open>A claim appends one commitment and adds to the bridged asset's supply; the other bridge
  messages leave the pool alone.\<close>

lemma bridge_call_pool:
  assumes "bridge_call cr build hb m b = Inr b'"
  shows "(\<exists>claim p. m = ClaimDeposit claim \<and>
      append_commitment (sha256 cr) (Commitment (obscura_recipient (claim_inputs claim))) (bridge_pool b) = Inr p \<and>
      bridge_pool b' = p\<lparr>shielded_supply := (shielded_supply p)(bridged_usdc_asset \<mapsto>
        unwrap_or (shielded_supply p bridged_usdc_asset) 0 + amount (claim_inputs claim))\<rparr>) \<or>
    ((\<forall>claim. m \<noteq> ClaimDeposit claim) \<and> bridge_pool b' = bridge_pool b)"
  using assms
  by (cases m) (auto elim!: handle_claim_frame handle_withdraw_frame dest!: handle_helios_frame(2))

lemma supply_upd_inv [simp]:
  "pool_inv sha (p\<lparr>shielded_supply := f\<rparr>) \<longleftrightarrow> pool_inv sha p"
  "spent_set (p\<lparr>shielded_supply := f\<rparr>) = spent_set p"
  by (simp_all add: pool_inv_def filled_at_def [abs_def] spent_set_def is_spent_def)

lemma runtime_step_log:
  assumes "runtime_step e (now_secs, sender, call) s = Inr s'" "pool_inv (sha256 (env_crates e)) (rs_pool s)"
  shows "commitments (rs_pool s') = commitments (rs_pool s) @ call_outputs (sha256 (env_crates e)) call \<and>
    pool_inv (sha256 (env_crates e)) (rs_pool s')"
proof (cases call)
  case (ObscuraPrivacyCall m)
  with assms obtain p where "pool_call (env_crates e) (env_zk e) now_secs sender m (rs_pool s) = Inr p"
    "rs_pool s' = p" by auto
  with pool_call_log assms(2) ObscuraPrivacyCall show ?thesis by auto
next
  case (ObscuraBridgeCall m)
  with assms obtain b where b: "bridge_call (env_crates e) (env_bridge_build e) (env_helios_build e) m (rs_bridge s) = Inr b"
    "rs_bridge s' = b" by auto
  from bridge_call_pool [OF b(1)] show ?thesis
  proof
    assume "\<exists>claim p. m = ClaimDeposit claim \<and>
      append_commitment (sha256 (env_crates e)) (Commitment (obscura_recipient (claim_inputs claim))) (rs_pool s) = Inr p \<and>
      bridge_pool b = p\<lparr>shielded_supply := (shielded_supply p)(bridged_usdc_asset \<mapsto>
        unwrap_or (shielded_supply p bridged_usdc_asset) 0 + amount (claim_inputs claim))\<rparr>"
    then obtain claim p where m: "m = ClaimDeposit claim"
      and p: "append_commitment (sha256 (env_crates e)) (Commitment (obscura_recipient (claim_inputs claim))) (rs_pool s) = Inr p"
      and "commitments (bridge_pool b) = commitments p"
        "pool_inv (sha256 (env_crates e)) (bridge_pool b) = pool_inv (sha256 (env_crates e)) p" by auto
    with tree_log.add_entries [OF assms(2) p] tree_log.add_inv [OF assms(2) p] ObscuraBridgeCall b(2)
    show ?thesis by simp
  next
    assume "(\<forall>claim. m \<noteq> ClaimDeposit claim) \<and> bridge_pool b = rs_pool s"
    with assms(2) ObscuraBridgeCall b(2) show ?thesis by (cases m) auto
  qed
qed (use assms in \<open>auto split: option.splits\<close>)

interpretation runtime_guard: replay_guard "runtime_step e" "\<lambda>tx. call_keys (env_crates e) (snd (snd tx))" used_keys
  for e :: "('v, 'c, 'o, 'p) runtime_env"
proof unfold_locales
  fix tx :: "('v, 'c) runtime_tx" and s s' :: "'o rollup_state"
  assume step: "runtime_step e tx s = Inr s'"
  obtain now_secs sender call where tx: "tx = (now_secs, sender, call)" by (cases tx) auto
  have "call_keys (env_crates e) call \<inter> used_keys s = {} \<and> used_keys s' = used_keys s \<union> call_keys (env_crates e) call"
  proof (cases call)
    case (ObscuraPrivacyCall m)
    with step tx obtain p where "pool_call (env_crates e) (env_zk e) now_secs sender m (rs_pool s) = Inr p"
      "rs_bridge s' = (rs_bridge s)\<lparr>bridge_pool := p\<rparr>" by auto
    with spent_set_pool_call ObscuraPrivacyCall show ?thesis
      by (fastforce simp: used_keys_def)
  next
    case (ObscuraBridgeCall m)
    with step tx obtain b where b: "bridge_call (env_crates e) (env_bridge_build e) (env_helios_build e) m (rs_bridge s) = Inr b"
      "rs_bridge s' = b" by auto
    have "spent_set (bridge_pool b) = spent_set (rs_pool s)"
      using bridge_call_pool [OF b(1)] by (auto dest!: append_commitment_frame simp: spent_set_same_ledger)
    with deposit_guard.fresh [OF b(1)] deposit_guard.consume [OF b(1)] ObscuraBridgeCall b(2) show ?thesis
      by (auto simp: used_keys_def)
  qed (use step tx in \<open>auto simp: used_keys_def split: option.splits\<close>)
  then show "call_keys (env_crates e) (snd (snd tx)) \<inter> used_keys s = {}"
    "used_keys s' = used_keys s \<union> call_keys (env_crates e) (snd (snd tx))"
    by (simp_all add: tx)
qed

section \<open>The supply of an asset\<close>

fun call_deposit :: "asset_id \<Rightarrow> ('v, 'c) runtime_call \<Rightarrow> nat" where
  "call_deposit a (ObscuraPrivacyCall m) = msg_deposit a m"
| "call_deposit a (ObscuraBridgeCall (ClaimDeposit claim)) =
     (if a = bridged_usdc_asset then unat (amount (claim_inputs claim)) else 0)"
| "call_deposit a _ = 0"

fun call_withdrawal :: "asset_id \<Rightarrow> ('v, 'c) runtime_call \<Rightarrow> nat" where
  "call_withdrawal a (ObscuraPrivacyCall m) = msg_withdrawal a m"
| "call_withdrawal a _ = 0"

lemma supply_claim:
  assumes "append_commitment sha c p = Inr q" "supply_of p a + (if a = b then unat v else 0) < 2 ^ 64"
  shows "supply_of (q\<lparr>shielded_supply := (shielded_supply q)(b \<mapsto> unwrap_or (shielded_supply q b) 0 + v)\<rparr>) a =
    supply_of p a + (if a = b then unat v else 0)"
proof -
  from append_commitment_frame [OF assms(1)] have same: "shielded_supply q = shielded_supply p"
    by (simp add: same_ledger_def)
  show ?thesis
  proof (cases "a = b")
    case True
    with assms(2) have "unat (unwrap_or (shielded_supply p b) 0) + unat v < 2 ^ LENGTH(64)"
      by (simp add: supply_of_def)
    then have "unat (unwrap_or (shielded_supply p b) 0 + v) = unat (unwrap_or (shielded_supply p b) 0) + unat v"
      by (rule unat_add_lem [THEN iffD1])
    with True same show ?thesis by (simp add: supply_of_def)
  qed (simp add: supply_of_def same)
qed

interpretation rollup_account: bounded_account "runtime_step e" "\<lambda>s. supply_of (rs_pool s) a"
    "\<lambda>tx. call_deposit a (snd (snd tx))" "\<lambda>tx. call_withdrawal a (snd (snd tx))" "2 ^ 64"
  for e :: "('v, 'c, 'o, 'p) runtime_env" and a
proof unfold_locales
  fix tx :: "('v, 'c) runtime_tx" and s s' :: "'o rollup_state"
  assume step: "runtime_step e tx s = Inr s'"
    and fits: "supply_of (rs_pool s) a + call_deposit a (snd (snd tx)) < 2 ^ 64"
  obtain now_secs sender call where tx: "tx = (now_secs, sender, call)" by (cases tx) auto
  show "supply_of (rs_pool s') a =
      supply_of (rs_pool s) a + call_deposit a (snd (snd tx)) - call_withdrawal a (snd (snd tx))"
  proof (cases call)
    case (ObscuraPrivacyCall m)
    with step tx fits supply_pool_call show ?thesis by fastforce
  next
    case (ObscuraBridgeCall m)
    with step tx obtain b where b: "bridge_call (env_crates e) (env_bridge_build e) (env_helios_build e) m (rs_bridge s) = Inr b"
      "rs_bridge s' = b" by auto
    from bridge_call_pool [OF b(1)] show ?thesis
    proof (elim disjE exE conjE)
      fix claim p
      assume "m = ClaimDeposit claim"
        "append_commitment (sha256 (env_crates e)) (Commitment (obscura_recipient (claim_inputs claim))) (rs_pool s) = Inr p"
        "bridge_pool b = p\<lparr>shielded_supply := (shielded_supply p)(bridged_usdc_asset \<mapsto>
          unwrap_or (shielded_supply p bridged_usdc_asset) 0 + amount (claim_inputs claim))\<rparr>"
      with supply_claim fits tx ObscuraBridgeCall b(2) show ?thesis by fastforce
    next
      assume "\<forall>claim. m \<noteq> ClaimDeposit claim" "bridge_pool b = rs_pool s"
      with tx ObscuraBridgeCall b(2) show ?thesis by (cases m) auto
    qed
  qed (use step tx in \<open>auto split: option.splits\<close>)
qed

end
