(* ===== verification/Rollup_Properties.thy ===== *)
theory Rollup_Properties
  imports Rollup "HOL-Library.Sublist"
begin

text \<open>
  Properties of the whole state transition function, over every sequence of authenticated calls to
  any of its modules from genesis: the pool, the bridge, the EVM and the other modules of the SDK
  interleave arbitrarily, a rejected call leaving the state as it was. They hold for every
  configuration of the bridge, both proof builds and every behaviour of the SDK's modules.
\<close>

definition rollup ::
    "('v, 'c, 'o, 'p) runtime_env \<Rightarrow> bridge_config \<Rightarrow> 'o \<Rightarrow> ('v, 'c) runtime_tx list \<Rightarrow> 'o rollup_state" where
  "rollup e c o' txs = run (runtime_step e) txs (rollup_genesis e c o')"

definition rollup_txs ::
    "('v, 'c, 'o, 'p) runtime_env \<Rightarrow> bridge_config \<Rightarrow> 'o \<Rightarrow> ('v, 'c) runtime_tx list \<Rightarrow> ('v, 'c) runtime_tx list" where
  "rollup_txs e c o' txs = accepted (runtime_step e) txs (rollup_genesis e c o')"

definition outputs_of :: "hash32 \<Rightarrow> ('v, 'c) runtime_tx list \<Rightarrow> commitment list" where
  "outputs_of sha txs = concat (map (\<lambda>tx. call_outputs sha (snd (snd tx))) txs)"

section \<open>The commitment tree\<close>

lemma runtime_run_log:
  fixes s :: "'o rollup_state" and e :: "('v, 'c, 'o, 'p) runtime_env"
  assumes "pool_inv (sha256 (env_crates e)) (rs_pool s)"
  shows "commitments (rs_pool (run (runtime_step e) txs s)) =
      commitments (rs_pool s) @ outputs_of (sha256 (env_crates e)) (accepted (runtime_step e) txs s) \<and>
    pool_inv (sha256 (env_crates e)) (rs_pool (run (runtime_step e) txs s))"
  using assms
proof (induction txs arbitrary: s)
  case (Cons tx txs)
  obtain now_secs sender call where tx: "tx = (now_secs, sender, call)" by (cases tx) auto
  show ?case
  proof (cases "runtime_step e tx s")
    case (Inl err)
    with Cons show ?thesis by simp
  next
    case (Inr s')
    from runtime_step_log [OF Inr [unfolded tx] Cons.prems] Cons.IH [of s'] Inr tx
    show ?thesis by (simp add: outputs_of_def)
  qed
qed (simp add: outputs_of_def)

lemma rollup_genesis_pool [simp]:
  "rs_pool (rollup_genesis e c o') = pool_genesis (sha256 (env_crates e)) empty_pool_state"
  by (simp add: rollup_genesis_def bridge_genesis_def empty_bridge_state_def Let_def)

lemma rollup_log:
  "commitments (rs_pool (rollup e c o' txs)) = outputs_of (sha256 (env_crates e)) (rollup_txs e c o' txs)"
  "pool_inv (sha256 (env_crates e)) (rs_pool (rollup e c o' txs))"
  using runtime_run_log [of e "rollup_genesis e c o'" txs] pool_genesis_inv [of "sha256 (env_crates e)"]
  by (simp_all add: rollup_def rollup_txs_def pool_genesis_def empty_pool_state_def)

text \<open>Property C1. However the calls to the modules interleave, the tree of the pool is a refinement
  of one log: the commitments of accepted shields and transfers and the recipients of accepted
  bridge claims, in the order of the calls. The flat list is that log, it fits the tree, the counter
  is its length and the incrementally maintained root is the root of the full tree over it.\<close>

theorem rollup_tree_refines_log:
  "let p = rs_pool (rollup e c o' txs); cs = outputs_of (sha256 (env_crates e)) (rollup_txs e c o' txs)
   in commitments p = cs \<and> length cs \<le> 2 ^ TREE_DEPTH \<and>
      merkle_next_index p = Some (of_nat (length cs)) \<and>
      merkle_root p = Some (tree_root (sha256 (env_crates e)) (map commitment_bytes cs))"
  using rollup_log [of e c o' txs] by (simp add: pool_inv_def)

section \<open>Replay\<close>

text \<open>Property C4. No call is replayed: the nullifiers and deposit keys that the accepted calls use
  are pairwise disjoint, whichever module spends them, and exactly they are recorded at the end.\<close>

theorem rollup_no_replay:
  "disjoint_list (map (\<lambda>tx. call_keys (env_crates e) (snd (snd tx))) (rollup_txs e c o' txs)) \<and>
   used_keys (rollup e c o' txs) =
     (\<Union>tx \<in> set (rollup_txs e c o' txs). call_keys (env_crates e) (snd (snd tx)))"
proof -
  have "used_keys (rollup_genesis e c o') = {}"
    by (simp add: used_keys_def spent_set_def is_spent_def processed_set_def is_processed_def rollup_genesis_def
        bridge_genesis_def empty_bridge_state_def pool_genesis_def empty_pool_state_def Let_def)
  then show ?thesis
    using runtime_guard.no_replay [of e txs "rollup_genesis e c o'"]
      runtime_guard.spent_run [of e txs "rollup_genesis e c o'"]
    by (simp add: rollup_txs_def rollup_def)
qed

section \<open>The bridge\<close>

lemma runtime_bridge_invariant:
  assumes genesis: "P (rs_bridge (rollup_genesis e c o'))"
    and pool: "\<And>b p. P b \<Longrightarrow> P (b\<lparr>bridge_pool := p\<rparr>)"
    and bridge: "\<And>m b b'. bridge_call (env_crates e) (env_bridge_build e) (env_helios_build e) m b = Inr b' \<Longrightarrow>
      P b \<Longrightarrow> P b'"
  shows "P (rs_bridge (rollup e c o' txs))"
  unfolding rollup_def
proof (rule run_invariant [where P = "\<lambda>s. P (rs_bridge s)", OF genesis])
  fix tx s s'
  assume P: "P (rs_bridge s)" and step: "runtime_step e tx s = Inr s'"
  obtain now_secs sender call where tx: "tx = (now_secs, sender, call)" by (cases tx) auto
  show "P (rs_bridge s')"
  proof (cases call)
    case (ObscuraPrivacyCall m)
    with step tx pool [OF P] show ?thesis by auto
  next
    case (ObscuraBridgeCall m)
    with step tx bridge [OF _ P] show ?thesis by auto
  qed (use step tx P in \<open>auto split: option.splits\<close>)
qed

lemma rollup_bridge_invs:
  fixes e :: "('v, 'c, 'o, 'p) runtime_env"
  shows "claims_inv (env_crates e) (rs_bridge (rollup e c o' txs)) \<and>
    withdrawals_inv (rs_bridge (rollup e c o' txs)) \<and>
    heads_inv (config_helios c) (rs_bridge (rollup e c o' txs))"
proof (rule runtime_bridge_invariant [where P = "\<lambda>b. claims_inv (env_crates e) b \<and> withdrawals_inv b \<and>
    heads_inv (config_helios c) b"])
  show "claims_inv (env_crates e) (rs_bridge (rollup_genesis e c o')) \<and>
      withdrawals_inv (rs_bridge (rollup_genesis e c o')) \<and>
      heads_inv (config_helios c) (rs_bridge (rollup_genesis e c o'))"
    by (simp add: rollup_genesis_def genesis_invs)
qed (auto dest: bridge_call_invs bridge_call_heads)

text \<open>Property C6. The bridge stays sound inside the rollup, whatever the other modules do to the
  shared pool in between: deposits are claimed and withdrawn once, withdrawals are of claimed
  deposits and sum to at most what was claimed, and the trusted heads form a chain.\<close>

theorem rollup_bridge_sound:
  "let b = rs_bridge (rollup e c o' txs); h = config_helios c
   in distinct (map fst (claims b)) \<and> distinct (map fst (withdrawn b)) \<and> set (withdrawn b) \<subseteq> set (claims b) \<and>
      (\<Sum>(i, a)\<leftarrow>withdrawn b. unat a) \<le> (\<Sum>(i, a)\<leftarrow>claims b. unat a) \<and>
      head_chain (max_slot_gap h) (initial_trusted_beacon_root h) (initial_trusted_slot h) (heads b)"
  using rollup_bridge_invs [of e c o' txs]
  by (auto simp: Let_def claims_inv_def withdrawals_inv_def heads_inv_def intro: sub_claims_sum)

section \<open>Bridge claims in the tree\<close>

fun recipient_of :: "bridge_event \<Rightarrow> commitment option" where
  "recipient_of (DepositClaimed deposit r amt h) = Some (Commitment r)"
| "recipient_of _ = None"

definition claim_recipients :: "bridge_state \<Rightarrow> commitment list" where
  "claim_recipients b = List.map_filter recipient_of (bridge_events b)"

lemma claim_recipients_call:
  assumes "bridge_call cr build hb m b = Inr b'"
  shows "claim_recipients b' = claim_recipients b @
    (case m of ClaimDeposit claim \<Rightarrow> [Commitment (obscura_recipient (claim_inputs claim))] | _ \<Rightarrow> [])"
  using assms
  by (cases m) (auto elim!: handle_claim_frame handle_withdraw_frame dest!: handle_helios_frame(2)
      simp: claim_recipients_def List.map_filter_def)

lemma claim_recipients_pool [simp]: "claim_recipients (b\<lparr>bridge_pool := p\<rparr>) = claim_recipients b"
  by (simp add: claim_recipients_def)

text \<open>Property C10. Every claimed deposit has its commitment in the pool: the recipients in the
  bridge's claim events, in their order, are a subsequence of the leaves of the tree.\<close>

theorem claimed_deposits_in_tree:
  "subseq (claim_recipients (rs_bridge (rollup e c o' txs))) (commitments (rs_pool (rollup e c o' txs)))"
proof -
  let ?P = "\<lambda>s. pool_inv (sha256 (env_crates e)) (rs_pool s) \<and>
    subseq (claim_recipients (rs_bridge s)) (commitments (rs_pool s))"
  have "?P (rollup e c o' txs)"
    unfolding rollup_def
  proof (rule run_invariant [where P = ?P])
    show "?P (rollup_genesis e c o')"
      using pool_genesis_inv [of "sha256 (env_crates e)"]
      by (simp add: rollup_genesis_def bridge_genesis_def empty_bridge_state_def Let_def claim_recipients_def
          List.map_filter_def)
  next
    fix tx s s'
    assume P: "?P s" and step: "runtime_step e tx s = Inr s'"
    obtain now_secs sender call where tx: "tx = (now_secs, sender, call)" by (cases tx) auto
    from runtime_step_log [OF step [unfolded tx]] P
    have log: "commitments (rs_pool s') = commitments (rs_pool s) @ call_outputs (sha256 (env_crates e)) call"
      "pool_inv (sha256 (env_crates e)) (rs_pool s')" by blast+
    have "\<exists>rs. claim_recipients (rs_bridge s') = claim_recipients (rs_bridge s) @ rs \<and>
        subseq rs (call_outputs (sha256 (env_crates e)) call)"
    proof (cases call)
      case (ObscuraPrivacyCall m)
      with step tx show ?thesis by auto
    next
      case (ObscuraBridgeCall m)
      with step tx obtain b where "bridge_call (env_crates e) (env_bridge_build e) (env_helios_build e) m (rs_bridge s) = Inr b"
        "rs_bridge s' = b" by auto
      with claim_recipients_call ObscuraBridgeCall show ?thesis by (cases m) fastforce+
    qed (use step tx in \<open>auto split: option.splits\<close>)
    with P log show "?P s'" by (auto intro: list_emb_append_mono)
  qed
  then show ?thesis by blast
qed

section \<open>The bridged asset\<close>

text \<open>Property C11. While the credits of an asset stay below \<open>2 ^ 64\<close>, its shielded supply in the
  rollup lies between what was shielded and bridged less what was unshielded, and what was shielded
  and bridged: claims and shields add exactly their amounts, whatever is interleaved.\<close>

theorem rollup_supply_bounds:
  assumes "(\<Sum>tx\<leftarrow>rollup_txs e c o' txs. call_deposit a (snd (snd tx))) < 2 ^ 64"
  shows "supply_of (rs_pool (rollup e c o' txs)) a \<le> (\<Sum>tx\<leftarrow>rollup_txs e c o' txs. call_deposit a (snd (snd tx))) \<and>
    (\<Sum>tx\<leftarrow>rollup_txs e c o' txs. call_deposit a (snd (snd tx))) \<le>
      supply_of (rs_pool (rollup e c o' txs)) a + (\<Sum>tx\<leftarrow>rollup_txs e c o' txs. call_withdrawal a (snd (snd tx)))"
proof -
  have "supply_of (rs_pool (rollup_genesis e c o')) a = 0"
    by (simp add: supply_of_def pool_genesis_def empty_pool_state_def)
  then show ?thesis
    using rollup_account.balance_run [where e = e and a = a and s = "rollup_genesis e c o'" and ms = txs] assms
    by (simp add: rollup_def rollup_txs_def)
qed

section \<open>Authentication\<close>

text \<open>The path for unregistered sequencers admits exactly the standard transactions:
  it succeeds with a result if and only if the envelope is a standard one and the ordinary path
  succeeds with the same result.\<close>

lemma unregistered_agrees:
  "authenticate_unregistered au tx st = Inr res \<longleftrightarrow>
     authenticate au tx st = Inr res \<and>
     (case decode_input au tx of Some (StandardInput t) \<Rightarrow> True | _ \<Rightarrow> False)"
  by (auto simp: authenticate_unregistered_def authenticate_def split: option.splits auth_input.splits)

text \<open>A transaction in an Ethereum envelope reaches the EVM only: when it is
  authenticated and its wrapped call dispatched, the pool, the bridge and the value setter keep
  their state, and the EVM module alone decides whether it is accepted.\<close>

lemma evm_transactions_isolated:
  assumes "decode_input au tx = Some (add_ethereum_auth raw)" "authenticate au tx st = Inr (h, a, call)"
  shows "\<exists>v. wrap_call call = EvmCall v \<and>
    dispatch_call e now_secs (sender_of au a) (wrap_call call) s =
      (case evm_module e (sender_of au a) v (rs_sdk s) of
         None \<Rightarrow> Inl SdkError
       | Some o' \<Rightarrow> Inr \<lparr>rs_value = rs_value s, rs_bridge = rs_bridge s, rs_sdk = o'\<rparr>)"
  using assms by (auto simp: authenticate_def add_ethereum_auth_def split: option.split)

section \<open>Witnesses\<close>

definition demo_env :: "(bytes, unit, nat, unit) runtime_env" where
  "demo_env = \<lparr>env_crates = sample_crates, env_zk = Mock, env_bridge_build = DefaultBuild,
     env_helios_build = HeliosDefault, evm_module = (\<lambda>sender v n. Some (Suc n)), sdk_module = (\<lambda>sender c n. None)\<rparr>"

definition demo_auth :: "(bytes, unit, nat, unit, unit, unit, unit) sdk_auth" where
  "demo_auth = \<lparr>decode_input = (\<lambda>bs. Some (EvmInput bs)), deserialization_error = (\<lambda>bs st. OutOfGas ()),
     evm_authenticate = (\<lambda>bs st. Inr ((), (), bs)), eip712_authenticate = (\<lambda>bs st. Inl (OutOfGas ())),
     standard_authenticate = (\<lambda>bs st. Inl (OutOfGas ())), decode_evm_tx = (\<lambda>bs. Some (bs, ())),
     decode_sov_tx = (\<lambda>bs. None), decode_eip712_tx = (\<lambda>bs. None), calculate_hash = (\<lambda>bs. ()),
     sender_of = (\<lambda>a. [])\<rparr>"

lemma evm_transactions_isolated_example:
  "\<exists>v. wrap_call (EvmInput [1] :: (bytes, (bytes, unit) runtime_call) auth_input) = EvmCall v \<and>
     dispatch_call demo_env 0 [] (EvmCall v) (rollup_genesis demo_env default_bridge_config 5) =
       Inr ((rollup_genesis demo_env default_bridge_config 5)\<lparr>rs_sdk := 6\<rparr>)"
proof -
  have auth: "decode_input demo_auth [1] = Some (add_ethereum_auth [1])"
    "authenticate demo_auth [1] 0 = Inr ((), (), EvmInput [1])"
    by (simp_all add: demo_auth_def authenticate_def add_ethereum_auth_def)
  from evm_transactions_isolated [OF auth, of demo_env 0 "rollup_genesis demo_env default_bridge_config 5"]
  show ?thesis by (auto simp: demo_env_def demo_auth_def rollup_genesis_def)
qed

definition demo_txs :: "(bytes, unit) runtime_tx list" where
  "demo_txs = [(0, [], EvmCall []),
     (0, [], ObscuraPrivacyCall (Shield \<lparr>shield_note = sample_note, encrypted_note = []\<rparr>))]"

lemma demo_txs_accepted: "rollup_txs demo_env default_bridge_config n demo_txs = demo_txs"
proof -
  let ?g = "rollup_genesis demo_env default_bridge_config n\<lparr>rs_sdk := Suc n\<rparr>"
  let ?m = "\<lparr>shield_note = sample_note, encrypted_note = []\<rparr>"
  have evm: "runtime_step demo_env (0, [], EvmCall []) (rollup_genesis demo_env default_bridge_config n) = Inr ?g"
    by (simp add: demo_env_def rollup_genesis_def)
  have pool: "rs_pool ?g = pool_genesis (sha256 sample_crates) empty_pool_state"
    using rollup_genesis_pool [of demo_env default_bridge_config n] by (simp add: demo_env_def)
  obtain p where "pool_step sample_crates Mock (0, [], Shield ?m) (rs_pool ?g) = Inr p"
    using shield_ok [of ?m sample_crates "rs_pool ?g" Mock 0 "[]"] pool_genesis_inv [of "sha256 sample_crates"]
    unfolding pool by (auto simp: sample_note_def pool_genesis_def empty_pool_state_def)
  then obtain s where "runtime_step demo_env (0, [], ObscuraPrivacyCall (Shield ?m)) ?g = Inr s"
    by (auto simp: demo_env_def)
  with evm show ?thesis by (simp add: rollup_txs_def demo_txs_def del: runtime_step.simps)
qed

theorem rollup_supply_bounds_witness:
  "supply_of (rs_pool (rollup demo_env default_bridge_config 0 demo_txs)) (AssetId 7) = 5"
proof -
  have "(\<Sum>tx\<leftarrow>demo_txs. call_deposit (AssetId 7) (snd (snd tx))) = 5"
    "(\<Sum>tx\<leftarrow>demo_txs. call_withdrawal (AssetId 7) (snd (snd tx))) = 0"
    by (simp_all add: demo_txs_def sample_note_def)
  with rollup_supply_bounds [where e = demo_env and c = default_bridge_config and o' = 0 and txs = demo_txs
      and a = "AssetId 7"]
  show ?thesis by (simp add: demo_txs_accepted)
qed

end
