(* ===== verification/Delegation.thy ===== *)
theory Delegation
  imports Rollup
begin

text \<open>
  What the runtime hands to the SDK besides calls (\<open>crates/stf/src/delegation.rs\<close>, \<open>runtime.rs\<close>): the hooks
  of blocks and transactions, the capabilities (fees, accounts, sequencers) and the kernel. The runtime
  forwards the hooks to the modules; none of the modules of this repository has hooks of its own, so
  they act on the modules of the SDK, whose behaviour is a parameter. Capabilities and kernel get
  handles on some fields of the runtime only. How the SDK's blueprint executes blocks and transactions
  with them is not part of this repository and not modelled.
\<close>

section \<open>The modules of the SDK\<close>

datatype sdk_field =
    Accounts | Uniqueness | Bank | SequencerRegistry | OperatorIncentives | AttesterIncentives
  | ProverIncentives | ChainState | BlobStorage | Paymaster | RevenueShare | Mailbox
  | InterchainGasPaymaster | MerkleTreeHook | Warp | Evm

type_synonym 'm sdk_state = "sdk_field \<Rightarrow> 'm"

definition capability_fields :: "sdk_field list" where
  "capability_fields =
     [Bank, SequencerRegistry, Accounts, Uniqueness, Paymaster, ChainState, OperatorIncentives,
      AttesterIncentives, ProverIncentives]"

definition kernel_fields :: "sdk_field list" where
  "kernel_fields = [ChainState, BlobStorage]"

text \<open>What code does with handles on some of the fields: it sees and changes only these.\<close>

definition through :: "sdk_field list \<Rightarrow> ((sdk_field \<Rightarrow> 'm option) \<Rightarrow> sdk_field \<Rightarrow> 'm option) \<Rightarrow> 'm sdk_state \<Rightarrow> 'm sdk_state" where
  "through ms f st =
     (\<lambda>m. if m \<in> set ms
          then (case f (\<lambda>n. if n \<in> set ms then Some (st n) else None) m of None \<Rightarrow> st m | Some x \<Rightarrow> x)
          else st m)"

definition capabilities ::
    "((sdk_field \<Rightarrow> 'm option) \<Rightarrow> sdk_field \<Rightarrow> 'm option) \<Rightarrow> 'm sdk_state rollup_state \<Rightarrow> 'm sdk_state rollup_state" where
  "capabilities f s = s\<lparr>rs_sdk := through capability_fields f (rs_sdk s)\<rparr>"

definition kernel_inner ::
    "((sdk_field \<Rightarrow> 'm option) \<Rightarrow> sdk_field \<Rightarrow> 'm option) \<Rightarrow> 'm sdk_state rollup_state \<Rightarrow> 'm sdk_state rollup_state" where
  "kernel_inner f s = s\<lparr>rs_sdk := through kernel_fields f (rs_sdk s)\<rparr>"

text \<open>The address of a sender: the accounts module maps a credential to it, \<open>default\<close> if it knows none.\<close>

definition resolve_address :: "('m \<Rightarrow> 'w \<Rightarrow> 'd \<Rightarrow> 'e + 'w) \<Rightarrow> 'w \<Rightarrow> 'd \<Rightarrow> 'm sdk_state rollup_state \<Rightarrow> 'e + 'w" where
  "resolve_address read_only default_address credential s = read_only (rs_sdk s Accounts) default_address credential"

section \<open>Hooks\<close>

text \<open>The hooks of all modules together. A hook of a transaction may fail, which \<open>Inl ()\<close> stands for; \<open>'a\<close> is what the
  authentication knows of the transaction.\<close>

record ('o, 'a) sdk_hooks =
  block_begin :: "bytes32 \<Rightarrow> 'o \<Rightarrow> 'o"
  block_end :: "'o \<Rightarrow> 'o"
  before_tx :: "'a \<Rightarrow> 'o \<Rightarrow> 'o option"
  after_tx :: "'a \<Rightarrow> 'o \<Rightarrow> 'o option"

definition begin_rollup_block_hook :: "('o, 'a) sdk_hooks \<Rightarrow> bytes32 \<Rightarrow> 'o rollup_state \<Rightarrow> 'o rollup_state" where
  "begin_rollup_block_hook hs visible_hash s = s\<lparr>rs_sdk := block_begin hs visible_hash (rs_sdk s)\<rparr>"

definition end_rollup_block_hook :: "('o, 'a) sdk_hooks \<Rightarrow> 'o rollup_state \<Rightarrow> 'o rollup_state" where
  "end_rollup_block_hook hs s = s\<lparr>rs_sdk := block_end hs (rs_sdk s)\<rparr>"

definition pre_dispatch_tx_hook :: "('o, 'a) sdk_hooks \<Rightarrow> 'a \<Rightarrow> 'o rollup_state \<Rightarrow> unit + 'o rollup_state" where
  "pre_dispatch_tx_hook hs a s =
     (case before_tx hs a (rs_sdk s) of None \<Rightarrow> Inl () | Some o' \<Rightarrow> Inr (s\<lparr>rs_sdk := o'\<rparr>))"

definition post_dispatch_tx_hook :: "('o, 'a) sdk_hooks \<Rightarrow> 'a \<Rightarrow> 'o rollup_state \<Rightarrow> unit + 'o rollup_state" where
  "post_dispatch_tx_hook hs a s =
     (case after_tx hs a (rs_sdk s) of None \<Rightarrow> Inl () | Some o' \<Rightarrow> Inr (s\<lparr>rs_sdk := o'\<rparr>))"

section \<open>What capabilities cannot reach\<close>

lemma through_frame: "m \<notin> set ms \<Longrightarrow> through ms f st m = st m"
  by (simp add: through_def)

lemma through_sees:
  assumes "\<And>m. m \<in> set ms \<Longrightarrow> st m = st' m" "m \<in> set ms"
  shows "through ms f st m = through ms f st' m"
proof -
  have "(\<lambda>n. if n \<in> set ms then Some (st n) else None) = (\<lambda>n. if n \<in> set ms then Some (st' n) else None)"
    using assms(1) by auto
  with assms show ?thesis by (simp add: through_def split: option.split)
qed

text \<open>Fees and rewards move no state of the EVM or of the bridge to other chains.\<close>

lemma capabilities_frame:
  "m \<in> {Evm, Warp, Mailbox, MerkleTreeHook, InterchainGasPaymaster, RevenueShare, BlobStorage} \<Longrightarrow>
     rs_sdk (capabilities f s) m = rs_sdk s m"
  "m \<in> {Evm, Warp, Mailbox, MerkleTreeHook, InterchainGasPaymaster, RevenueShare, Bank, Accounts} \<Longrightarrow>
     rs_sdk (kernel_inner f s) m = rs_sdk s m"
  by (auto simp: capabilities_def kernel_inner_def capability_fields_def kernel_fields_def intro!: through_frame)

text \<open>The capabilities reach nothing of the bridge to other chains and of the EVM, the kernel nothing of the
  bank and the accounts: for instance, fees raise the balance of the bank and nothing else here.\<close>

lemma fees_example:
  "let s = \<lparr>rs_value = v, rs_bridge = b, rs_sdk = (\<lambda>m. 0 :: nat)\<rparr>;
       s' = capabilities (\<lambda>see m. if m = Bank \<or> m = Evm then map_option Suc (see m) else None) s
   in rs_sdk s' Bank = 1 \<and> rs_sdk s' Evm = 0 \<and> rs_sdk s' Warp = 0"
  by (simp add: capabilities_def through_def capability_fields_def)

end
