(* ===== verification/Guest_Helios.thy ===== *)
theory Guest_Helios
  imports Merkle
begin

unbundle bit_operations_syntax

text \<open>
  \<open>crates/provers/sp1/guest-helios\<close>: the SSZ functions (\<open>src/ssz.rs\<close>) and the circuit that proves
  one step of the Ethereum light client (\<open>src/bin/helios_step.rs\<close>). Arrays of 32-byte hashes are
  lists; the branch verification checks their length. The lemmas show that the header root is the
  root of the SSZ tree over the padded fields and that branches bind their leaves.
\<close>

section \<open>SSZ\<close>

record beacon_block_header =
  slot :: u64
  proposer_index :: u64
  parent_root :: bytes32
  state_root :: bytes32
  body_root :: bytes32

definition sha256_pair :: "hash32 \<Rightarrow> bytes32 \<Rightarrow> bytes32 \<Rightarrow> bytes32" where
  "sha256_pair sha left right = sha (b32 left @ b32 right)"

definition merkle_root_8 :: "hash32 \<Rightarrow> bytes32 list \<Rightarrow> bytes32" where
  "merkle_root_8 sha leaves =
     (let n0 = sha256_pair sha (leaves ! 0) (leaves ! 1);
          n1 = sha256_pair sha (leaves ! 2) (leaves ! 3);
          n2 = sha256_pair sha (leaves ! 4) (leaves ! 5);
          n3 = sha256_pair sha (leaves ! 6) (leaves ! 7);
          m0 = sha256_pair sha n0 n1;
          m1 = sha256_pair sha n2 n3
      in sha256_pair sha m0 m1)"

definition header_leaves :: "beacon_block_header \<Rightarrow> bytes32 list" where
  "header_leaves h =
     [array32 (le8 (slot h) @ replicate 24 0), array32 (le8 (proposer_index h) @ replicate 24 0),
      parent_root h, state_root h, body_root h, 0, 0, 0]"

definition hash_tree_root_beacon_header :: "hash32 \<Rightarrow> beacon_block_header \<Rightarrow> bytes32" where
  "hash_tree_root_beacon_header sha h = merkle_root_8 sha (header_leaves h)"

definition hash_tree_root_fork_data :: "hash32 \<Rightarrow> bytes4 \<Rightarrow> bytes32 \<Rightarrow> bytes32" where
  "hash_tree_root_fork_data sha fork_version genesis_validators_root =
     sha256_pair sha (array32 (b4 fork_version @ replicate 28 0)) genesis_validators_root"

definition DOMAIN_SYNC_COMMITTEE :: bytes4 where
  "DOMAIN_SYNC_COMMITTEE = 0x07000000"

definition compute_domain :: "hash32 \<Rightarrow> bytes4 \<Rightarrow> bytes4 \<Rightarrow> bytes32 \<Rightarrow> bytes32" where
  "compute_domain sha domain_type fork_version genesis_validators_root =
     (let fork_data_root = hash_tree_root_fork_data sha fork_version genesis_validators_root
      in array32 (b4 domain_type @ take 28 (b32 fork_data_root)))"

definition compute_signing_root :: "hash32 \<Rightarrow> bytes32 \<Rightarrow> bytes32 \<Rightarrow> bytes32" where
  "compute_signing_root sha header_root domain = sha256_pair sha header_root domain"

fun branch_loop :: "hash32 \<Rightarrow> u64 \<Rightarrow> nat \<Rightarrow> bytes32 \<Rightarrow> bytes32 list \<Rightarrow> bytes32" where
  "branch_loop sha leaf_idx i value [] = value"
| "branch_loop sha leaf_idx i value (sibling # rest) =
     branch_loop sha leaf_idx (Suc i)
       (if drop_bit i leaf_idx AND 1 = 1 then sha256_pair sha sibling value
        else sha256_pair sha value sibling) rest"

definition verify_merkle_branch :: "hash32 \<Rightarrow> bytes32 \<Rightarrow> bytes32 list \<Rightarrow> nat \<Rightarrow> u64 \<Rightarrow> bytes32 \<Rightarrow> bool" where
  "verify_merkle_branch sha leaf branch depth index root =
     (if length branch \<noteq> depth then False else branch_loop sha index 0 leaf branch = root)"

section \<open>The circuit\<close>

record helios_witness =
  hw_prev_trusted_root :: bytes32
  attested_header :: beacon_block_header
  finalized_header :: beacon_block_header
  finality_branch :: "bytes32 list"
  sync_committee_participation :: u16
  sync_aggregate_signature :: bytes96
  sync_committee_pubkey :: bytes48
  fork_version :: bytes4
  genesis_validators_root :: bytes32
  execution_payload_root :: bytes32
  body_to_exec_branch :: "bytes32 list"
  hw_execution_block_hash :: bytes32
  exec_to_hash_branch :: "bytes32 list"

record helios_public_outputs =
  ho_prev_trusted_root :: bytes32
  ho_new_beacon_root :: bytes32
  ho_new_slot :: u64
  ho_execution_block_hash :: bytes32

definition MIN_SYNC_COMMITTEE_PARTICIPATION :: u16 where "MIN_SYNC_COMMITTEE_PARTICIPATION = 342"
definition FINALIZED_ROOT_DEPTH :: nat where "FINALIZED_ROOT_DEPTH = 6"
definition FINALIZED_ROOT_LEAF_INDEX :: u64 where "FINALIZED_ROOT_LEAF_INDEX = 41"
definition BODY_TO_EXEC_DEPTH :: nat where "BODY_TO_EXEC_DEPTH = 4"
definition BODY_TO_EXEC_LEAF_INDEX :: u64 where "BODY_TO_EXEC_LEAF_INDEX = 9"
definition EXEC_TO_HASH_DEPTH :: nat where "EXEC_TO_HASH_DEPTH = 5"
definition EXEC_TO_HASH_LEAF_INDEX :: u64 where "EXEC_TO_HASH_LEAF_INDEX = 12"

datatype helios_panic =
    ZeroFinalizedSlot | FinalizedAfterAttested | FinalityBranchInvalid | InsufficientParticipation
  | ZeroSignature | ZeroPubkey | PayloadBranchInvalid | BlockHashBranchInvalid

definition helios_main :: "hash32 \<Rightarrow> helios_witness \<Rightarrow> helios_panic + helios_public_outputs" where
  "helios_main sha w =
     (let finalized_header_root = hash_tree_root_beacon_header sha (finalized_header w);
          attested_header_root = hash_tree_root_beacon_header sha (attested_header w)
      in rbind (ensure (slot (finalized_header w) > 0) ZeroFinalizedSlot) (\<lambda>_.
         rbind (ensure (slot (finalized_header w) \<le> slot (attested_header w)) FinalizedAfterAttested) (\<lambda>_.
         rbind (ensure (verify_merkle_branch sha finalized_header_root (finality_branch w)
                          FINALIZED_ROOT_DEPTH FINALIZED_ROOT_LEAF_INDEX (state_root (attested_header w)))
                 FinalityBranchInvalid) (\<lambda>_.
         rbind (ensure (sync_committee_participation w \<ge> MIN_SYNC_COMMITTEE_PARTICIPATION)
                 InsufficientParticipation) (\<lambda>_.
         rbind (ensure (sync_aggregate_signature w \<noteq> 0) ZeroSignature) (\<lambda>_.
         rbind (ensure (sync_committee_pubkey w \<noteq> 0) ZeroPubkey) (\<lambda>_.
           let domain = compute_domain sha DOMAIN_SYNC_COMMITTEE (fork_version w) (genesis_validators_root w);
               signing_root = compute_signing_root sha attested_header_root domain
           in rbind (ensure (verify_merkle_branch sha (execution_payload_root w) (body_to_exec_branch w)
                               BODY_TO_EXEC_DEPTH BODY_TO_EXEC_LEAF_INDEX (body_root (finalized_header w)))
                      PayloadBranchInvalid) (\<lambda>_.
              rbind (ensure (verify_merkle_branch sha (hw_execution_block_hash w) (exec_to_hash_branch w)
                               EXEC_TO_HASH_DEPTH EXEC_TO_HASH_LEAF_INDEX (execution_payload_root w))
                      BlockHashBranchInvalid) (\<lambda>_.
              Inr \<lparr>ho_prev_trusted_root = hw_prev_trusted_root w,
                   ho_new_beacon_root = finalized_header_root,
                   ho_new_slot = slot (finalized_header w),
                   ho_execution_block_hash = hw_execution_block_hash w\<rparr>)))))))))"

section \<open>Branches and trees\<close>

lemma sha256_pair_eq: "sha256_pair = hash_pair"
  by (simp add: fun_eq_iff sha256_pair_def hash_pair_def)

lemma drop_bit_and_one_iff: "drop_bit i (w :: u64) AND 1 = 1 \<longleftrightarrow> odd (unat w div 2 ^ i)"
proof -
  have "drop_bit i w AND 1 = 1 \<longleftrightarrow> \<not> drop_bit i w AND 1 = 0"
    by (simp add: and_one_eq odd_iff_mod_2_eq_one)
  then show ?thesis
    unfolding word_and_one_eq_0_iff unat_drop_bit_eq by (simp add: drop_bit_eq_div)
qed

lemma branch_loop_climb: "branch_loop sha w i x ss = climb (hash_pair sha) (unat w div 2 ^ i) x ss"
proof (induction ss arbitrary: x i)
  case (Cons s ss)
  show ?case
    unfolding branch_loop.simps climb.simps drop_bit_and_one_iff Cons.IH div_pow_Suc sha256_pair_eq
    by simp
qed simp

lemma verify_merkle_branch_iff:
  "verify_merkle_branch sha x ss d w r \<longleftrightarrow> length ss = d \<and> climb (hash_pair sha) (unat w) x ss = r"
  by (simp add: verify_merkle_branch_def branch_loop_climb)

lemma hash_tree_root_tree:
  "hash_tree_root_beacon_header sha h = tree_node (hash_pair sha) ((!) (header_leaves h)) 3 0"
  by (simp add: hash_tree_root_beacon_header_def merkle_root_8_def sha256_pair_eq Let_def eval_nat_numeral)

lemma le8_padded_inject: "array32 (le8 a @ replicate 24 0) = array32 (le8 b @ replicate 24 0) \<longleftrightarrow> a = b"
proof -
  have "b32 (array32 (le8 x @ replicate 24 0)) = le8 x @ replicate 24 0" for x
    by (rule b32_array32) simp
  then show ?thesis by (metis append_le8_inject)
qed

lemma header_leaves_inject: "header_leaves g = header_leaves h \<longleftrightarrow> g = (h :: beacon_block_header)"
  by (auto simp: header_leaves_def le8_padded_inject)

lemma helios_main_Inr_iff:
  "helios_main sha w = Inr out \<longleftrightarrow>
     0 < slot (finalized_header w) \<and> slot (finalized_header w) \<le> slot (attested_header w) \<and>
     342 \<le> unat (sync_committee_participation w) \<and>
     sync_aggregate_signature w \<noteq> 0 \<and> sync_committee_pubkey w \<noteq> 0 \<and>
     length (finality_branch w) = 6 \<and> length (body_to_exec_branch w) = 4 \<and> length (exec_to_hash_branch w) = 5 \<and>
     climb (hash_pair sha) 41 (hash_tree_root_beacon_header sha (finalized_header w)) (finality_branch w) =
       state_root (attested_header w) \<and>
     climb (hash_pair sha) 9 (execution_payload_root w) (body_to_exec_branch w) = body_root (finalized_header w) \<and>
     climb (hash_pair sha) 12 (hw_execution_block_hash w) (exec_to_hash_branch w) = execution_payload_root w \<and>
     out = \<lparr>ho_prev_trusted_root = hw_prev_trusted_root w,
            ho_new_beacon_root = hash_tree_root_beacon_header sha (finalized_header w),
            ho_new_slot = slot (finalized_header w), ho_execution_block_hash = hw_execution_block_hash w\<rparr>"
  by (auto simp: helios_main_def Let_def verify_merkle_branch_iff FINALIZED_ROOT_DEPTH_def
      FINALIZED_ROOT_LEAF_INDEX_def BODY_TO_EXEC_DEPTH_def BODY_TO_EXEC_LEAF_INDEX_def EXEC_TO_HASH_DEPTH_def
      EXEC_TO_HASH_LEAF_INDEX_def MIN_SYNC_COMMITTEE_PARTICIPATION_def word_le_nat_alt)

section \<open>Properties\<close>

text \<open>The preimages hashed along a branch of length d and by the tree on the way to its leaf.\<close>

definition branch_preimages :: "hash32 \<Rightarrow> (nat \<Rightarrow> bytes32) \<Rightarrow> nat \<Rightarrow> nat \<Rightarrow> bytes32 \<Rightarrow> bytes32 list \<Rightarrow> bytes set" where
  "branch_preimages sha f d i x ss =
     set (path_pres pair_pre (hash_pair sha) i x ss) \<union> set (trunk_pres pair_pre (hash_pair sha) f d i)"

lemma branch_binds:
  assumes "length ss = d" "inj_on sha (branch_preimages sha f d i x ss)"
    and "climb (hash_pair sha) i x ss = tree_node (hash_pair sha) f d 0" "i < 2 ^ d"
  shows "x = f i"
proof -
  have "climb (hash_pair sha) i x ss = tree_node (hash_pair sha) f (length ss) (i div 2 ^ length ss)"
    using assms(1,3,4) by simp
  from pool.climb_binding [OF this] assms(1,2) show ?thesis
    unfolding branch_preimages_def by blast
qed

text \<open>Property C13. An accepted light-client step proves what it claims about the attested header:
  when the attested state, the finalized body and its execution payload are SSZ trees with leaves
  \<open>state\<close>, \<open>body\<close> and \<open>payload\<close>, the new trusted root is leaf 41 of the attested state and the root
  of a header with the committed positive slot, and the committed block hash is field 12 of the
  payload that is field 9 of that header's body; unless the hash collides on the branches.\<close>

theorem helios_step_sound:
  assumes "helios_main sha w = Inr out"
    and "state_root (attested_header w) = tree_node (hash_pair sha) state 6 0"
    and "body_root (finalized_header w) = tree_node (hash_pair sha) body 4 0"
    and "body 9 = tree_node (hash_pair sha) payload 5 0"
    and "inj_on sha (branch_preimages sha state 6 41 (ho_new_beacon_root out) (finality_branch w))"
    and "inj_on sha (branch_preimages sha body 4 9 (execution_payload_root w) (body_to_exec_branch w))"
    and "inj_on sha (branch_preimages sha payload 5 12 (ho_execution_block_hash out) (exec_to_hash_branch w))"
  shows "ho_new_beacon_root out = state 41 \<and> ho_execution_block_hash out = payload 12 \<and>
    ho_new_beacon_root out = hash_tree_root_beacon_header sha (finalized_header w) \<and>
    ho_new_slot out = slot (finalized_header w) \<and> 0 < ho_new_slot out \<and>
    ho_new_slot out \<le> slot (attested_header w)"
proof -
  note acc = assms(1) [unfolded helios_main_Inr_iff]
  from acc have out: "ho_new_beacon_root out = hash_tree_root_beacon_header sha (finalized_header w)"
      "ho_new_slot out = slot (finalized_header w)" "ho_execution_block_hash out = hw_execution_block_hash w"
    and len: "length (finality_branch w) = 6" "length (body_to_exec_branch w) = 4"
      "length (exec_to_hash_branch w) = 5" by simp_all
  from acc assms(2) have "climb (hash_pair sha) 41 (ho_new_beacon_root out) (finality_branch w) =
      tree_node (hash_pair sha) state 6 0" by simp
  then have new: "ho_new_beacon_root out = state 41"
    by (rule branch_binds [OF len(1) assms(5)]) simp
  from acc assms(3) have "climb (hash_pair sha) 9 (execution_payload_root w) (body_to_exec_branch w) =
      tree_node (hash_pair sha) body 4 0" by simp
  then have "execution_payload_root w = body 9"
    by (rule branch_binds [OF len(2) assms(6)]) simp
  with acc assms(4) have "climb (hash_pair sha) 12 (ho_execution_block_hash out) (exec_to_hash_branch w) =
      tree_node (hash_pair sha) payload 5 0" by simp
  then have "ho_execution_block_hash out = payload 12"
    by (rule branch_binds [OF len(3) assms(7)]) simp
  with new out acc show ?thesis by simp
qed

text \<open>The header root is the root of the SSZ tree of depth three over the five padded
  fields, and it determines the header unless the hash collides on the two trees' nodes.\<close>

lemma header_root_binds_header:
  assumes "hash_tree_root_beacon_header sha g = hash_tree_root_beacon_header sha h"
    and "inj_on sha (set (tree_pres pair_pre (hash_pair sha) ((!) (header_leaves g)) 3 0) \<union>
                     set (tree_pres pair_pre (hash_pair sha) ((!) (header_leaves h)) 3 0))"
  shows "g = h"
proof -
  let ?S = "set (tree_pres pair_pre (hash_pair sha) ((!) (header_leaves g)) 3 0) \<union>
            set (tree_pres pair_pre (hash_pair sha) ((!) (header_leaves h)) 3 0)"
  have "header_leaves g ! i = header_leaves h ! i" if "i < 8" for i
    using pool.tree_binding [of sha "(!) (header_leaves g)" 3 0 "(!) (header_leaves h)" ?S i] assms that
    by (simp add: hash_tree_root_tree)
  then have "header_leaves g = header_leaves h"
    by (intro nth_equalityI) (simp_all add: header_leaves_def)
  then show ?thesis by (simp add: header_leaves_inject)
qed

text \<open>The step is not tied to the previous root nor to a signature: an accepted witness
  stays accepted with any previous root, any non-zero signature and public key, any fork version and
  any validators root, and commits to the previous root it was given.\<close>

lemma helios_step_unsigned:
  assumes "helios_main sha w = Inr out" "sig \<noteq> 0" "pk \<noteq> 0"
  shows "helios_main sha (w\<lparr>hw_prev_trusted_root := r, sync_aggregate_signature := sig,
      sync_committee_pubkey := pk, fork_version := fv, genesis_validators_root := gvr\<rparr>) =
    Inr (out\<lparr>ho_prev_trusted_root := r\<rparr>)"
  using assms unfolding helios_main_Inr_iff by simp

section \<open>Witnesses\<close>

text \<open>A hash that keeps its first 32 bytes; a step whose trees have equal nodes.\<close>

definition first32 :: hash32 where
  "first32 bs = array32 (take 32 bs)"

definition demo_header :: beacon_block_header where
  "demo_header = \<lparr>slot = 1, proposer_index = 7, parent_root = 0, state_root = 5, body_root = 0\<rparr>"

definition demo_step :: helios_witness where
  "demo_step = \<lparr>hw_prev_trusted_root = 3,
     attested_header = demo_header\<lparr>slot := 2,
       state_root := hash_tree_root_beacon_header first32 demo_header\<rparr>,
     finalized_header = demo_header,
     finality_branch = replicate 6 (hash_tree_root_beacon_header first32 demo_header),
     sync_committee_participation = 400, sync_aggregate_signature = 1, sync_committee_pubkey = 1,
     fork_version = 0, genesis_validators_root = 0, execution_payload_root = 0,
     body_to_exec_branch = replicate 4 0, hw_execution_block_hash = 0,
     exec_to_hash_branch = replicate 5 0\<rparr>"

definition demo_step_outputs :: helios_public_outputs where
  "demo_step_outputs = \<lparr>ho_prev_trusted_root = 3,
     ho_new_beacon_root = hash_tree_root_beacon_header first32 demo_header,
     ho_new_slot = 1, ho_execution_block_hash = 0\<rparr>"

lemma hash_pair_first32 [simp]: "hash_pair first32 a b = a"
  by (simp add: hash_pair_def first32_def)

lemma climb_replicate: "node c c = c \<Longrightarrow> climb node i c (replicate n c) = c"
  by (induction n arbitrary: i) simp_all

lemma path_pres_replicate: "node c c = c \<Longrightarrow> path_pres pr node i c (replicate n c) = replicate n (pr c c)"
  by (induction n arbitrary: i) simp_all

lemma tree_node_const: "node c c = c \<Longrightarrow> tree_node node (\<lambda>_. c) l j = c"
  by (induction l arbitrary: j) simp_all

lemma le8_padded_zero: "array32 (le8 0 @ replicate 24 0) = 0"
  by code_simp

lemma branch_preimages_const:
  "hash_pair h c c = c \<Longrightarrow> inj_on h (branch_preimages h (\<lambda>_. c) d i c (replicate n c))"
  by (rule inj_on_subset [of h "{pair_pre c c}"])
    (auto simp: branch_preimages_def path_pres_replicate trunk_pres_def tree_node_const)

lemma demo_step_accepted: "helios_main first32 demo_step = Inr demo_step_outputs"
  by (simp add: helios_main_Inr_iff demo_step_def demo_step_outputs_def climb_replicate demo_header_def)

theorem helios_step_sound_witness:
  "ho_new_beacon_root demo_step_outputs = hash_tree_root_beacon_header first32 demo_header \<and>
   ho_new_slot demo_step_outputs = 1"
proof -
  let ?r = "hash_tree_root_beacon_header first32 demo_header"
  have "ho_new_beacon_root demo_step_outputs = ?r \<and> ho_execution_block_hash demo_step_outputs = 0 \<and>
    ho_new_beacon_root demo_step_outputs = hash_tree_root_beacon_header first32 (finalized_header demo_step) \<and>
    ho_new_slot demo_step_outputs = slot (finalized_header demo_step) \<and> 0 < ho_new_slot demo_step_outputs \<and>
    ho_new_slot demo_step_outputs \<le> slot (attested_header demo_step)"
    by (rule helios_step_sound [where state = "\<lambda>_. ?r" and body = "\<lambda>_. 0" and payload = "\<lambda>_. 0",
          OF demo_step_accepted])
      (simp_all add: demo_step_def demo_step_outputs_def tree_node_const branch_preimages_const demo_header_def)
  then show ?thesis by (simp add: demo_step_outputs_def)
qed

lemma header_root_binds_header_example:
  "\<lparr>slot = 1, proposer_index = 0, parent_root = 0, state_root = 0, body_root = 0\<rparr> =
   (demo_header\<lparr>proposer_index := 0, state_root := 0\<rparr>)"
proof (rule header_root_binds_header [of first32])
  let ?h = "demo_header\<lparr>proposer_index := 0, state_root := 0\<rparr>"
  let ?l = "array32 (le8 1 @ replicate 24 0)"
  have "?l \<noteq> array32 (le8 0 @ replicate 24 0)" by (simp only: le8_padded_inject) simp
  then have l: "?l \<noteq> 0" by (simp only: le8_padded_zero) simp
  have h: "\<lparr>slot = 1, proposer_index = 0, parent_root = 0, state_root = 0, body_root = 0\<rparr> = ?h"
    by (simp add: demo_header_def)
  then show "hash_tree_root_beacon_header first32
      \<lparr>slot = 1, proposer_index = 0, parent_root = 0, state_root = 0, body_root = 0\<rparr> =
    hash_tree_root_beacon_header first32 ?h" by simp
  have leaves: "header_leaves ?h = [?l, 0, 0, 0, 0, 0, 0, 0]"
    by (simp add: header_leaves_def demo_header_def le8_padded_zero)
  have pres: "set (tree_pres pair_pre (hash_pair first32) ((!) (header_leaves ?h)) 3 0) =
      {pair_pre ?l 0, pair_pre 0 0}"
    by (auto simp: eval_nat_numeral leaves)
  have "inj_on first32 {pair_pre ?l 0, pair_pre 0 0}"
    using l by (simp add: first32_def pair_pre_def)
  then show "inj_on first32 (set (tree_pres pair_pre (hash_pair first32)
        ((!) (header_leaves \<lparr>slot = 1, proposer_index = 0, parent_root = 0, state_root = 0, body_root = 0\<rparr>)) 3 0) \<union>
      set (tree_pres pair_pre (hash_pair first32) ((!) (header_leaves ?h)) 3 0))"
    unfolding h pres by simp
qed

lemma helios_step_unsigned_example:
  "helios_main first32 (demo_step\<lparr>hw_prev_trusted_root := 9, sync_aggregate_signature := 2,
      sync_committee_pubkey := 2, fork_version := 8, genesis_validators_root := 8\<rparr>) =
    Inr (demo_step_outputs\<lparr>ho_prev_trusted_root := 9\<rparr>)"
  by (rule helios_step_unsigned [OF demo_step_accepted]) simp_all

end
