(* ===== verification/Requests.thy ===== *)
theory Requests
  imports Prelude
begin

text \<open>
  Programs that talk to the outside (a node, a server, the operating system). The outside is an
  argument of the definitions: its answer to a request may depend on all requests made before, so
  an operation is a function from the history of requests to a result and the extended history,
  and a statement about it holds for every behaviour of the outside. Request types and errors
  belong to the component.
\<close>

section \<open>Operations\<close>

type_synonym ('e, 'q, 'a) act = "'q list \<Rightarrow> ('e + 'a) \<times> 'q list"

definition io_return :: "'a \<Rightarrow> ('e, 'q, 'a) act" where
  "io_return x h = (Inr x, h)"

definition io_lift :: "'e + 'a \<Rightarrow> ('e, 'q, 'a) act" where
  "io_lift r h = (r, h)"

definition io_bind :: "('e, 'q, 'a) act \<Rightarrow> ('a \<Rightarrow> ('e, 'q, 'b) act) \<Rightarrow> ('e, 'q, 'b) act" where
  "io_bind m f h = (case m h of (Inl e, h') \<Rightarrow> (Inl e, h') | (Inr x, h') \<Rightarrow> f x h')"

definition io_map_err :: "('e \<Rightarrow> 'f) \<Rightarrow> ('e, 'q, 'a) act \<Rightarrow> ('f, 'q, 'a) act" where
  "io_map_err g m h = (case m h of (r, h') \<Rightarrow> (map_err g r, h'))"

text \<open>A request whose answer is a result.\<close>

definition ask :: "('q list \<Rightarrow> 'e + 'a) \<Rightarrow> 'q \<Rightarrow> ('e, 'q, 'a) act" where
  "ask answer q h = (answer (h @ [q]), h @ [q])"

lemma io_return_eq [simp]: "io_return x h = (Inr x, h)"
  by (simp add: io_return_def)

lemma io_lift_eq [simp]: "io_lift r h = (r, h)"
  by (simp add: io_lift_def)

lemma io_bind_Inr_iff:
  "io_bind m f h = (Inr y, h'') \<longleftrightarrow> (\<exists>x h'. m h = (Inr x, h') \<and> f x h' = (Inr y, h''))"
  by (auto simp: io_bind_def split: prod.split sum.split)

section \<open>What an operation may send\<close>

text \<open>
  \<open>sends P m\<close>: whatever the outside answers, \<open>m\<close> only adds requests that satisfy \<open>P\<close>. The rules
  follow the structure of the code.
\<close>

named_theorems sends_intros \<open>rules for the requests an operation sends\<close>

definition sends :: "('q \<Rightarrow> bool) \<Rightarrow> ('e, 'q, 'a) act \<Rightarrow> bool" where
  "sends P m \<longleftrightarrow> (\<forall>h. \<exists>rs. snd (m h) = h @ rs \<and> list_all P rs)"

lemma sendsD: "sends P m \<Longrightarrow> m h = (r, h') \<Longrightarrow> \<exists>rs. h' = h @ rs \<and> list_all P rs"
  unfolding sends_def by (metis snd_conv)

lemma sends_return [sends_intros]: "sends P (io_return x)"
  by (simp add: sends_def)

lemma sends_lift [sends_intros]: "sends P (io_lift r)"
  by (simp add: sends_def)

lemma sends_ask [sends_intros]: "P q \<Longrightarrow> sends P (ask answer q)"
  by (simp add: sends_def ask_def)

text \<open>The continuation only has to behave on the results that can occur.\<close>

lemma sends_bind_result:
  assumes "sends P m" "\<And>h x h'. m h = (Inr x, h') \<Longrightarrow> sends P (f x)"
  shows "sends P (io_bind m f)"
  unfolding sends_def
proof
  fix h
  obtain r h' where m: "m h = (r, h')" by (cases "m h")
  with sendsD [OF assms(1)] obtain rs where rs: "h' = h @ rs" "list_all P rs" by blast
  show "\<exists>rs. snd (io_bind m f h) = h @ rs \<and> list_all P rs"
  proof (cases r)
    case (Inl e)
    with m rs show ?thesis by (auto simp: io_bind_def)
  next
    case (Inr x)
    obtain r2 h2 where f: "f x h' = (r2, h2)" by (cases "f x h'")
    with sendsD [OF assms(2)] m Inr obtain rs2 where "h2 = h' @ rs2" "list_all P rs2" by blast
    with m f rs Inr show ?thesis by (auto simp: io_bind_def)
  qed
qed

lemma sends_bind [sends_intros]: "sends P m \<Longrightarrow> (\<And>x. sends P (f x)) \<Longrightarrow> sends P (io_bind m f)"
  by (rule sends_bind_result)

lemma sends_map_err [sends_intros]: "sends P m \<Longrightarrow> sends P (io_map_err g m)"
  unfolding sends_def io_map_err_def by (metis prod.case_eq_if snd_conv)

lemma sends_if [sends_intros]: "sends P m \<Longrightarrow> sends P n \<Longrightarrow> sends P (if b then m else n)"
  by simp

lemma sends_option [sends_intros]:
  "sends P m \<Longrightarrow> (\<And>x. sends P (f x)) \<Longrightarrow> sends P (case a of None \<Rightarrow> m | Some x \<Rightarrow> f x)"
  by (cases a) simp_all

section \<open>What must have happened before a request\<close>

text \<open>
  \<open>justified J h\<close>: every request of the history satisfies \<open>J\<close>, which is told the requests made
  before it. An operation that keeps histories justified checks before it acts.
\<close>

definition justified :: "('q list \<Rightarrow> 'q \<Rightarrow> bool) \<Rightarrow> 'q list \<Rightarrow> bool" where
  "justified J h \<longleftrightarrow> (\<forall>g q t. h = g @ q # t \<longrightarrow> J g q)"

lemma justified_Nil [simp]: "justified J []"
  by (simp add: justified_def)

lemma justified_snoc [simp]: "justified J (h @ [q]) \<longleftrightarrow> justified J h \<and> J h q"
proof
  assume j: "justified J (h @ [q])"
  have "J g p" if "h = g @ p # t" for g p t
    using j that unfolding justified_def by (metis append.assoc append_Cons)
  moreover have "J h q" using j unfolding justified_def by blast
  ultimately show "justified J h \<and> J h q" unfolding justified_def by blast
next
  assume j: "justified J h \<and> J h q"
  show "justified J (h @ [q])"
    unfolding justified_def
  proof (intro allI impI)
    fix g p t
    assume eq: "h @ [q] = g @ p # t"
    show "J g p"
    proof (cases t rule: rev_cases)
      case Nil
      with eq j show ?thesis by simp
    next
      case (snoc u x)
      with eq have "h = g @ p # u" by simp
      with j show ?thesis unfolding justified_def by blast
    qed
  qed
qed

lemma justified_two [simp]: "justified J (h @ [p, q]) \<longleftrightarrow> justified J h \<and> J h p \<and> J (h @ [p]) q"
  using justified_snoc [of J "h @ [p]" q] by simp

lemma justified_three [simp]:
  "justified J (h @ [p, q, r]) \<longleftrightarrow> justified J h \<and> J h p \<and> J (h @ [p]) q \<and> J (h @ [p, q]) r"
  using justified_snoc [of J "h @ [p, q]" r] by simp

lemma justified_append:
  "justified J h \<Longrightarrow> list_all (\<lambda>q. \<forall>g. J g q) rs \<Longrightarrow> justified J (h @ rs)"
proof (induction rs rule: rev_induct)
  case (snoc q rs)
  then show ?case by (simp flip: append_assoc)
qed simp

lemma justifiedD: "justified J h \<Longrightarrow> h = g @ q # t \<Longrightarrow> J g q"
  unfolding justified_def by blast

lemma justified_mono: "justified J h \<Longrightarrow> (\<And>g q. J g q \<Longrightarrow> K g q) \<Longrightarrow> justified K h"
  unfolding justified_def by blast

end
