(* ===== verification/Http_Client.thy ===== *)
theory Http_Client
  imports Rust_Str Requests
begin

text \<open>
  What the off-chain services of the bridge share: JSON values with the accessors of \<open>serde_json\<close>,
  the errors of a client, and requests to the outside world. The outside (the Ethereum and beacon
  nodes, the rollup's RPC, the prover) is an argument \<open>env\<close>: its answer to a request may depend on
  all requests made before, so an asynchronous function is a function from the history of requests
  to a result and the extended history. Every statement about a run holds for every \<open>env\<close>.
\<close>

section \<open>JSON\<close>

text \<open>An object's keys are distinct in \<open>serde_json\<close>; the first entry counts here.\<close>

datatype json_number = PosInt u64 | NegInt u64 | Float u64

datatype json =
    JNull | JBool bool | JNumber json_number | JString string
  | JArray "json list" | JObject "(string \<times> json) list"

fun json_get :: "json \<Rightarrow> string \<Rightarrow> json option" where
  "json_get (JObject m) k = map_of m k"
| "json_get v k = None"

definition json_field :: "json \<Rightarrow> string \<Rightarrow> json" where
  "json_field v k = unwrap_or (json_get v k) JNull"

fun json_item :: "json \<Rightarrow> nat \<Rightarrow> json" where
  "json_item (JArray xs) i = (if i < length xs then xs ! i else JNull)"
| "json_item v i = JNull"

fun as_str :: "json \<Rightarrow> string option" where
  "as_str (JString s) = Some s"
| "as_str v = None"

fun as_array :: "json \<Rightarrow> json list option" where
  "as_array (JArray xs) = Some xs"
| "as_array v = None"

fun as_u64 :: "json \<Rightarrow> u64 option" where
  "as_u64 (JNumber (PosInt n)) = Some n"
| "as_u64 v = None"

text \<open>
  \<open>from_value\<close> of a derived \<open>Deserialize\<close>: the values of a struct's fields, from an object that has
  them all (others are ignored) or from an array of exactly as many items.
\<close>

fun struct_fields :: "string list \<Rightarrow> json \<Rightarrow> json list option" where
  "struct_fields names (JObject m) = those (map (map_of m) names)"
| "struct_fields names (JArray xs) = (if length xs = length names then Some xs else None)"
| "struct_fields names v = None"

definition string_list :: "json \<Rightarrow> string list option" where
  "string_list v = Option.bind (as_array v) (\<lambda>xs. those (map as_str xs))"

lemma those_length: "those xs = Some ys \<Longrightarrow> length ys = length xs"
  by (induction xs arbitrary: ys) (auto split: option.splits)

lemma struct_fields_length: "struct_fields names v = Some xs \<Longrightarrow> length xs = length names"
  by (cases v) (auto dest: those_length split: if_splits)

lemma json_field_simps [simp]:
  "json_field (JObject m) k = unwrap_or (map_of m k) JNull" "json_field JNull k = JNull"
  by (simp_all add: json_field_def)

section \<open>Errors\<close>

text \<open>The reasons a client operation fails; \<open>Panicked\<close> is not an error value but ends the program.\<close>

datatype client_error =
    NoResponse | RpcError json | BadJson | BadHex | BadLength nat | BadNumber | BadAddress
  | NeedsNative | ElfMissing | ProvingFailed | ProofNotSerializable | ProverNotImplemented
  | Panicked

section \<open>Requests\<close>

text \<open>The body of a JSON-RPC request: the parameters are a JSON value, or a message that the
  derived serializer of the SDK turns into one.\<close>

datatype 'm rpc_params = Params json | Message 'm

datatype 'm request =
    RpcPost string string "'m rpc_params"
  | HttpGet string

type_synonym 'm env = "'m request list \<Rightarrow> json option"

type_synonym ('m, 'a) io = "(client_error, 'm request, 'a) act"

text \<open>Handling an error; a panic is not handled.\<close>

definition io_catch :: "('m, 'a) io \<Rightarrow> (client_error \<Rightarrow> ('m, 'a) io) \<Rightarrow> ('m, 'a) io" where
  "io_catch m f h =
     (case m h of
        (Inl e, h') \<Rightarrow> if e = Panicked then (Inl e, h') else f e h'
      | (Inr x, h') \<Rightarrow> (Inr x, h'))"

text \<open>\<open>send().await\<close> and \<open>json().await\<close>: \<open>None\<close> is a failed request or an answer that is not JSON.\<close>

definition send :: "'m env \<Rightarrow> 'm request \<Rightarrow> ('m, json) io" where
  "send env r h =
     (case env (h @ [r]) of
        None \<Rightarrow> (Inl NoResponse, h @ [r])
      | Some v \<Rightarrow> (Inr v, h @ [r]))"

lemma sends_send [sends_intros]: "P r \<Longrightarrow> sends P (send env r)"
  by (simp add: sends_def send_def split: option.split)

lemma sends_catch [sends_intros]:
  assumes "sends P m" "\<And>e. sends P (f e)"
  shows "sends P (io_catch m f)"
  unfolding sends_def
proof
  fix h
  obtain r h' where m: "m h = (r, h')" by (cases "m h")
  with sendsD [OF assms(1)] obtain rs where rs: "h' = h @ rs" "list_all P rs" by blast
  show "\<exists>rs. snd (io_catch m f h) = h @ rs \<and> list_all P rs"
  proof (cases "\<exists>e. r = Inl e \<and> e \<noteq> Panicked")
    case True
    then obtain e where e: "r = Inl e" "e \<noteq> Panicked" by blast
    obtain r2 h2 where f: "f e h' = (r2, h2)" by (cases "f e h'")
    with sendsD [OF assms(2)] obtain rs2 where "h2 = h' @ rs2" "list_all P rs2" by blast
    with m f rs e show ?thesis by (auto simp: io_catch_def)
  next
    case False
    with m rs show ?thesis by (auto simp: io_catch_def split: sum.split)
  qed
qed

end
