(* ===== verification/Beacon_Api.thy ===== *)
theory Beacon_Api
  imports Guest_Helios Http_Client
begin

unbundle bit_operations_syntax

text \<open>
  \<open>crates/zk-bridge/src/beacon_api.rs\<close>: the beacon node client and the builder of the light client
  circuit's witness. The witness type of this file repeats the circuit's field by field (both are
  serialized in field order), so the builder returns the circuit's \<open>helios_witness\<close>. The lemmas show
  that the payload root is the root of the SSZ tree over the parsed fields, that the branch the
  builder extracts is that tree's sibling path, and which of the circuit's checks can still fail.
\<close>

section \<open>The answers of a beacon node\<close>

record beacon_header_json =
  bj_slot :: string
  bj_proposer_index :: string
  bj_parent_root :: string
  bj_state_root :: string
  bj_body_root :: string

record execution_payload_header_json =
  ex_parent_hash :: string
  ex_fee_recipient :: string
  ex_state_root :: string
  ex_receipts_root :: string
  ex_logs_bloom :: string
  ex_prev_randao :: string
  ex_block_number :: string
  ex_gas_limit :: string
  ex_gas_used :: string
  ex_timestamp :: string
  ex_extra_data :: string
  ex_base_fee_per_gas :: string
  ex_block_hash :: string
  ex_transactions_root :: string
  ex_withdrawals_root :: string
  ex_blob_gas_used :: string
  ex_excess_blob_gas :: string

record light_client_header_json =
  lc_beacon :: beacon_header_json
  lc_execution :: execution_payload_header_json
  lc_execution_branch :: "string list"

record sync_aggregate_json =
  sync_committee_bits :: string
  sync_committee_signature :: string

record finality_update_json =
  fu_attested_header :: light_client_header_json
  fu_finalized_header :: light_client_header_json
  fu_finality_branch :: "string list"
  fu_sync_aggregate :: sync_aggregate_json
  fu_signature_slot :: string

record genesis_config_json =
  gc_genesis_validators_root :: string
  gc_genesis_fork_version :: string
  gc_genesis_time :: string

text \<open>The derived deserializers of structs whose fields are all strings.\<close>

definition string_fields :: "string list \<Rightarrow> json \<Rightarrow> string list option" where
  "string_fields names v = Option.bind (struct_fields names v) (\<lambda>fs. those (map as_str fs))"

definition beacon_header_from_json :: "json \<Rightarrow> beacon_header_json option" where
  "beacon_header_from_json v =
     map_option (\<lambda>f. \<lparr>bj_slot = f ! 0, bj_proposer_index = f ! 1, bj_parent_root = f ! 2,
                     bj_state_root = f ! 3, bj_body_root = f ! 4\<rparr>)
       (string_fields [''slot'', ''proposer_index'', ''parent_root'', ''state_root'', ''body_root''] v)"

definition execution_header_from_json :: "json \<Rightarrow> execution_payload_header_json option" where
  "execution_header_from_json v =
     map_option (\<lambda>f. \<lparr>ex_parent_hash = f ! 0, ex_fee_recipient = f ! 1, ex_state_root = f ! 2,
                     ex_receipts_root = f ! 3, ex_logs_bloom = f ! 4, ex_prev_randao = f ! 5,
                     ex_block_number = f ! 6, ex_gas_limit = f ! 7, ex_gas_used = f ! 8,
                     ex_timestamp = f ! 9, ex_extra_data = f ! 10, ex_base_fee_per_gas = f ! 11,
                     ex_block_hash = f ! 12, ex_transactions_root = f ! 13, ex_withdrawals_root = f ! 14,
                     ex_blob_gas_used = f ! 15, ex_excess_blob_gas = f ! 16\<rparr>)
       (string_fields
         [''parent_hash'', ''fee_recipient'', ''state_root'', ''receipts_root'', ''logs_bloom'',
          ''prev_randao'', ''block_number'', ''gas_limit'', ''gas_used'', ''timestamp'', ''extra_data'',
          ''base_fee_per_gas'', ''block_hash'', ''transactions_root'', ''withdrawals_root'',
          ''blob_gas_used'', ''excess_blob_gas''] v)"

definition light_client_header_from_json :: "json \<Rightarrow> light_client_header_json option" where
  "light_client_header_from_json v =
     (case struct_fields [''beacon'', ''execution'', ''execution_branch''] v of
        Some [b, e, br] \<Rightarrow>
          (case (beacon_header_from_json b, execution_header_from_json e, string_list br) of
             (Some b', Some e', Some br') \<Rightarrow> Some \<lparr>lc_beacon = b', lc_execution = e', lc_execution_branch = br'\<rparr>
           | _ \<Rightarrow> None)
      | _ \<Rightarrow> None)"

definition sync_aggregate_from_json :: "json \<Rightarrow> sync_aggregate_json option" where
  "sync_aggregate_from_json v =
     map_option (\<lambda>f. \<lparr>sync_committee_bits = f ! 0, sync_committee_signature = f ! 1\<rparr>)
       (string_fields [''sync_committee_bits'', ''sync_committee_signature''] v)"

definition finality_update_from_json :: "json \<Rightarrow> finality_update_json option" where
  "finality_update_from_json v =
     (case struct_fields [''attested_header'', ''finalized_header'', ''finality_branch'', ''sync_aggregate'',
                          ''signature_slot''] v of
        Some [a, f, br, sa, s] \<Rightarrow>
          (case (light_client_header_from_json a, light_client_header_from_json f, string_list br,
                 sync_aggregate_from_json sa, as_str s) of
             (Some a', Some f', Some br', Some sa', Some s') \<Rightarrow>
               Some \<lparr>fu_attested_header = a', fu_finalized_header = f', fu_finality_branch = br',
                     fu_sync_aggregate = sa', fu_signature_slot = s'\<rparr>
           | _ \<Rightarrow> None)
      | _ \<Rightarrow> None)"

definition genesis_config_from_json :: "json \<Rightarrow> genesis_config_json option" where
  "genesis_config_from_json v =
     map_option (\<lambda>f. \<lparr>gc_genesis_validators_root = f ! 0, gc_genesis_fork_version = f ! 1, gc_genesis_time = f ! 2\<rparr>)
       (string_fields [''genesis_validators_root'', ''genesis_fork_version'', ''genesis_time''] v)"

section \<open>Parsing helpers\<close>

definition beacon_hex_decode :: "crates \<Rightarrow> string \<Rightarrow> client_error + bytes" where
  "beacon_hex_decode cr s =
     (let t = trim_start_matches ''0X'' (trim_start_matches ''0x'' (trim s))
      in if t = [] then Inr []
         else case hex_decode cr t of None \<Rightarrow> Inl BadHex | Some bs \<Rightarrow> Inr bs)"

definition exact_length :: "nat \<Rightarrow> bytes \<Rightarrow> client_error + bytes" where
  "exact_length n bs = (if length bs = n then Inr bs else Inl (BadLength (length bs)))"

definition parse_bytes32 :: "crates \<Rightarrow> string \<Rightarrow> client_error + bytes32" where
  "parse_bytes32 cr s =
     rbind (beacon_hex_decode cr s) (\<lambda>bs. rbind (exact_length 32 bs) (\<lambda>bs. Inr (array32 bs)))"

definition parse_fork_version :: "crates \<Rightarrow> string \<Rightarrow> client_error + bytes4" where
  "parse_fork_version cr s =
     rbind (beacon_hex_decode cr s) (\<lambda>bs. rbind (exact_length 4 bs) (\<lambda>bs. Inr (from_be_bytes bs)))"

definition parse_number :: "string \<Rightarrow> client_error + u64" where
  "parse_number s = (case parse_u64 s of None \<Rightarrow> Inl BadNumber | Some n \<Rightarrow> Inr n)"

definition parse_beacon_header :: "crates \<Rightarrow> beacon_header_json \<Rightarrow> client_error + beacon_block_header" where
  "parse_beacon_header cr h =
     rbind (parse_number (bj_slot h)) (\<lambda>s.
     rbind (parse_number (bj_proposer_index h)) (\<lambda>p.
     rbind (parse_bytes32 cr (bj_parent_root h)) (\<lambda>pr.
     rbind (parse_bytes32 cr (bj_state_root h)) (\<lambda>sr.
     rbind (parse_bytes32 cr (bj_body_root h)) (\<lambda>br.
     Inr \<lparr>slot = s, proposer_index = p, parent_root = pr, state_root = sr, body_root = br\<rparr>)))))"

definition parse_branch :: "nat \<Rightarrow> crates \<Rightarrow> string list \<Rightarrow> client_error + bytes32 list" where
  "parse_branch n cr nodes =
     (if length nodes \<noteq> n then Inl (BadLength (length nodes)) else rmap (parse_bytes32 cr) nodes)"

definition parse_branch_6 :: "crates \<Rightarrow> string list \<Rightarrow> client_error + bytes32 list" where
  "parse_branch_6 = parse_branch 6"

definition parse_branch_4 :: "crates \<Rightarrow> string list \<Rightarrow> client_error + bytes32 list" where
  "parse_branch_4 = parse_branch 4"

text \<open>Zeros on the right up to 32 bytes, as copying into a zeroed array leaves them.\<close>

definition pad32 :: "bytes \<Rightarrow> bytes32" where
  "pad32 bs = array32 (bs @ replicate (32 - length bs) 0)"

definition parse_uint256_le :: "crates \<Rightarrow> string \<Rightarrow> client_error + bytes32" where
  "parse_uint256_le cr s0 =
     (let s = trim s0
      in if starts_with ''0x'' s \<or> starts_with ''0X'' s
         then rbind (beacon_hex_decode cr s) (\<lambda>b. Inr (pad32 (take 32 (rev b))))
         else case parse_u128 s of
                None \<Rightarrow> Inl BadNumber
              | Some v \<Rightarrow> Inr (pad32 (to_le_bytes 16 v)))"

definition uint64_leaf :: "u64 \<Rightarrow> bytes32" where
  "uint64_leaf v = pad32 (le8 v)"

section \<open>SSZ roots and branches\<close>

fun pair_up :: "hash32 \<Rightarrow> bytes32 list \<Rightarrow> bytes32 list" where
  "pair_up sha (a # b # level) = sha256_pair sha a b # pair_up sha level"
| "pair_up sha level = []"

lemma length_beacon_pair_up: "length (pair_up sha level) = length level div 2"
  by (induction sha level rule: pair_up.induct) simp_all

function root_loop :: "hash32 \<Rightarrow> bytes32 list \<Rightarrow> bytes32" where
  "root_loop sha level = (if 1 < length level then root_loop sha (pair_up sha level) else level ! 0)"
  by pat_completeness auto
termination
  by (relation "measure (\<lambda>(sha, level). length level)") (simp_all add: length_beacon_pair_up)

declare root_loop.simps [simp del]

definition is_power_of_two :: "nat \<Rightarrow> bool" where
  "is_power_of_two n = list_ex (\<lambda>k. n = 2 ^ k) [0..<64]"

definition next_power_of_two :: "nat \<Rightarrow> nat" where
  "next_power_of_two n = unwrap_or (find (\<lambda>p. n \<le> p) (map (\<lambda>k. 2 ^ k) [0..<64])) 0"

definition merkle_root_vec :: "hash32 \<Rightarrow> bytes32 list \<Rightarrow> client_error + bytes32" where
  "merkle_root_vec sha level =
     (if level \<noteq> [] \<and> is_power_of_two (length level) then Inr (root_loop sha level) else Inl Panicked)"

fun branch_walk :: "hash32 \<Rightarrow> nat \<Rightarrow> bytes32 list \<Rightarrow> nat \<Rightarrow> bytes32 list" where
  "branch_walk sha 0 level idx = []"
| "branch_walk sha (Suc n) level idx = level ! (idx XOR 1) # branch_walk sha n (pair_up sha level) (idx div 2)"

definition merkle_branch_32 :: "hash32 \<Rightarrow> bytes32 list \<Rightarrow> nat \<Rightarrow> bytes32 list" where
  "merkle_branch_32 sha leaves idx = branch_walk sha 5 leaves idx"

function chunks :: "nat \<Rightarrow> bytes \<Rightarrow> bytes list" where
  "chunks n bs = (if n = 0 \<or> bs = [] then [] else take n bs # chunks n (drop n bs))"
  by pat_completeness auto
termination by (relation "measure (\<lambda>(n, bs). length bs)") auto

declare chunks.simps [simp del]

definition ssz_bytes_vector_root :: "hash32 \<Rightarrow> bytes \<Rightarrow> client_error + bytes32" where
  "ssz_bytes_vector_root sha bs = merkle_root_vec sha (map pad32 (chunks 32 bs))"

definition ssz_byte_list_root :: "hash32 \<Rightarrow> bytes \<Rightarrow> nat \<Rightarrow> client_error + bytes32" where
  "ssz_byte_list_root sha bs max_chunks =
     (let tree_size = next_power_of_two max_chunks;
          leaves = fold (\<lambda>(i, c) ls. if i < length ls then ls[i := pad32 c] else ls)
                     (List.enumerate 0 (chunks 32 bs)) (replicate tree_size 0)
      in rbind (merkle_root_vec sha leaves) (\<lambda>chunk_root.
         Inr (sha256_pair sha chunk_root (uint64_leaf (of_nat (length bs))))))"

definition ssz_execution_payload_root ::
    "crates \<Rightarrow> execution_payload_header_json \<Rightarrow> client_error + bytes32 \<times> bytes32 list" where
  "ssz_execution_payload_root cr e =
     rbind (parse_bytes32 cr (ex_parent_hash e)) (\<lambda>l0.
     rbind (rbind (beacon_hex_decode cr (ex_fee_recipient e)) (exact_length 20)) (\<lambda>fee.
     rbind (parse_bytes32 cr (ex_state_root e)) (\<lambda>l2.
     rbind (parse_bytes32 cr (ex_receipts_root e)) (\<lambda>l3.
     rbind (rbind (beacon_hex_decode cr (ex_logs_bloom e)) (exact_length 256)) (\<lambda>bloom.
     rbind (ssz_bytes_vector_root (sha256 cr) bloom) (\<lambda>l4.
     rbind (parse_bytes32 cr (ex_prev_randao e)) (\<lambda>l5.
     rbind (parse_number (ex_block_number e)) (\<lambda>l6.
     rbind (parse_number (ex_gas_limit e)) (\<lambda>l7.
     rbind (parse_number (ex_gas_used e)) (\<lambda>l8.
     rbind (parse_number (ex_timestamp e)) (\<lambda>l9.
     rbind (beacon_hex_decode cr (ex_extra_data e)) (\<lambda>extra.
     rbind (ensure (length extra \<le> 32) (BadLength (length extra))) (\<lambda>_.
     rbind (ssz_byte_list_root (sha256 cr) extra 1) (\<lambda>l10.
     rbind (parse_uint256_le cr (ex_base_fee_per_gas e)) (\<lambda>l11.
     rbind (parse_bytes32 cr (ex_block_hash e)) (\<lambda>l12.
     rbind (parse_bytes32 cr (ex_transactions_root e)) (\<lambda>l13.
     rbind (parse_bytes32 cr (ex_withdrawals_root e)) (\<lambda>l14.
     rbind (parse_number (ex_blob_gas_used e)) (\<lambda>l15.
     rbind (parse_number (ex_excess_blob_gas e)) (\<lambda>l16.
       let leaves = [l0, pad32 fee, l2, l3, l4, l5, uint64_leaf l6, uint64_leaf l7, uint64_leaf l8,
                     uint64_leaf l9, l10, l11, l12, l13, l14, uint64_leaf l15, uint64_leaf l16] @
                    replicate 15 0
       in rbind (merkle_root_vec (sha256 cr) leaves) (\<lambda>root. Inr (root, leaves))))))))))))))))))))))"

section \<open>The witness builder\<close>

definition count_ones :: "byte \<Rightarrow> nat" where
  "count_ones b = length (filter (bit b) [0..<8])"

definition build_helios_witness ::
    "crates \<Rightarrow> finality_update_json \<Rightarrow> genesis_config_json \<Rightarrow> bytes48 \<Rightarrow> bytes32 \<Rightarrow>
     client_error + helios_witness" where
  "build_helios_witness cr update gen pubkey prev_root =
     rbind (parse_beacon_header cr (lc_beacon (fu_attested_header update))) (\<lambda>attested.
     rbind (parse_beacon_header cr (lc_beacon (fu_finalized_header update))) (\<lambda>finalized.
     rbind (parse_branch_6 cr (fu_finality_branch update)) (\<lambda>fbranch.
     rbind (beacon_hex_decode cr (sync_committee_bits (fu_sync_aggregate update))) (\<lambda>bits.
     rbind (rbind (beacon_hex_decode cr (sync_committee_signature (fu_sync_aggregate update)))
              (exact_length 96)) (\<lambda>sig.
     rbind (parse_fork_version cr (gc_genesis_fork_version gen)) (\<lambda>fv.
     rbind (parse_bytes32 cr (gc_genesis_validators_root gen)) (\<lambda>gvr.
     rbind (parse_branch_4 cr (lc_execution_branch (fu_finalized_header update))) (\<lambda>ebranch.
     rbind (ssz_execution_payload_root cr (lc_execution (fu_finalized_header update))) (\<lambda>(payload_root, leaves).
     rbind (parse_bytes32 cr (ex_block_hash (lc_execution (fu_finalized_header update)))) (\<lambda>block_hash.
     Inr \<lparr>hw_prev_trusted_root = prev_root,
          attested_header = attested, finalized_header = finalized, finality_branch = fbranch,
          sync_committee_participation = of_nat (sum_list (map count_ones bits)),
          sync_aggregate_signature = from_be_bytes sig, sync_committee_pubkey = pubkey,
          fork_version = fv, genesis_validators_root = gvr,
          execution_payload_root = payload_root, body_to_exec_branch = ebranch,
          hw_execution_block_hash = block_hash,
          exec_to_hash_branch = merkle_branch_32 (sha256 cr) leaves 12\<rparr>))))))))))"

section \<open>The client\<close>

record beacon_api_client =
  base_url :: string

definition beacon_client_new :: "string \<Rightarrow> beacon_api_client" where
  "beacon_client_new url = \<lparr>base_url = trim_end_matches (CHR ''/'') url\<rparr>"

definition decoded :: "'a option \<Rightarrow> client_error + 'a" where
  "decoded x = (case x of None \<Rightarrow> Inl BadJson | Some v \<Rightarrow> Inr v)"

definition get_finality_update :: "'m env \<Rightarrow> beacon_api_client \<Rightarrow> ('m, finality_update_json) io" where
  "get_finality_update env c =
     io_bind (send env (HttpGet (base_url c @ ''/eth/v1/beacon/light_client/finality_update''))) (\<lambda>body.
     io_lift (decoded (finality_update_from_json (json_field body ''data''))))"

definition get_genesis :: "'m env \<Rightarrow> beacon_api_client \<Rightarrow> ('m, genesis_config_json) io" where
  "get_genesis env c =
     io_bind (send env (HttpGet (base_url c @ ''/eth/v1/config/genesis''))) (\<lambda>body.
     io_lift (decoded (genesis_config_from_json (json_field body ''data''))))"

definition get_sync_committee_aggregate_pubkey ::
    "crates \<Rightarrow> 'm env \<Rightarrow> beacon_api_client \<Rightarrow> string \<Rightarrow> ('m, bytes48) io" where
  "get_sync_committee_aggregate_pubkey cr env c block_root =
     io_bind (send env (HttpGet (base_url c @ ''/eth/v1/beacon/light_client/bootstrap/'' @ block_root))) (\<lambda>body.
       let pubkey_hex = unwrap_or (as_str (json_field (json_field (json_field body ''data'')
                          ''current_sync_committee'') ''aggregate_pubkey'')) ''0x''
       in io_lift (rbind (beacon_hex_decode cr pubkey_hex) (\<lambda>bs.
                   rbind (exact_length 48 bs) (\<lambda>bs. Inr (from_be_bytes bs)))))"

lemma exact_length_Inr_iff [simp]: "exact_length n bs = Inr bs' \<longleftrightarrow> length bs = n \<and> bs' = bs"
  by (auto simp: exact_length_def)

lemma sends_beacon [sends_intros]:
  assumes "\<And>url. P (HttpGet url)"
  shows "sends P (get_finality_update env c)" "sends P (get_genesis env c)"
    "sends P (get_sync_committee_aggregate_pubkey cr env c block_root)"
  unfolding get_finality_update_def get_genesis_def get_sync_committee_aggregate_pubkey_def Let_def
  by (intro sends_intros assms)+

section \<open>The builder computes SSZ trees\<close>

lemma nat_xor_one: "(i :: nat) XOR 1 = buddy i"
  by (simp add: xor_one_eq buddy_def del: One_nat_def)

lemma nth_pair_up:
  "2 * i + 1 < length xs \<Longrightarrow> pair_up sha xs ! i = hash_pair sha (xs ! (2 * i)) (xs ! (2 * i + 1))"
proof (induction sha xs arbitrary: i rule: pair_up.induct)
  case (1 sha a b level)
  then show ?case by (cases i) (simp_all add: sha256_pair_eq)
qed simp_all

text \<open>One level of the tree folded into its leaves.\<close>

lemma tree_node_fold_leaves:
  "tree_node node f (Suc l) i = tree_node node (\<lambda>k. node (f (2 * k)) (f (2 * k + 1))) l i"
proof (induction l arbitrary: i)
  case (Suc l)
  have "tree_node node f (Suc (Suc l)) i =
      node (tree_node node f (Suc l) (2 * i)) (tree_node node f (Suc l) (2 * i + 1))"
    by (rule tree_node.simps(2))
  then show ?case unfolding Suc.IH by simp
qed simp

lemma tree_node_pair_up:
  assumes "length xs = 2 ^ Suc d" "l \<le> d" "i < 2 ^ (d - l)"
  shows "tree_node (hash_pair sha) ((!) (pair_up sha xs)) l i = tree_node (hash_pair sha) ((!) xs) (Suc l) i"
  unfolding tree_node_fold_leaves
proof (rule tree_node_cong)
  fix k assume "k < (i + 1) * 2 ^ l"
  also have "\<dots> \<le> 2 ^ (d - l) * 2 ^ l" using assms(3) by (intro mult_le_mono1) simp
  also have "\<dots> = 2 ^ d" using assms(2) by (simp flip: power_add)
  finally show "pair_up sha xs ! k = hash_pair sha (xs ! (2 * k)) (xs ! (2 * k + 1))"
    using assms(1) by (intro nth_pair_up) simp
qed

lemma root_loop_tree:
  "length xs = 2 ^ d \<Longrightarrow> root_loop sha xs = tree_node (hash_pair sha) ((!) xs) d 0"
proof (induction d arbitrary: xs)
  case 0
  then show ?case by (simp add: root_loop.simps)
next
  case (Suc d)
  have "1 < length xs" unfolding Suc.prems by (rule one_less_power) simp_all
  then have "root_loop sha xs = root_loop sha (pair_up sha xs)" by (subst root_loop.simps) simp
  also have "\<dots> = tree_node (hash_pair sha) ((!) (pair_up sha xs)) d 0"
    by (rule Suc.IH) (simp add: Suc.prems length_beacon_pair_up)
  also have "\<dots> = tree_node (hash_pair sha) ((!) xs) (Suc d) 0"
    by (rule tree_node_pair_up [OF Suc.prems]) simp_all
  finally show ?case .
qed

lemma is_power_of_two_pow: "k < 64 \<Longrightarrow> is_power_of_two (2 ^ k)"
  unfolding is_power_of_two_def list_ex_iff by (intro bexI [of _ k]) simp_all

lemma merkle_root_vec_tree:
  "length xs = 2 ^ d \<Longrightarrow> d < 64 \<Longrightarrow> merkle_root_vec sha xs = Inr (tree_node (hash_pair sha) ((!) xs) d 0)"
  by (auto simp: merkle_root_vec_def root_loop_tree is_power_of_two_pow)

lemma buddy_lt: "i < 2 ^ Suc d \<Longrightarrow> buddy i < 2 ^ Suc d"
  by (auto simp: buddy_def elim!: evenE)

lemma buddy_half_lt: "i < 2 ^ Suc d \<Longrightarrow> l \<le> d \<Longrightarrow> buddy (i div 2 ^ l) < 2 ^ Suc (d - l)"
proof (rule buddy_lt)
  assume *: "i < 2 ^ Suc d" "l \<le> d"
  then have "(2 :: nat) ^ Suc d = 2 ^ Suc (d - l) * 2 ^ l" by (simp flip: power_Suc power_add)
  with * show "i div 2 ^ l < 2 ^ Suc (d - l)" by (simp add: less_mult_imp_div_less)
qed

lemma branch_walk_sibling_path:
  "length xs = 2 ^ d \<Longrightarrow> i < 2 ^ d \<Longrightarrow> branch_walk sha d xs i = sibling_path (hash_pair sha) ((!) xs) d i"
proof (induction d arbitrary: xs i)
  case (Suc d)
  have half: "i div 2 div 2 ^ l = i div 2 ^ Suc l" for l by (simp add: div_mult2_eq)
  have "branch_walk sha d (pair_up sha xs) (i div 2) = sibling_path (hash_pair sha) ((!) (pair_up sha xs)) d (i div 2)"
    by (rule Suc.IH) (use Suc.prems in \<open>simp_all add: length_beacon_pair_up\<close>)
  also have "\<dots> = map (\<lambda>l. tree_node (hash_pair sha) ((!) xs) (Suc l) (buddy (i div 2 ^ Suc l))) [0..<d]"
    unfolding sibling_path_def half
  proof (rule map_cong [OF refl])
    fix l assume "l \<in> set [0..<d]"
    then have l: "l < d" by simp
    from buddy_half_lt [OF Suc.prems(2), of "Suc l"] l
    have "buddy (i div 2 ^ Suc l) < 2 ^ Suc (d - Suc l)" by simp
    also have "Suc (d - Suc l) = d - l" using l by simp
    finally have lt: "buddy (i div 2 ^ Suc l) < 2 ^ (d - l)" .
    show "tree_node (hash_pair sha) ((!) (pair_up sha xs)) l (buddy (i div 2 ^ Suc l)) =
        tree_node (hash_pair sha) ((!) xs) (Suc l) (buddy (i div 2 ^ Suc l))"
      by (rule tree_node_pair_up [OF Suc.prems(1) _ lt]) (use l in simp)
  qed
  finally show ?case
    unfolding branch_walk.simps nat_xor_one
    by (simp add: sibling_path_def upt_conv_Cons map_Suc_upt [symmetric] del: upt_Suc power_Suc)
qed (simp add: sibling_path_def)

lemma chunks_exact: "length bs = 32 * k \<Longrightarrow> length (chunks 32 bs) = k"
proof (induction k arbitrary: bs)
  case 0
  then show ?case by (simp add: chunks.simps)
next
  case (Suc k)
  then show ?case by (subst chunks.simps) auto
qed

text \<open>What a successful computation of the payload root says about its tree.\<close>

lemma ssz_execution_payload_root_Inr:
  assumes "ssz_execution_payload_root cr e = Inr (root, leaves)"
  shows "length leaves = 32 \<and> root = tree_node (hash_pair (sha256 cr)) ((!) leaves) 5 0 \<and>
    parse_bytes32 cr (ex_block_hash e) = Inr (leaves ! 12) \<and>
    (\<exists>n. parse_number (ex_block_number e) = Inr n \<and> leaves ! 6 = uint64_leaf n)"
proof -
  have root: "root = tree_node (hash_pair (sha256 cr)) ((!) leaves) 5 0"
    if "merkle_root_vec (sha256 cr) leaves = Inr root" "length leaves = 32" for root leaves
    using that merkle_root_vec_tree [of leaves 5 "sha256 cr"] by simp
  from assms show ?thesis
    unfolding ssz_execution_payload_root_def Let_def
    by (clarsimp simp del: tree_node.simps dest!: root)
qed

lemma length_merkle_branch_32 [simp]: "length (merkle_branch_32 sha leaves i) = 5"
proof -
  have "length (branch_walk sha d leaves i) = d" for d
    by (induction d arbitrary: leaves i) simp_all
  then show ?thesis by (simp add: merkle_branch_32_def)
qed

text \<open>The branch to the block hash is never what an answer of the node can spoil.\<close>

lemma build_helios_witness_Inr:
  assumes "build_helios_witness cr update gen pubkey prev_root = Inr w"
  shows "hw_prev_trusted_root w = prev_root \<and> sync_committee_pubkey w = pubkey \<and>
    length (finality_branch w) = 6 \<and> length (body_to_exec_branch w) = 4 \<and> length (exec_to_hash_branch w) = 5 \<and>
    climb (hash_pair (sha256 cr)) 12 (hw_execution_block_hash w) (exec_to_hash_branch w) = execution_payload_root w \<and>
    parse_beacon_header cr (lc_beacon (fu_finalized_header update)) = Inr (finalized_header w) \<and>
    parse_bytes32 cr (ex_block_hash (lc_execution (fu_finalized_header update))) = Inr (hw_execution_block_hash w)"
proof -
  have branch: "length ss = n" if "parse_branch n cr nodes = Inr ss" for n nodes ss
    using that by (auto simp: parse_branch_def dest: length_rmap split: if_splits)
  have payload: "climb (hash_pair (sha256 cr)) 12 b (merkle_branch_32 (sha256 cr) leaves 12) = root"
    if "ssz_execution_payload_root cr e = Inr (root, leaves)" "parse_bytes32 cr (ex_block_hash e) = Inr b"
    for e root leaves b
  proof -
    from ssz_execution_payload_root_Inr [OF that(1)] that(2)
    have leaves: "length leaves = 2 ^ 5" "leaves ! 12 = b"
      and root: "root = tree_node (hash_pair (sha256 cr)) ((!) leaves) 5 0" by simp_all
    from leaves(1) have "merkle_branch_32 (sha256 cr) leaves 12 = sibling_path (hash_pair (sha256 cr)) ((!) leaves) 5 12"
      unfolding merkle_branch_32_def by (rule branch_walk_sibling_path) simp
    with climb_sibling_path [of "hash_pair (sha256 cr)" 12 "(!) leaves" 5] leaves(2) root
    show ?thesis by simp
  qed
  from assms show ?thesis
    unfolding build_helios_witness_def parse_branch_6_def parse_branch_4_def
    by (clarsimp simp: branch payload)
qed

section \<open>Properties\<close>

text \<open>Property C19. The witness the builder makes from an honest update is accepted by the circuit:
  when the finality branch and the payload branch are the sibling paths of the attested state's and
  the finalized body's SSZ trees, the slots are in order and enough members took part, the circuit
  commits to the finalized header's root and slot and to the block hash the node reported. The
  branch to the block hash, which the builder computes itself, always passes.\<close>

theorem honest_update_accepted:
  assumes "build_helios_witness cr update gen pubkey prev_root = Inr w"
    and "state_root (attested_header w) = tree_node (hash_pair (sha256 cr)) state 6 0"
    and "state 41 = hash_tree_root_beacon_header (sha256 cr) (finalized_header w)"
    and "finality_branch w = sibling_path (hash_pair (sha256 cr)) state 6 41"
    and "body_root (finalized_header w) = tree_node (hash_pair (sha256 cr)) body 4 0"
    and "body 9 = execution_payload_root w"
    and "body_to_exec_branch w = sibling_path (hash_pair (sha256 cr)) body 4 9"
    and "0 < slot (finalized_header w)" "slot (finalized_header w) \<le> slot (attested_header w)"
    and "342 \<le> unat (sync_committee_participation w)"
    and "sync_aggregate_signature w \<noteq> 0" "pubkey \<noteq> 0"
  shows "\<exists>out. helios_main (sha256 cr) w = Inr out \<and> ho_prev_trusted_root out = prev_root \<and>
    ho_new_beacon_root out = state 41 \<and> ho_new_slot out = slot (finalized_header w) \<and>
    parse_bytes32 cr (ex_block_hash (lc_execution (fu_finalized_header update))) = Inr (ho_execution_block_hash out)"
proof -
  note built = build_helios_witness_Inr [OF assms(1)]
  have "climb (hash_pair (sha256 cr)) 41 (state 41) (finality_branch w) = state_root (attested_header w)"
    using climb_sibling_path [of "hash_pair (sha256 cr)" 41 state 6] assms(2,4) by simp
  moreover have "climb (hash_pair (sha256 cr)) 9 (execution_payload_root w) (body_to_exec_branch w) =
      body_root (finalized_header w)"
    using climb_sibling_path [of "hash_pair (sha256 cr)" 9 body 4] assms(5,6,7) by simp
  ultimately show ?thesis
    using assms(3,8-12) built by (simp add: helios_main_Inr_iff)
qed

text \<open>Property C29. The payload root binds the execution block: two answers whose payload roots agree
  report the same block hash and block number, unless the hash collides on the two trees' nodes.\<close>

theorem payload_root_binds_block:
  assumes "ssz_execution_payload_root cr e = Inr (root, leaves)" "ssz_execution_payload_root cr e' = Inr (root, leaves')"
    and "inj_on (sha256 cr) (set (tree_pres pair_pre (hash_pair (sha256 cr)) ((!) leaves) 5 0) \<union>
                             set (tree_pres pair_pre (hash_pair (sha256 cr)) ((!) leaves') 5 0))"
  shows "parse_bytes32 cr (ex_block_hash e) = parse_bytes32 cr (ex_block_hash e') \<and>
    parse_number (ex_block_number e) = parse_number (ex_block_number e')"
proof -
  note a = ssz_execution_payload_root_Inr [OF assms(1)] and b = ssz_execution_payload_root_Inr [OF assms(2)]
  let ?S = "set (tree_pres pair_pre (hash_pair (sha256 cr)) ((!) leaves) 5 0) \<union>
            set (tree_pres pair_pre (hash_pair (sha256 cr)) ((!) leaves') 5 0)"
  from a b have roots: "tree_node (hash_pair (sha256 cr)) ((!) leaves) 5 0 = tree_node (hash_pair (sha256 cr)) ((!) leaves') 5 0"
    by (simp del: tree_node.simps)
  have leaf: "leaves ! i = leaves' ! i" if "i < 32" for i
    by (rule pool.tree_binding [OF roots assms(3)]) (use that in simp_all)
  have "uint64_leaf m = uint64_leaf n \<Longrightarrow> m = n" for m n
    by (simp add: uint64_leaf_def pad32_def le8_padded_inject)
  with a b leaf [of 12] leaf [of 6] show ?thesis by auto
qed

section \<open>Witnesses\<close>

text \<open>A sample decoder that knows a few names, and an update whose trees have equal nodes.\<close>

definition demo_crates :: crates where
  "demo_crates = \<lparr>sha256 = first32, hex_encode = sample_encode,
     hex_decode = map_of [(''z4'', replicate 4 0), (''z20'', replicate 20 0), (''z32'', replicate 32 0),
       (''z256'', replicate 256 0), (''bits'', replicate 64 255), (''sig'', replicate 96 1),
       (''root'', 1 # replicate 31 0)]\<rparr>"

definition demo_payload :: execution_payload_header_json where
  "demo_payload =
     \<lparr>ex_parent_hash = ''z32'', ex_fee_recipient = ''z20'', ex_state_root = ''z32'', ex_receipts_root = ''z32'',
      ex_logs_bloom = ''z256'', ex_prev_randao = ''z32'', ex_block_number = ''0'', ex_gas_limit = ''0'',
      ex_gas_used = ''0'', ex_timestamp = ''0'', ex_extra_data = [], ex_base_fee_per_gas = ''0'',
      ex_block_hash = ''z32'', ex_transactions_root = ''z32'', ex_withdrawals_root = ''z32'',
      ex_blob_gas_used = ''0'', ex_excess_blob_gas = ''0''\<rparr>"

definition demo_finality_update :: finality_update_json where
  "demo_finality_update =
     \<lparr>fu_attested_header =
        \<lparr>lc_beacon = \<lparr>bj_slot = ''2'', bj_proposer_index = ''0'', bj_parent_root = ''z32'',
                      bj_state_root = ''root'', bj_body_root = ''z32''\<rparr>,
         lc_execution = demo_payload, lc_execution_branch = replicate 4 ''z32''\<rparr>,
      fu_finalized_header =
        \<lparr>lc_beacon = \<lparr>bj_slot = ''1'', bj_proposer_index = ''0'', bj_parent_root = ''z32'',
                      bj_state_root = ''z32'', bj_body_root = ''z32''\<rparr>,
         lc_execution = demo_payload, lc_execution_branch = replicate 4 ''z32''\<rparr>,
      fu_finality_branch = replicate 6 ''root'',
      fu_sync_aggregate = \<lparr>sync_committee_bits = ''bits'', sync_committee_signature = ''sig''\<rparr>,
      fu_signature_slot = ''3''\<rparr>"

definition demo_genesis :: genesis_config_json where
  "demo_genesis = \<lparr>gc_genesis_validators_root = ''z32'', gc_genesis_fork_version = ''z4'', gc_genesis_time = ''0''\<rparr>"

definition slot_leaf :: bytes32 where
  "slot_leaf = array32 (1 # replicate 31 0)"

definition demo_built :: helios_witness where
  "demo_built = \<lparr>hw_prev_trusted_root = 3,
     attested_header = \<lparr>slot = 2, proposer_index = 0, parent_root = 0, state_root = slot_leaf, body_root = 0\<rparr>,
     finalized_header = \<lparr>slot = 1, proposer_index = 0, parent_root = 0, state_root = 0, body_root = 0\<rparr>,
     finality_branch = replicate 6 slot_leaf,
     sync_committee_participation = 512,
     sync_aggregate_signature = from_be_bytes (replicate 96 1), sync_committee_pubkey = 1,
     fork_version = 0, genesis_validators_root = 0, execution_payload_root = 0,
     body_to_exec_branch = replicate 4 0, hw_execution_block_hash = 0,
     exec_to_hash_branch = replicate 5 0\<rparr>"

lemma tree_node_first32: "tree_node (hash_pair first32) f l i = f (i * 2 ^ l)"
  by (induction l arbitrary: i) (simp_all add: mult.assoc mult.left_commute)

lemma zero_bytes: "from_be_bytes (replicate n 0) = 0"
proof -
  have "int_of_le (replicate n 0) = 0" by (induction n) simp_all
  then show ?thesis by (simp add: from_be_bytes_def from_le_bytes_def)
qed

lemma beacon_demo_decode:
  "beacon_hex_decode demo_crates ''z4'' = Inr (replicate 4 0)"
  "beacon_hex_decode demo_crates ''z20'' = Inr (replicate 20 0)"
  "beacon_hex_decode demo_crates ''z32'' = Inr (replicate 32 0)"
  "beacon_hex_decode demo_crates ''z256'' = Inr (replicate 256 0)"
  "beacon_hex_decode demo_crates ''bits'' = Inr (replicate 64 255)"
  "beacon_hex_decode demo_crates ''sig'' = Inr (replicate 96 1)"
  "beacon_hex_decode demo_crates ''root'' = Inr (1 # replicate 31 0)"
  "beacon_hex_decode demo_crates [] = Inr []"
  by (simp_all add: beacon_hex_decode_def trim_id white_space_eval trim_start_matches.simps demo_crates_def)

lemma demo_numbers:
  "parse_number ''0'' = Inr 0" "parse_number ''1'' = Inr 1" "parse_number ''2'' = Inr 2"
  by (simp_all add: parse_number_def parse_u64_def u64_from_str_radix_def parse_nat_radix_def digit_value_def)

lemma demo_parse32:
  "parse_bytes32 demo_crates ''z32'' = Inr 0" "parse_bytes32 demo_crates ''root'' = Inr slot_leaf"
  by (simp_all add: parse_bytes32_def beacon_demo_decode exact_length_def array32_def zero_bytes slot_leaf_def)

lemma pad32_zeros: "pad32 (replicate n 0) = 0"
  by (simp add: pad32_def array32_def zero_bytes flip: replicate_add)

lemma uint64_leaf_zero: "uint64_leaf 0 = 0"
proof -
  have "le8 0 = replicate 8 0" by code_simp
  then show ?thesis by (simp only: uint64_leaf_def pad32_zeros)
qed

lemma demo_payload_root:
  "ssz_execution_payload_root demo_crates demo_payload = Inr (0, replicate 32 0)"
proof -
  have bloom: "ssz_bytes_vector_root first32 (replicate 256 0) = Inr 0"
  proof -
    have "chunks 32 (replicate (32 * k) 0) = replicate k (replicate 32 0)" for k
      by (induction k) (simp_all add: chunks.simps)
    from this [of 8] show ?thesis
      using merkle_root_vec_tree [of "replicate 8 0" 3 first32]
      by (simp add: ssz_bytes_vector_root_def pad32_zeros tree_node_first32)
  qed
  have extra: "ssz_byte_list_root first32 [] 1 = Inr 0"
  proof -
    have "next_power_of_two 1 = 1" by (simp add: next_power_of_two_def upt_conv_Cons)
    then show ?thesis
      using merkle_root_vec_tree [of "[0]" 0 first32]
      by (simp add: ssz_byte_list_root_def chunks.simps uint64_leaf_zero sha256_pair_eq)
  qed
  have fee: "parse_uint256_le demo_crates ''0'' = Inr 0"
  proof -
    have "to_le_bytes 16 (0 :: u128) = replicate 16 0" by code_simp
    then show ?thesis
      by (simp add: parse_uint256_le_def trim_id white_space_eval parse_u128_def parse_nat_radix_def
          digit_value_def pad32_zeros)
  qed
  have leaves: "[0, 0, 0, 0, 0, 0, 0, 0, 0, 0, 0, 0, 0, 0, 0, 0, 0] @ replicate 15 0 = replicate 32 (0 :: bytes32)"
    by (simp add: eval_nat_numeral)
  have root: "merkle_root_vec first32 (replicate 32 0) = Inr 0"
    using merkle_root_vec_tree [of "replicate 32 0" 5 first32] by (simp add: tree_node_first32)
  have sha: "sha256 demo_crates = first32" by (simp add: demo_crates_def)
  show ?thesis
    unfolding ssz_execution_payload_root_def demo_payload_def
    by (simp only: execution_payload_header_json.simps demo_parse32 beacon_demo_decode demo_numbers rbind.simps
        exact_length_def length_replicate refl if_True sha bloom extra fee pad32_zeros uint64_leaf_zero Let_def
        ensure_def list.size le0 leaves root)
qed

lemma demo_built_eq: "build_helios_witness demo_crates demo_finality_update demo_genesis 1 3 = Inr demo_built"
proof -
  have branches: "rmap (parse_bytes32 demo_crates) (replicate n ''z32'') = Inr (replicate n 0)"
    "rmap (parse_bytes32 demo_crates) (replicate n ''root'') = Inr (replicate n slot_leaf)" for n
    by (induction n) (simp_all add: demo_parse32)
  have ones: "count_ones 255 = 8" by code_simp
  have sum: "of_nat (sum_list (map count_ones (replicate 64 255))) = (512 :: u16)"
    by (simp add: ones sum_list_replicate)
  have block: "merkle_branch_32 first32 (replicate 32 0) 12 = replicate 5 0"
  proof -
    have "replicate 5 (0 :: bytes32) = [0, 0, 0, 0, 0]" by (simp add: eval_nat_numeral)
    then show ?thesis
      using branch_walk_sibling_path [of "replicate 32 0" 5 12 first32]
      by (simp add: merkle_branch_32_def sibling_path_def tree_node_first32 buddy_def upt_conv_Cons
          del: hash_pair_first32)
  qed
  have fv: "parse_fork_version demo_crates ''z4'' = Inr 0"
    by (simp add: parse_fork_version_def beacon_demo_decode exact_length_def zero_bytes)
  have sha: "sha256 demo_crates = first32" by (simp add: demo_crates_def)
  have h1: "parse_beacon_header demo_crates (lc_beacon (fu_attested_header demo_finality_update)) = Inr \<lparr>slot = 2, proposer_index = 0, parent_root = 0, state_root = slot_leaf, body_root = 0\<rparr>"
    by (simp add: demo_finality_update_def parse_beacon_header_def demo_numbers demo_parse32)
  have h2: "parse_beacon_header demo_crates (lc_beacon (fu_finalized_header demo_finality_update)) = Inr \<lparr>slot = 1, proposer_index = 0, parent_root = 0, state_root = 0, body_root = 0\<rparr>"
    by (simp add: demo_finality_update_def parse_beacon_header_def demo_numbers demo_parse32)
  have h3: "parse_branch_6 demo_crates (fu_finality_branch demo_finality_update) = Inr (replicate 6 slot_leaf)"
    by (simp add: demo_finality_update_def parse_branch_6_def parse_branch_def branches)
  have h4: "parse_branch_4 demo_crates (lc_execution_branch (fu_finalized_header demo_finality_update)) = Inr (replicate 4 0)"
    by (simp add: demo_finality_update_def parse_branch_4_def parse_branch_def branches)
  have h5: "lc_execution (fu_finalized_header demo_finality_update) = demo_payload"
    "sync_committee_bits (fu_sync_aggregate demo_finality_update) = ''bits''"
    "sync_committee_signature (fu_sync_aggregate demo_finality_update) = ''sig''" "ex_block_hash demo_payload = ''z32''"
    by (simp_all add: demo_finality_update_def demo_payload_def)
  have h6: "exact_length 96 (replicate 96 1) = Inr (replicate 96 1)"
    by (simp add: exact_length_def)
  have h7: "gc_genesis_fork_version demo_genesis = ''z4''" "gc_genesis_validators_root demo_genesis = ''z32''"
    by (simp_all add: demo_genesis_def)
  show ?thesis
    unfolding build_helios_witness_def h1 h2 h3 h4 h5 h6 h7 fv beacon_demo_decode demo_parse32 demo_payload_root
    by (simp only: rbind.simps h6 case_prod_conv sum sha block demo_built_def)
qed

lemma demo_built_header_root:
  "hash_tree_root_beacon_header first32
     \<lparr>slot = 1, proposer_index = 0, parent_root = 0, state_root = 0, body_root = 0\<rparr> = slot_leaf"
proof -
  have leaf: "le8 1 @ replicate 24 0 = 1 # replicate 31 0" by code_simp
  show ?thesis
    by (simp add: hash_tree_root_tree tree_node_first32 header_leaves_def slot_leaf_def leaf
        del: tree_node.simps hash_pair_first32)
qed

lemma ones_nonzero: "from_be_bytes (replicate 96 1) \<noteq> (0 :: bytes96)"
proof
  assume "from_be_bytes (replicate 96 1) = (0 :: bytes96)"
  then have "to_be_bytes 96 (from_be_bytes (replicate 96 1) :: bytes96) =
      to_be_bytes 96 (from_be_bytes (replicate 96 0) :: bytes96)"
    by (simp add: zero_bytes)
  then show False by (simp add: to_from_be_bytes)
qed

lemma slot_leaf_nonzero: "slot_leaf \<noteq> 0"
proof
  assume "slot_leaf = 0"
  then have "b32 (array32 (1 # replicate 31 0)) = b32 (array32 (replicate 32 0))"
    by (simp add: slot_leaf_def array32_def zero_bytes)
  then have "(1 :: byte) # replicate 31 0 = replicate (Suc 31) 0" by (simp add: b32_array32)
  then show False by (simp only: replicate_Suc list.inject) simp
qed

definition demo_built_outputs :: helios_public_outputs where
  "demo_built_outputs = \<lparr>ho_prev_trusted_root = 3, ho_new_beacon_root = slot_leaf, ho_new_slot = 1,
     ho_execution_block_hash = 0\<rparr>"

lemma demo_built_accepted: "helios_main first32 demo_built = Inr demo_built_outputs"
  using ones_nonzero
  by (simp add: helios_main_Inr_iff demo_built_def demo_built_outputs_def demo_built_header_root climb_replicate)

theorem honest_update_accepted_witness:
  "\<exists>out. helios_main first32 demo_built = Inr out \<and> ho_new_slot out = 1"
proof -
  have sha: "sha256 demo_crates = first32" by (simp add: demo_crates_def)
  have path: "sibling_path (hash_pair first32) (\<lambda>_. c) d i = replicate d c" for c :: bytes32 and d i
    by (simp add: sibling_path_def tree_node_first32 map_replicate_const)
  have "\<exists>out. helios_main (sha256 demo_crates) demo_built = Inr out \<and> ho_prev_trusted_root out = 3 \<and>
    ho_new_beacon_root out = slot_leaf \<and> ho_new_slot out = slot (finalized_header demo_built) \<and>
    parse_bytes32 demo_crates (ex_block_hash (lc_execution (fu_finalized_header demo_finality_update))) =
      Inr (ho_execution_block_hash out)"
    by (rule honest_update_accepted [where state = "\<lambda>_. slot_leaf" and body = "\<lambda>_. 0", OF demo_built_eq])
      (use ones_nonzero in \<open>simp_all add: sha demo_built_header_root path tree_node_first32 demo_built_def
        del: tree_node.simps\<close>)
  then show ?thesis by (auto simp: sha demo_built_def)
qed

theorem payload_root_binds_block_witness:
  "parse_bytes32 demo_crates (ex_block_hash demo_payload) =
     parse_bytes32 demo_crates (ex_block_hash (demo_payload\<lparr>ex_block_hash := ''z32''\<rparr>)) \<and>
   parse_number (ex_block_number demo_payload) =
     parse_number (ex_block_number (demo_payload\<lparr>ex_block_hash := ''z32''\<rparr>))"
proof (rule payload_root_binds_block [OF demo_payload_root])
  show "ssz_execution_payload_root demo_crates (demo_payload\<lparr>ex_block_hash := ''z32''\<rparr>) = Inr (0, replicate 32 0)"
    using demo_payload_root by (simp add: demo_payload_def)
  have "set (tree_pres pair_pre (hash_pair first32) ((!) (replicate 32 0)) d j) \<subseteq> {pair_pre 0 0}"
    if "Suc j * 2 ^ d \<le> 32" for d j
    using that
  proof (induction d arbitrary: j)
    case (Suc d)
    have lt: "2 * j * 2 ^ d < 32" "(2 * j + 1) * 2 ^ d < 32"
    proof -
      from Suc.prems have "2 * 2 ^ d + 2 * (j * 2 ^ d) \<le> 32" by (simp add: algebra_simps)
      with zero_less_power [of "2 :: nat" d] have "2 * (j * 2 ^ d) < 32" "2 * (j * 2 ^ d) + 2 ^ d < 32" by linarith+
      then show "2 * j * 2 ^ d < 32" "(2 * j + 1) * 2 ^ d < 32" by (simp_all add: algebra_simps)
    qed
    from Suc.IH [of "2 * j"] Suc.IH [of "2 * j + 1"] Suc.prems lt show ?case
      by (auto simp: tree_node_first32 algebra_simps simp del: hash_pair_first32)
  qed simp
  from this [of 0 5] show "inj_on (sha256 demo_crates)
      (set (tree_pres pair_pre (hash_pair (sha256 demo_crates)) ((!) (replicate 32 0)) 5 0) \<union>
       set (tree_pres pair_pre (hash_pair (sha256 demo_crates)) ((!) (replicate 32 0)) 5 0))"
    by (auto intro: inj_on_subset [of _ "{pair_pre 0 0}"] simp: demo_crates_def)
qed

end
