(* ===== verification/Relayer.thy ===== *)
theory Relayer
  imports Bridge Beacon_Api
begin

text \<open>
  \<open>crates/zk-bridge/src/relayer.rs\<close>: the off-chain service that watches the bridge contract, builds
  claims and light client updates and submits them to the rollup. Its two clients speak JSON-RPC
  through \<open>send\<close>; a poll of the endless loop \<open>run\<close> is one step, and \<open>polls n\<close> the first n of them.
  Logging and the sleep between polls change nothing and are left out. The prover of the SP1 SDK, the
  hex crate and Keccak-256 are parameters.
\<close>

section \<open>Types\<close>

definition SLOTS_PER_EPOCH :: u64 where "SLOTS_PER_EPOCH = 32"

record relayer_config =
  eth_rpc :: string
  beacon_url :: string
  rc_bridge_contract :: string
  obscura_rpc :: string
  mock_proofs :: bool
  poll_interval_secs :: u64
  start_block :: u64

record eth_log =
  log_block_number :: u64
  log_block_hash :: bytes32
  log_tx_hash :: bytes32
  log_log_index :: u64
  log_deposit_id :: u64
  log_sender :: bytes20
  log_recipient :: bytes32
  log_amount :: u64

record storage_proof_result =
  sp_block_header_rlp :: bytes
  sp_state_root :: bytes32
  sp_storage_root :: bytes32
  sp_account_proof :: "bytes list"
  sp_storage_proof :: "bytes list"
  sp_slot_value :: u64

record eth_client =
  eth_rpc_url :: string
  eth_bridge_contract :: string

record obscura_client =
  obscura_rpc_url :: string

record bridge_relayer =
  rl_config :: relayer_config
  rl_processed :: "u64 set"
  rl_eth :: eth_client
  rl_obscura :: obscura_client
  rl_beacon :: beacon_api_client

definition eth_client_new :: "string \<Rightarrow> string \<Rightarrow> eth_client" where
  "eth_client_new url contract = \<lparr>eth_rpc_url = url, eth_bridge_contract = contract\<rparr>"

definition obscura_client_new :: "string \<Rightarrow> obscura_client" where
  "obscura_client_new url = \<lparr>obscura_rpc_url = url\<rparr>"

definition bridge_relayer_new :: "relayer_config \<Rightarrow> bridge_relayer" where
  "bridge_relayer_new c =
     \<lparr>rl_config = c, rl_processed = {}, rl_eth = eth_client_new (eth_rpc c) (rc_bridge_contract c),
      rl_obscura = obscura_client_new (obscura_rpc c), rl_beacon = beacon_client_new (beacon_url c)\<rparr>"

text \<open>The messages the relayer sends to the rollup.\<close>

datatype relay_message = ClaimMsg claim_deposit | HeliosMsg update_helios_head

text \<open>What \<open>generate_helios_sp1_proof_native\<close> uses of the file system and the SDK.\<close>

record ('pk, 'pr) helios_prover =
  read_helios_elf :: "bytes option"
  helios_proving_key :: "bytes \<Rightarrow> 'pk"
  prove_groth16 :: "'pk \<Rightarrow> helios_witness \<Rightarrow> 'pr option"
  bincode_proof :: "'pr \<Rightarrow> bytes option"

section \<open>Helpers\<close>

definition compute_deposit_slot :: "hash32 \<Rightarrow> u64 \<Rightarrow> bytes32" where
  "compute_deposit_slot keccak deposit =
     keccak (replicate 24 0 @ be8 deposit @ replicate 31 0 @ [3])"

definition relayer_hex_decode :: "crates \<Rightarrow> string \<Rightarrow> client_error + bytes" where
  "relayer_hex_decode cr s =
     (let t = trim_start_matches ''0x'' s
      in if t = [] then Inr []
         else case hex_decode cr t of None \<Rightarrow> Inl BadHex | Some bs \<Rightarrow> Inr bs)"

definition hex_number :: "string \<Rightarrow> client_error + u64" where
  "hex_number s = (case u64_from_str_radix 16 s of None \<Rightarrow> Inl BadNumber | Some n \<Rightarrow> Inr n)"

definition hex_to_u64 :: "string \<Rightarrow> client_error + u64" where
  "hex_to_u64 s = (let t = trim_start_matches ''0x'' s in if t = [] then Inr 0 else hex_number t)"

definition hex_to_bytes32 :: "crates \<Rightarrow> string \<Rightarrow> client_error + bytes32" where
  "hex_to_bytes32 cr s =
     rbind (relayer_hex_decode cr s) (\<lambda>bs. rbind (exact_length 32 bs) (\<lambda>bs. Inr (array32 bs)))"

definition hex_to_address :: "crates \<Rightarrow> string \<Rightarrow> client_error + bytes20" where
  "hex_to_address cr s =
     rbind (relayer_hex_decode cr s) (\<lambda>bs.
       if length bs < 20 then Inl (BadLength (length bs))
       else Inr (array20 (drop (length bs - 20) bs)))"

text \<open>\<open>decode_to_slice\<close> is \<open>decode\<close> with a check of the length.\<close>

definition parse_address_str :: "crates \<Rightarrow> string \<Rightarrow> client_error + bytes20" where
  "parse_address_str cr s0 =
     (let s = trim_start_matches ''0x'' (trim s0)
      in if length s \<noteq> 40 then Inl BadAddress
         else case hex_decode cr s of
                None \<Rightarrow> Inl BadHex
              | Some bs \<Rightarrow> rbind (exact_length 20 bs) (\<lambda>bs. Inr (array20 bs)))"

definition hex_quantity :: "u64 \<Rightarrow> string" where
  "hex_quantity w = ''0x'' @ show_hex (unat w)"

definition str_or :: "json \<Rightarrow> string \<Rightarrow> string" where
  "str_or v d = unwrap_or (as_str v) d"

definition encode_block_header_rlp :: "crates \<Rightarrow> json \<Rightarrow> client_error + bytes" where
  "encode_block_header_rlp cr block = relayer_hex_decode cr (str_or (json_field block ''hash'') ''0x00'')"

section \<open>The Ethereum client\<close>

definition rpc_result :: "json \<Rightarrow> client_error + json" where
  "rpc_result resp =
     (case json_get resp ''error'' of
        Some err \<Rightarrow> Inl (RpcError err)
      | None \<Rightarrow> Inr (json_field resp ''result''))"

definition eth_call :: "'m env \<Rightarrow> eth_client \<Rightarrow> string \<Rightarrow> json \<Rightarrow> ('m, json) io" where
  "eth_call env c meth ps =
     io_bind (send env (RpcPost (eth_rpc_url c) meth (Params ps))) (\<lambda>resp. io_lift (rpc_result resp))"

definition get_latest_block :: "'m env \<Rightarrow> eth_client \<Rightarrow> ('m, u64) io" where
  "get_latest_block env c =
     io_bind (eth_call env c ''eth_blockNumber'' (JArray [])) (\<lambda>response.
     io_lift (case as_str response of
                None \<Rightarrow> Inl BadJson
              | Some hex_str \<Rightarrow> hex_number (trim_start_matches ''0x'' hex_str)))"

text \<open>Indexing a vector or a slice out of range panics.\<close>

definition nth_or_panic :: "'a list \<Rightarrow> nat \<Rightarrow> client_error + 'a" where
  "nth_or_panic xs i = (if i < length xs then Inr (xs ! i) else Inl Panicked)"

definition parse_deposit_log :: "crates \<Rightarrow> json \<Rightarrow> client_error + eth_log" where
  "parse_deposit_log cr log =
     rbind (decoded (as_array (json_field log ''topics''))) (\<lambda>topics.
     rbind (rbind (nth_or_panic topics 1) (\<lambda>t. hex_to_u64 (str_or t []))) (\<lambda>deposit.
     rbind (rbind (nth_or_panic topics 2) (\<lambda>t. hex_to_address cr (str_or t []))) (\<lambda>from.
     rbind (rbind (nth_or_panic topics 3) (\<lambda>t. hex_to_bytes32 cr (str_or t []))) (\<lambda>recipient.
     rbind (relayer_hex_decode cr (str_or (json_field log ''data'') ''0x'')) (\<lambda>bs.
     rbind (ensure (32 \<le> length bs) Panicked) (\<lambda>_.
     rbind (hex_to_u64 (str_or (json_field log ''blockNumber'') ''0x0'')) (\<lambda>block_number.
     rbind (hex_to_bytes32 cr (str_or (json_field log ''blockHash'') [])) (\<lambda>block_hash.
     rbind (hex_to_bytes32 cr (str_or (json_field log ''transactionHash'') [])) (\<lambda>tx_hash.
     rbind (hex_to_u64 (str_or (json_field log ''logIndex'') ''0x0'')) (\<lambda>log_index.
     Inr \<lparr>log_block_number = block_number, log_block_hash = block_hash, log_tx_hash = tx_hash,
          log_log_index = log_index, log_deposit_id = deposit, log_sender = from,
          log_recipient = recipient,
          log_amount = from_be_bytes (take 8 (drop 24 bs))\<rparr>))))))))))"

text \<open>Logs that do not parse are skipped; a panic is not an error.\<close>

fun parse_logs :: "crates \<Rightarrow> json list \<Rightarrow> client_error + eth_log list" where
  "parse_logs cr [] = Inr []"
| "parse_logs cr (log # logs) =
     (case parse_deposit_log cr log of
        Inr l \<Rightarrow> rbind (parse_logs cr logs) (\<lambda>ls. Inr (l # ls))
      | Inl e \<Rightarrow> if e = Panicked then Inl Panicked else parse_logs cr logs)"

definition TOPIC0 :: string where
  "TOPIC0 = ''0x8a22e8ed8ee68e22fc67c94e4a26893b6d88ef0ee84bee8ca22a5b0a4d8a0a87''"

definition get_deposit_events :: "crates \<Rightarrow> 'm env \<Rightarrow> eth_client \<Rightarrow> u64 \<Rightarrow> u64 \<Rightarrow> ('m, eth_log list) io" where
  "get_deposit_events cr env c from_block to_block =
     io_bind (eth_call env c ''eth_getLogs''
               (JArray [JObject [(''fromBlock'', JString (hex_quantity from_block)),
                                 (''toBlock'', JString (hex_quantity to_block)),
                                 (''address'', JString (eth_bridge_contract c)),
                                 (''topics'', JArray [JString TOPIC0])]])) (\<lambda>logs_raw.
     io_lift (rbind (decoded (as_array logs_raw)) (parse_logs cr)))"

definition proof_nodes :: "crates \<Rightarrow> json \<Rightarrow> client_error + bytes list" where
  "proof_nodes cr v =
     rbind (decoded (as_array v)) (rmap (\<lambda>n. relayer_hex_decode cr (str_or n ''0x'')))"

definition get_block :: "'m env \<Rightarrow> eth_client \<Rightarrow> u64 \<Rightarrow> ('m, json) io" where
  "get_block env c block_number =
     eth_call env c ''eth_getBlockByNumber'' (JArray [JString (hex_quantity block_number), JBool False])"

definition get_storage_proof ::
    "crates \<Rightarrow> hash32 \<Rightarrow> 'm env \<Rightarrow> eth_client \<Rightarrow> u64 \<Rightarrow> u64 \<Rightarrow> ('m, storage_proof_result) io" where
  "get_storage_proof cr keccak env c block_number deposit =
     io_bind (eth_call env c ''eth_getProof''
               (JArray [JString (eth_bridge_contract c),
                        JArray [JString (''0x'' @ hex_encode cr (b32 (compute_deposit_slot keccak deposit)))],
                        JString (hex_quantity block_number)])) (\<lambda>pr.
       let first = json_item (json_field pr ''storageProof'') 0
       in io_bind (io_lift (hex_to_bytes32 cr (str_or (json_field pr ''stateRoot'') []))) (\<lambda>state_rt.
          io_bind (io_lift (hex_to_bytes32 cr (str_or (json_field pr ''storageHash'') []))) (\<lambda>storage_rt.
          io_bind (io_lift (proof_nodes cr (json_field pr ''accountProof''))) (\<lambda>account_nodes.
          io_bind (io_lift (proof_nodes cr (json_field first ''proof''))) (\<lambda>storage_nodes.
          io_bind (io_lift (hex_to_u64 (str_or (json_field first ''value'') ''0x0''))) (\<lambda>val.
          io_bind (get_block env c block_number) (\<lambda>block.
          io_bind (io_lift (encode_block_header_rlp cr block)) (\<lambda>header.
          io_return \<lparr>sp_block_header_rlp = header, sp_state_root = state_rt, sp_storage_root = storage_rt,
                     sp_account_proof = account_nodes, sp_storage_proof = storage_nodes,
                     sp_slot_value = val\<rparr>))))))))"

definition get_beacon_root :: "crates \<Rightarrow> 'm env \<Rightarrow> eth_client \<Rightarrow> u64 \<Rightarrow> ('m, bytes32) io" where
  "get_beacon_root cr env c block_number =
     io_bind (get_block env c block_number) (\<lambda>block.
       let root_hex = str_or (json_field block ''parentBeaconBlockRoot'') []
       in if length root_hex < 3
          then io_lift (hex_to_bytes32 cr (str_or (json_field block ''hash'') ''0x00''))
          else io_lift (hex_to_bytes32 cr root_hex))"

section \<open>The rollup client\<close>

definition get_helios_state :: "crates \<Rightarrow> 'm env \<Rightarrow> obscura_client \<Rightarrow> ('m, bytes32 \<times> u64) io" where
  "get_helios_state cr env c =
     io_bind (send env (RpcPost (obscura_rpc_url c) ''obscura_getHeliosState'' (Params (JArray [])))) (\<lambda>resp.
     io_bind (io_lift (rpc_result resp)) (\<lambda>result.
       let root_hex = str_or (json_field result ''trusted_beacon_root'') ''0x'';
           s = unwrap_or (as_u64 (json_field result ''trusted_slot'')) 0;
           root_bytes = (case relayer_hex_decode cr root_hex of Inl e \<Rightarrow> [] | Inr bs \<Rightarrow> bs)
       in io_return (if length root_bytes = 32 then array32 root_bytes else 0, s)))"

definition post_helios_update :: "relay_message env \<Rightarrow> obscura_client \<Rightarrow> update_helios_head \<Rightarrow> (relay_message, unit) io" where
  "post_helios_update env c u =
     io_bind (send env (RpcPost (obscura_rpc_url c) ''obscura_submitHeliosUpdate'' (Message (HeliosMsg u)))) (\<lambda>resp.
     io_bind (io_lift (rpc_result resp)) (\<lambda>_. io_return ()))"

definition submit_claim :: "relay_message env \<Rightarrow> obscura_client \<Rightarrow> claim_deposit \<Rightarrow> (relay_message, unit) io" where
  "submit_claim env c claim =
     io_bind (send env (RpcPost (obscura_rpc_url c) ''obscura_submitBridgeClaim'' (Message (ClaimMsg claim)))) (\<lambda>resp.
     io_bind (io_lift (rpc_result resp)) (\<lambda>_. io_return ()))"

section \<open>Proof generation\<close>

definition generate_helios_sp1_proof_native :: "('pk, 'pr) helios_prover \<Rightarrow> helios_witness \<Rightarrow> client_error + bytes" where
  "generate_helios_sp1_proof_native prover w =
     (case read_helios_elf prover of
        None \<Rightarrow> Inl ElfMissing
      | Some elf \<Rightarrow>
          (case prove_groth16 prover (helios_proving_key prover elf) w of
             None \<Rightarrow> Inl ProvingFailed
           | Some pr \<Rightarrow>
               (case bincode_proof prover pr of
                  None \<Rightarrow> Inl ProofNotSerializable
                | Some bs \<Rightarrow> Inr bs)))"

text \<open>The prover is \<open>None\<close> in a build without the \<open>native\<close> feature.\<close>

definition generate_helios_sp1_proof ::
    "('pk, 'pr) helios_prover option \<Rightarrow> helios_witness \<Rightarrow> helios_public_inputs \<Rightarrow> client_error + bytes" where
  "generate_helios_sp1_proof prover w i =
     (case prover of
        Some p \<Rightarrow> generate_helios_sp1_proof_native p w
      | None \<Rightarrow> Inl NeedsNative)"

definition generate_sp1_proof ::
    "eth_log \<Rightarrow> storage_proof_result \<Rightarrow> bridge_public_inputs \<Rightarrow> client_error + bytes" where
  "generate_sp1_proof log sp i = Inl ProverNotImplemented"

section \<open>The relayer\<close>

record ('pk, 'pr) relayer_deps =
  dep_crates :: crates
  dep_keccak :: hash32
  dep_prover :: "('pk, 'pr) helios_prover option"

definition relay_inputs :: "bytes32 \<Rightarrow> helios_witness \<Rightarrow> u64 \<Rightarrow> helios_public_inputs" where
  "relay_inputs trusted_root w s =
     \<lparr>prev_trusted_root = trusted_root, new_beacon_root = execution_payload_root w, new_slot = s,
      execution_block_hash = hw_execution_block_hash w\<rparr>"

definition submit_helios_update ::
    "('pk, 'pr) relayer_deps \<Rightarrow> relay_message env \<Rightarrow> bridge_relayer \<Rightarrow> (relay_message, unit) io" where
  "submit_helios_update d env r =
     (let cr = dep_crates d
      in io_bind (io_catch (get_helios_state cr env (rl_obscura r)) (\<lambda>_. io_return (0, 0))) (\<lambda>(trusted_root, current_slot).
         io_bind (get_finality_update env (rl_beacon r)) (\<lambda>update.
         io_bind (io_lift (parse_number (bj_slot (lc_beacon (fu_finalized_header update))))) (\<lambda>s.
           if s \<le> current_slot then io_return ()
           else io_bind (get_genesis env (rl_beacon r)) (\<lambda>gen.
                io_bind (io_catch (get_sync_committee_aggregate_pubkey cr env (rl_beacon r)
                                     (bj_parent_root (lc_beacon (fu_finalized_header update))))
                           (\<lambda>_. io_return (from_be_bytes (replicate 48 1)))) (\<lambda>pubkey.
                io_bind (io_lift (build_helios_witness cr update gen pubkey trusted_root)) (\<lambda>w.
                  let i = relay_inputs trusted_root w s
                  in io_bind (io_lift (if mock_proofs (rl_config r) then Inr (MOCK_HELIOS_PREFIX @ le8 s)
                                       else generate_helios_sp1_proof (dep_prover d) w i)) (\<lambda>pr.
                     post_helios_update env (rl_obscura r) \<lparr>helios_proof = pr, helios_inputs = i\<rparr>))))))))"

definition relayed_claim :: "eth_log \<Rightarrow> bytes32 \<Rightarrow> bytes20 \<Rightarrow> bytes \<Rightarrow> claim_deposit" where
  "relayed_claim log beacon_root contract pr =
     \<lparr>claim_proof = pr,
      claim_inputs = \<lparr>eth_block_hash = log_block_hash log, beacon_block_root = beacon_root,
        deposit_id = log_deposit_id log, obscura_recipient = log_recipient log,
        amount = log_amount log, bridge_contract = contract\<rparr>\<rparr>"

definition relay_deposit ::
    "('pk, 'pr) relayer_deps \<Rightarrow> relay_message env \<Rightarrow> bridge_relayer \<Rightarrow> eth_log \<Rightarrow> (relay_message, unit) io" where
  "relay_deposit d env r log =
     io_bind (get_storage_proof (dep_crates d) (dep_keccak d) env (rl_eth r) (log_block_number log)
                (log_deposit_id log)) (\<lambda>sp.
     io_bind (get_beacon_root (dep_crates d) env (rl_eth r) (log_block_number log)) (\<lambda>beacon_root.
     io_bind (io_lift (parse_address_str (dep_crates d) (rc_bridge_contract (rl_config r)))) (\<lambda>contract.
     io_bind (io_lift (if mock_proofs (rl_config r) then Inr (MOCK_PROOF_PREFIX @ le8 (log_deposit_id log))
                       else generate_sp1_proof log sp (claim_inputs (relayed_claim log beacon_root contract []))))
       (\<lambda>pr. submit_claim env (rl_obscura r) (relayed_claim log beacon_root contract pr)))))"

fun relay_logs ::
    "('pk, 'pr) relayer_deps \<Rightarrow> relay_message env \<Rightarrow> eth_log list \<Rightarrow> bridge_relayer \<Rightarrow>
     (relay_message, bridge_relayer) io" where
  "relay_logs d env [] r = io_return r"
| "relay_logs d env (log # logs) r =
     (if log_deposit_id log \<in> rl_processed r then relay_logs d env logs r
      else io_bind (io_catch
             (io_bind (relay_deposit d env r log) (\<lambda>_.
                io_return (r\<lparr>rl_processed := insert (log_deposit_id log) (rl_processed r)\<rparr>)))
             (\<lambda>_. io_return r)) (relay_logs d env logs))"

text \<open>The three results are the block scanned to, the last epoch with an update, and the relayer.\<close>

definition scan_and_relay ::
    "('pk, 'pr) relayer_deps \<Rightarrow> relay_message env \<Rightarrow> u64 \<Rightarrow> u64 \<Rightarrow> bridge_relayer \<Rightarrow>
     (relay_message, u64 \<times> u64 \<times> bridge_relayer) io" where
  "scan_and_relay d env from_block last_epoch r =
     io_bind (get_latest_block env (rl_eth r)) (\<lambda>latest.
       if from_block > latest then io_return (latest, last_epoch, r)
       else io_bind (get_deposit_events (dep_crates d) env (rl_eth r) from_block latest) (\<lambda>logs.
         let current_epoch = latest div SLOTS_PER_EPOCH
         in io_bind (if logs \<noteq> [] \<and> current_epoch > last_epoch
                     then io_catch (io_bind (submit_helios_update d env r) (\<lambda>_. io_return current_epoch))
                            (\<lambda>_. io_return last_epoch)
                     else io_return last_epoch) (\<lambda>epoch.
            io_bind (relay_logs d env logs r) (\<lambda>r'. io_return (latest, epoch, r')))))"

definition relayer_poll ::
    "('pk, 'pr) relayer_deps \<Rightarrow> relay_message env \<Rightarrow> u64 \<times> u64 \<times> bridge_relayer \<Rightarrow>
     (relay_message, u64 \<times> u64 \<times> bridge_relayer) io" where
  "relayer_poll d env = (\<lambda>(from_block, last_epoch, r).
     io_catch (io_bind (scan_and_relay d env from_block last_epoch r) (\<lambda>(last_block, epoch, r').
                 io_return (saturating_add64 last_block 1, epoch, r')))
       (\<lambda>_. io_return (from_block, last_epoch, r)))"

fun polls ::
    "('pk, 'pr) relayer_deps \<Rightarrow> relay_message env \<Rightarrow> nat \<Rightarrow> u64 \<times> u64 \<times> bridge_relayer \<Rightarrow>
     (relay_message, u64 \<times> u64 \<times> bridge_relayer) io" where
  "polls d env 0 st = io_return st"
| "polls d env (Suc n) st = io_bind (relayer_poll d env st) (polls d env n)"

definition relayer_run ::
    "('pk, 'pr) relayer_deps \<Rightarrow> relay_message env \<Rightarrow> nat \<Rightarrow> relayer_config \<Rightarrow>
     (relay_message, u64 \<times> u64 \<times> bridge_relayer) io" where
  "relayer_run d env n c = polls d env n (start_block c, 0, bridge_relayer_new c)"

end
