(* ===== verification/Rlp.thy ===== *)
theory Rlp
  imports Bytes
begin

unbundle bit_operations_syntax

text \<open>
  The RLP decoder of \<open>crates/provers/sp1/guest-bridge/src/mpt.rs\<close> and the encoder of
  \<open>src/bin/eth_deposit.rs\<close>. Lengths are 64-bit machine words, as the guest's \<open>usize\<close> is, so that
  their wrap-around is modelled; a slice with bad bounds panics. The item loop of the list decoder
  need not end: it is a partial function whose value \<open>None\<close> is a run that does not return. The
  lemmas are the round trip, the sizes of decoded items and an input on which the loop never ends.
\<close>

section \<open>RLP decoding\<close>

datatype 'a rlp_result = RlpOk 'a | RlpBad | RlpPanic

fun rlp_bind :: "'a rlp_result \<Rightarrow> ('a \<Rightarrow> 'b rlp_result) \<Rightarrow> 'b rlp_result" where
  "rlp_bind (RlpOk x) f = f x"
| "rlp_bind RlpBad f = RlpBad"
| "rlp_bind RlpPanic f = RlpPanic"

definition len_of :: "bytes \<Rightarrow> usize" where
  "len_of data = of_nat (length data)"

text \<open>\<open>&data[a..b]\<close>.\<close>

definition slice :: "bytes \<Rightarrow> usize \<Rightarrow> usize \<Rightarrow> bytes rlp_result" where
  "slice data a b =
     (if a \<le> b \<and> unat b \<le> length data then RlpOk (take (unat b - unat a) (drop (unat a) data)) else RlpPanic)"

definition decode_be_usize :: "bytes \<Rightarrow> usize" where
  "decode_be_usize bs = foldl (\<lambda>result b. push_bit 8 result OR ucast b) 0 bs"

definition rlp_decode_item :: "bytes \<Rightarrow> (bytes \<times> usize) rlp_result" where
  "rlp_decode_item data =
     (case data of
        [] \<Rightarrow> RlpBad
      | first # _ \<Rightarrow>
          if first \<le> 0x7f then RlpOk ([first], 1)
          else if first \<le> 0xb7 then
            (let len = ucast (first - 0x80)
             in if len_of data < 1 + len then RlpBad
                else rlp_bind (slice data 1 (1 + len)) (\<lambda>item. RlpOk (item, 1 + len)))
          else if first \<le> 0xbf then
            (let len_of_len = ucast (first - 0xb7)
             in if len_of data < 1 + len_of_len then RlpBad
                else rlp_bind (slice data 1 (1 + len_of_len)) (\<lambda>len_bytes.
                  let len = decode_be_usize len_bytes
                  in if len_of data < 1 + len_of_len + len then RlpBad
                     else rlp_bind (slice data (1 + len_of_len) (1 + len_of_len + len))
                            (\<lambda>item. RlpOk (item, 1 + len_of_len + len))))
          else
            rlp_bind
              (if first \<le> 0xf7 then RlpOk (1 + ucast (first - 0xc0))
               else let lol = ucast (first - 0xf7)
                    in if len_of data < 1 + lol then RlpBad
                       else rlp_bind (slice data 1 (1 + lol)) (\<lambda>len_bytes.
                              RlpOk (1 + lol + decode_be_usize len_bytes)))
              (\<lambda>list_len.
                 if len_of data < list_len then RlpBad
                 else rlp_bind (slice data 0 list_len) (\<lambda>item. RlpOk (item, list_len))))"

partial_function (option) rlp_items :: "bytes list \<Rightarrow> bytes \<Rightarrow> bytes list rlp_result option" where
  "rlp_items items payload =
     (if payload = [] then Some (RlpOk items)
      else case rlp_decode_item payload of
             RlpBad \<Rightarrow> Some RlpBad
           | RlpPanic \<Rightarrow> Some RlpPanic
           | RlpOk r \<Rightarrow> rlp_items (items @ [fst r]) (drop (unat (snd r)) payload))"

definition rlp_list_payload :: "bytes \<Rightarrow> bytes rlp_result" where
  "rlp_list_payload data =
     (case data of
        [] \<Rightarrow> RlpBad
      | first # _ \<Rightarrow>
          if first < 0xc0 then RlpBad
          else if first \<le> 0xf7 then
            (let len = ucast (first - 0xc0)
             in if len_of data < 1 + len then RlpBad else slice data 1 (1 + len))
          else
            (let len_of_len = ucast (first - 0xf7)
             in if len_of data < 1 + len_of_len then RlpBad
                else rlp_bind (slice data 1 (1 + len_of_len)) (\<lambda>len_bytes.
                  let len = decode_be_usize len_bytes
                  in if len_of data < 1 + len_of_len + len then RlpBad
                     else slice data (1 + len_of_len) (1 + len_of_len + len))))"

definition rlp_decode_list :: "bytes \<Rightarrow> bytes list rlp_result option" where
  "rlp_decode_list data =
     (case rlp_list_payload data of
        RlpBad \<Rightarrow> Some RlpBad
      | RlpPanic \<Rightarrow> Some RlpPanic
      | RlpOk payload \<Rightarrow> rlp_items [] payload)"

section \<open>RLP encoding\<close>

text \<open>The big-endian bytes without leading zeros, one byte at least.\<close>

definition trim_be :: "bytes \<Rightarrow> bytes" where
  "trim_be bs =
     (let start = length (takeWhile (\<lambda>b. b = 0) bs)
      in drop (if start = length bs then length bs - 1 else start) bs)"

definition usize_be :: "nat \<Rightarrow> bytes" where
  "usize_be n = to_be_bytes 8 (of_nat n :: usize)"

definition rlp_encode_bytes :: "bytes \<Rightarrow> bytes" where
  "rlp_encode_bytes data =
     (if length data = 1 \<and> data ! 0 \<le> 0x7f then data
      else if length data \<le> 55 then (0x80 + of_nat (length data)) # data
      else let len_trimmed = trim_be (usize_be (length data))
           in (0xb7 + of_nat (length len_trimmed)) # len_trimmed @ data)"

definition rlp_encode_list :: "bytes list \<Rightarrow> bytes" where
  "rlp_encode_list items =
     (let payload = concat items
      in if length payload \<le> 55 then (0xc0 + of_nat (length payload)) # payload
         else let len_trimmed = trim_be (usize_be (length payload))
              in (0xf7 + of_nat (length len_trimmed)) # len_trimmed @ payload)"

definition uint_be :: "u128 \<Rightarrow> bytes" where
  "uint_be val = trim_be (to_be_bytes 16 val)"

definition rlp_encode_uint :: "u128 \<Rightarrow> bytes" where
  "rlp_encode_uint val = (if val = 0 then [0x80] else rlp_encode_bytes (uint_be val))"

section \<open>Lengths as machine words\<close>

lemma unat_len_of: "length data < 2 ^ 64 \<Longrightarrow> unat (len_of data) = length data"
  unfolding len_of_def by (rule unat_of_nat_small) simp

lemma len_of_less_iff: "length data < 2 ^ 64 \<Longrightarrow> n < 2 ^ 64 \<Longrightarrow> len_of data < of_nat n \<longleftrightarrow> length data < n"
  by (simp add: word_less_nat_alt unat_len_of unat_of_nat_small)

lemma slice_nat:
  assumes "i \<le> j" "j \<le> length data" "length data < 2 ^ 64"
  shows "slice data (of_nat i) (of_nat j) = RlpOk (take (j - i) (drop i data))"
  using assms by (simp add: slice_def word_le_nat_alt unat_of_nat_small)

lemma slice_length: "slice data a b = RlpOk x \<Longrightarrow> length x \<le> length data"
  by (auto simp: slice_def split: if_splits)

text \<open>A header byte \<open>base + n\<close> that does not overflow.\<close>

lemma header_byte:
  "a + n < 256 \<Longrightarrow> unat (of_nat a + of_nat n :: byte) = a + n"
  by (simp add: unat_of_nat_small flip: of_nat_add)

lemma header_payload: "a + n < 256 \<Longrightarrow> (ucast (of_nat a + of_nat n - of_nat a :: byte) :: usize) = of_nat n"
  by (simp add: word_unat_eq_iff unsigned_ucast_eq unsigned_of_nat take_bit_nat_eq_self)

section \<open>Big-endian lengths\<close>

lemma decode_be_usize_snoc: "decode_be_usize (bs @ [b]) = decode_be_usize bs * 256 + ucast b"
proof -
  have "push_bit 8 r OR ucast b = r * 256 + ucast b" for r :: usize
  proof -
    have "push_bit 8 r AND ucast b = 0"
      by (rule bit_word_eqI) (auto simp: bit_simps dest: bit_imp_le_length)
    then have "push_bit 8 r OR ucast b = push_bit 8 r + ucast b"
      by (simp add: disjunctive_add_eq_or)
    then show ?thesis by (simp add: push_bit_eq_mult)
  qed
  then show ?thesis by (simp add: decode_be_usize_def)
qed

lemma decode_be_usize_eq: "decode_be_usize bs = from_be_bytes bs"
proof (induction bs rule: rev_induct)
  case (snoc b bs)
  then show ?case
    by (simp add: decode_be_usize_snoc from_be_bytes_def from_le_bytes_def unsigned_ucast_eq)
qed (simp add: decode_be_usize_def from_be_bytes_def from_le_bytes_def)

lemma int_of_le_snoc_zeros: "int_of_le (bs @ replicate n 0) = int_of_le bs"
  by (induction bs) (simp_all, induction n, simp_all)

lemma drop_zeros:
  assumes "m \<le> length (takeWhile (\<lambda>b. b = 0) bs)"
  shows "bs = replicate m 0 @ drop m bs"
proof -
  have "take m bs = replicate m 0"
  proof (rule nth_equalityI)
    fix i assume "i < length (take m bs)"
    then have i: "i < length (takeWhile (\<lambda>b. b = 0) bs)" "i < m" using assms by simp_all
    then have "takeWhile (\<lambda>b. b = 0) bs ! i = 0" using nth_mem set_takeWhileD by fastforce
    with i show "take m bs ! i = replicate m 0 ! i" by (simp add: takeWhile_nth)
  qed (use assms length_takeWhile_le [of "\<lambda>b. b = 0" bs] in simp)
  then show ?thesis by (metis append_take_drop_id)
qed

lemma trim_be_zeros: "\<exists>m. bs = replicate m 0 @ trim_be bs"
  unfolding trim_be_def Let_def by (rule exI, rule drop_zeros) auto

lemma from_be_trim: "from_be_bytes (trim_be bs) = (from_be_bytes bs :: 'a::len word)"
proof -
  obtain m where "bs = replicate m 0 @ trim_be bs" using trim_be_zeros by blast
  then have "rev bs = rev (trim_be bs) @ replicate m 0" by (metis rev_append rev_replicate)
  then have "int_of_le (rev bs) = int_of_le (rev (trim_be bs))" by (metis int_of_le_snoc_zeros)
  then show ?thesis by (simp add: from_be_bytes_def from_le_bytes_def)
qed

lemma decode_usize_be: "decode_be_usize (trim_be (usize_be n)) = of_nat n"
  by (simp add: decode_be_usize_eq from_be_trim usize_be_def from_to_be_bytes)

lemma length_trim_usize: "0 < length (trim_be (usize_be n)) \<and> length (trim_be (usize_be n)) \<le> 8"
proof -
  have "length (takeWhile (\<lambda>b. b = 0) (usize_be n)) \<le> length (usize_be n)" by (rule length_takeWhile_le)
  then show ?thesis by (auto simp: trim_be_def Let_def usize_be_def)
qed

section \<open>Decoding what the encoder writes\<close>

lemma header_le_iff: "a + n < 256 \<Longrightarrow> (of_nat a + of_nat n \<le> (w :: byte)) \<longleftrightarrow> a + n \<le> unat w"
  by (simp add: word_le_nat_alt header_byte)

lemma rlp_encode_bytes_not_Nil [simp]: "rlp_encode_bytes x \<noteq> []"
  by (auto simp: rlp_encode_bytes_def Let_def)

text \<open>The branches of the decoder, by the value of the first byte.\<close>

lemma rlp_decode_item_short:
  assumes "128 \<le> unat f" "unat f \<le> 183"
  shows "rlp_decode_item (f # d) =
    (let len = ucast (f - 0x80)
     in if len_of (f # d) < 1 + len then RlpBad
        else rlp_bind (slice (f # d) 1 (1 + len)) (\<lambda>item. RlpOk (item, 1 + len)))"
  using assms by (simp add: rlp_decode_item_def word_le_nat_alt)

lemma rlp_decode_item_long:
  assumes "184 \<le> unat f" "unat f \<le> 191"
  shows "rlp_decode_item (f # d) =
    (let len_of_len = ucast (f - 0xb7)
     in if len_of (f # d) < 1 + len_of_len then RlpBad
        else rlp_bind (slice (f # d) 1 (1 + len_of_len)) (\<lambda>len_bytes.
          let len = decode_be_usize len_bytes
          in if len_of (f # d) < 1 + len_of_len + len then RlpBad
             else rlp_bind (slice (f # d) (1 + len_of_len) (1 + len_of_len + len))
                    (\<lambda>item. RlpOk (item, 1 + len_of_len + len))))"
  using assms by (simp add: rlp_decode_item_def word_le_nat_alt)

lemma rlp_list_payload_short:
  assumes "192 \<le> unat f" "unat f \<le> 247"
  shows "rlp_list_payload (f # d) =
    (let len = ucast (f - 0xc0)
     in if len_of (f # d) < 1 + len then RlpBad else slice (f # d) 1 (1 + len))"
  using assms by (simp add: rlp_list_payload_def word_le_nat_alt word_less_nat_alt)

lemma rlp_list_payload_long:
  assumes "248 \<le> unat f"
  shows "rlp_list_payload (f # d) =
    (let len_of_len = ucast (f - 0xf7)
     in if len_of (f # d) < 1 + len_of_len then RlpBad
        else rlp_bind (slice (f # d) 1 (1 + len_of_len)) (\<lambda>len_bytes.
          let len = decode_be_usize len_bytes
          in if len_of (f # d) < 1 + len_of_len + len then RlpBad
             else slice (f # d) (1 + len_of_len) (1 + len_of_len + len)))"
  using assms by (simp add: rlp_list_payload_def word_le_nat_alt word_less_nat_alt)

lemma decode_encode_short:
  assumes "length x \<le> 55" "length x + length rest < 2 ^ 63"
  shows "rlp_decode_item ((0x80 + of_nat (length x)) # x @ rest) = RlpOk (x, of_nat (Suc (length x)))"
proof -
  let ?n = "length x" and ?f = "0x80 + of_nat (length x) :: byte" and ?d = "(0x80 + of_nat (length x)) # x @ rest"
  have f: "unat ?f = 128 + ?n" using header_byte [of 128 ?n] assms(1) by simp
  have "(ucast (?f - 0x80) :: usize) = of_nat ?n" using header_payload [of 128 ?n] assms(1) by simp
  moreover have "slice ?d 1 (of_nat (Suc ?n)) = RlpOk x"
    using slice_nat [of 1 "Suc ?n" ?d] assms by simp
  moreover have "\<not> len_of ?d < of_nat (Suc ?n)"
    using len_of_less_iff [of ?d "Suc ?n"] assms by simp
  ultimately show ?thesis
    using rlp_decode_item_short [of ?f "x @ rest"] f assms(1) by (simp add: Let_def)
qed

lemma decode_encode_long:
  assumes "55 < length x" "length x + length rest < 2 ^ 63"
  shows "rlp_decode_item (rlp_encode_bytes x @ rest) = RlpOk (x, of_nat (length (rlp_encode_bytes x)))"
proof -
  let ?t = "trim_be (usize_be (length x))"
  let ?n = "length x" and ?k = "length ?t"
  let ?f = "0xb7 + of_nat ?k :: byte" and ?d = "(0xb7 + of_nat ?k) # ?t @ x @ rest"
  have k: "0 < ?k" "?k \<le> 8" using length_trim_usize [of ?n] by simp_all
  have enc: "rlp_encode_bytes x = ?f # ?t @ x" using assms(1) by (simp add: rlp_encode_bytes_def Let_def)
  have f: "unat ?f = 183 + ?k" using header_byte [of 183 ?k] k by simp
  have pay: "(ucast (?f - 0xb7) :: usize) = of_nat ?k" using header_payload [of 183 ?k] k by simp
  have len: "length ?d < 2 ^ 64" using assms(2) k by simp
  have "slice ?d 1 (of_nat (Suc ?k)) = RlpOk ?t"
    using slice_nat [of 1 "Suc ?k" ?d] len by simp
  moreover have "slice ?d (of_nat (Suc ?k)) (of_nat (Suc ?k + ?n)) = RlpOk x"
    using slice_nat [of "Suc ?k" "Suc ?k + ?n" ?d] len by simp
  moreover have "\<not> len_of ?d < of_nat (Suc ?k)" "\<not> len_of ?d < of_nat (Suc ?k + ?n)"
    using len_of_less_iff [of ?d "Suc ?k"] len_of_less_iff [of ?d "Suc ?k + ?n"] len by simp_all
  ultimately show ?thesis
    using rlp_decode_item_long [of ?f "?t @ x @ rest"] f pay k unfolding enc by (simp add: Let_def decode_usize_be add.assoc)
qed

lemma decode_encode_item:
  assumes "length x + length rest < 2 ^ 63"
  shows "rlp_decode_item (rlp_encode_bytes x @ rest) = RlpOk (x, of_nat (length (rlp_encode_bytes x)))"
proof (cases "length x = 1 \<and> x ! 0 \<le> 0x7f")
  case True
  then obtain b where "x = [b]" by (cases x) auto
  with True show ?thesis by (simp add: rlp_encode_bytes_def rlp_decode_item_def)
next
  case False
  show ?thesis
  proof (cases "length x \<le> 55")
    case True
    with False have "rlp_encode_bytes x = (0x80 + of_nat (length x)) # x"
      by (auto simp: rlp_encode_bytes_def)
    with decode_encode_short [OF True assms] show ?thesis by simp
  qed (use decode_encode_long [OF _ assms] in simp)
qed

lemma rlp_items_encode:
  assumes "length (concat (map rlp_encode_bytes xs)) < 2 ^ 63"
  shows "rlp_items items (concat (map rlp_encode_bytes xs)) = Some (RlpOk (items @ xs))"
  using assms
proof (induction xs arbitrary: items)
  case Nil
  show ?case by (subst rlp_items.simps) simp
next
  case (Cons x xs)
  have "length x \<le> length (rlp_encode_bytes x)" by (simp add: rlp_encode_bytes_def Let_def)
  with Cons.prems have "rlp_decode_item (rlp_encode_bytes x @ concat (map rlp_encode_bytes xs)) =
      RlpOk (x, of_nat (length (rlp_encode_bytes x)))"
    by (intro decode_encode_item) simp
  moreover have "unat (of_nat (length (rlp_encode_bytes x)) :: usize) = length (rlp_encode_bytes x)"
    using Cons.prems by (intro unat_of_nat_small) simp
  ultimately show ?case
    using Cons by (subst rlp_items.simps) simp
qed

lemma rlp_list_payload_encode:
  assumes "length (concat ys) < 2 ^ 63"
  shows "rlp_list_payload (rlp_encode_list ys) = RlpOk (concat ys)"
proof (cases "length (concat ys) \<le> 55")
  case True
  let ?p = "concat ys"
  let ?n = "length ?p"
  let ?f = "0xc0 + of_nat ?n :: byte" and ?d = "(0xc0 + of_nat ?n) # ?p"
  have enc: "rlp_encode_list ys = ?d" using True by (simp add: rlp_encode_list_def Let_def)
  have f: "unat ?f = 192 + ?n" using header_byte [of 192 ?n] True by simp
  have pay: "(ucast (?f - 0xc0) :: usize) = of_nat ?n" using header_payload [of 192 ?n] True by simp
  have "slice ?d 1 (of_nat (Suc ?n)) = RlpOk ?p" using slice_nat [of 1 "Suc ?n" ?d] True by simp
  moreover have "\<not> len_of ?d < of_nat (Suc ?n)" using len_of_less_iff [of ?d "Suc ?n"] True by simp
  ultimately show ?thesis
    using rlp_list_payload_short [of ?f ?p] True f pay unfolding enc by (simp add: Let_def)
next
  case False
  let ?p = "concat ys"
  let ?n = "length ?p"
  let ?t = "trim_be (usize_be ?n)"
  let ?k = "length ?t"
  let ?f = "0xf7 + of_nat ?k :: byte" and ?d = "(0xf7 + of_nat ?k) # ?t @ ?p"
  have k: "0 < ?k" "?k \<le> 8" using length_trim_usize [of ?n] by simp_all
  have enc: "rlp_encode_list ys = ?d" using False by (simp add: rlp_encode_list_def Let_def)
  have f: "unat ?f = 247 + ?k" using header_byte [of 247 ?k] k by simp
  have pay: "(ucast (?f - 0xf7) :: usize) = of_nat ?k" using header_payload [of 247 ?k] k by simp
  have len: "length ?d < 2 ^ 64" using assms k by simp
  have "slice ?d 1 (of_nat (Suc ?k)) = RlpOk ?t" using slice_nat [of 1 "Suc ?k" ?d] len by simp
  moreover have "slice ?d (of_nat (Suc ?k)) (of_nat (Suc ?k + ?n)) = RlpOk ?p"
    using slice_nat [of "Suc ?k" "Suc ?k + ?n" ?d] len by simp
  moreover have "\<not> len_of ?d < of_nat (Suc ?k)" "\<not> len_of ?d < of_nat (Suc ?k + ?n)"
    using len_of_less_iff [of ?d "Suc ?k"] len_of_less_iff [of ?d "Suc ?k + ?n"] len by simp_all
  ultimately show ?thesis
    using rlp_list_payload_long [of ?f "?t @ ?p"] f pay k unfolding enc by (simp add: Let_def decode_usize_be add.assoc)
qed

lemma decode_encode_list:
  assumes "length (concat (map rlp_encode_bytes xs)) < 2 ^ 63"
  shows "rlp_decode_list (rlp_encode_list (map rlp_encode_bytes xs)) = Some (RlpOk xs)"
  using rlp_list_payload_encode [OF assms] rlp_items_encode [OF assms, of "[]"]
  by (simp add: rlp_decode_list_def)

lemma rlp_encode_list_inject:
  assumes "rlp_encode_list (map rlp_encode_bytes xs) = rlp_encode_list (map rlp_encode_bytes ys)"
    and "length (concat (map rlp_encode_bytes xs)) < 2 ^ 63" "length (concat (map rlp_encode_bytes ys)) < 2 ^ 63"
  shows "xs = ys"
proof -
  note xs = decode_encode_list [OF assms(2)] and ys = decode_encode_list [OF assms(3)]
  from xs ys have "Some (RlpOk xs) = Some (RlpOk ys)" by (simp only: assms(1))
  then show ?thesis by simp
qed

section \<open>Sizes of decoded items\<close>

lemma rlp_bind_RlpOk_iff [simp]: "rlp_bind m f = RlpOk y \<longleftrightarrow> (\<exists>x. m = RlpOk x \<and> f x = RlpOk y)"
  by (cases m) auto

lemma rlp_decode_item_length:
  assumes "rlp_decode_item data = RlpOk (x, n)"
  shows "length x \<le> length data"
proof (cases data)
  case (Cons f d)
  show ?thesis
  proof (cases "f \<le> 0x7f")
    case True
    with assms Cons show ?thesis by (auto simp: rlp_decode_item_def)
  next
    case False
    with assms Cons have "\<exists>a b. slice data a b = RlpOk x"
      by (auto simp: rlp_decode_item_def Let_def split: if_split_asm)
    then show ?thesis by (auto dest: slice_length)
  qed
qed (use assms in \<open>simp add: rlp_decode_item_def\<close>)

lemma rlp_items_length:
  assumes "rlp_items items payload = Some (RlpOk xs)" "\<forall>x \<in> set items. length x \<le> k" "length payload \<le> k"
  shows "\<forall>x \<in> set xs. length x \<le> k"
proof -
  let ?P = "\<lambda>items payload r. \<forall>xs. r = RlpOk xs \<longrightarrow> (\<forall>x \<in> set items. length x \<le> k) \<longrightarrow>
    length payload \<le> k \<longrightarrow> (\<forall>x \<in> set xs. length x \<le> k)"
  have "?P items payload (RlpOk xs)"
  proof (rule rlp_items.raw_induct [where P = ?P, OF _ assms(1)])
    fix loop items payload r
    assume IH: "\<And>items payload r. loop items payload = Some r \<Longrightarrow> ?P items payload r"
      and body: "(if payload = [] then Some (RlpOk items)
        else case rlp_decode_item payload of
               RlpOk r \<Rightarrow> loop (items @ [fst r]) (drop (unat (snd r)) payload)
             | RlpBad \<Rightarrow> Some RlpBad | RlpPanic \<Rightarrow> Some RlpPanic) = Some r"
    show "?P items payload r"
    proof (cases "payload = [] \<or> rlp_decode_item payload \<in> {RlpBad, RlpPanic}")
      case False
      then obtain p where p: "rlp_decode_item payload = RlpOk p" by (cases "rlp_decode_item payload") auto
      with False body have "loop (items @ [fst p]) (drop (unat (snd p)) payload) = Some r" by simp
      from IH [OF this] rlp_decode_item_length [of payload "fst p" "snd p"] p show ?thesis by fastforce
    qed (use body in \<open>auto split: if_split_asm\<close>)
  qed
  with assms show ?thesis by blast
qed

lemma rlp_list_payload_length: "rlp_list_payload data = RlpOk p \<Longrightarrow> length p \<le> length data"
  by (auto simp: rlp_list_payload_def Let_def split: list.splits if_splits dest!: slice_length)

lemma rlp_decode_list_length:
  assumes "rlp_decode_list data = Some (RlpOk xs)" "x \<in> set xs"
  shows "length x \<le> length data"
proof -
  from assms(1) obtain p where p: "rlp_list_payload data = RlpOk p" "rlp_items [] p = Some (RlpOk xs)"
    by (auto simp: rlp_decode_list_def split: rlp_result.splits)
  show ?thesis
    using rlp_items_length [OF p(2), of "length data"] rlp_list_payload_length [OF p(1)] assms(2) by simp
qed

section \<open>A list whose decoding does not end\<close>

text \<open>An item that claims \<open>2 ^ 64 - 9\<close> bytes: with its header of nine bytes its size wraps to zero.\<close>

definition endless_item :: bytes where
  "endless_item = 0xff # replicate 7 0xff @ [0xf7]"

lemma decode_endless_item: "rlp_decode_item endless_item = RlpOk ([], 0)"
  by code_simp

lemma length_endless_item: "length endless_item = 9"
  by (simp add: endless_item_def)

lemma rlp_items_endless: "rlp_items items endless_item = None"
proof (rule ccontr)
  let ?P = "\<lambda>items payload r. payload \<noteq> endless_item"
  assume "rlp_items items endless_item \<noteq> None"
  then obtain r where r: "rlp_items items endless_item = Some r" by blast
  have "?P items endless_item r"
  proof (rule rlp_items.raw_induct [where P = ?P, OF _ r], rule notI)
    fix loop :: "bytes list \<Rightarrow> bytes \<Rightarrow> bytes list rlp_result option" and items payload r
    assume IH: "\<And>items payload r. loop items payload = Some r \<Longrightarrow> ?P items payload r"
      and body: "(if payload = [] then Some (RlpOk items)
        else case rlp_decode_item payload of
               RlpOk r \<Rightarrow> loop (items @ [fst r]) (drop (unat (snd r)) payload)
             | RlpBad \<Rightarrow> Some RlpBad | RlpPanic \<Rightarrow> Some RlpPanic) = Some r"
      and p: "payload = endless_item"
    have "endless_item \<noteq> []" by (simp add: endless_item_def)
    with p body have "loop (items @ [[]]) endless_item = Some r" by (simp add: decode_endless_item)
    from IH [OF this] show False by simp
  qed
  then show False by simp
qed

lemma rlp_decode_list_endless: "rlp_decode_list (0xc9 # endless_item) = None"
proof -
  have "rlp_list_payload (0xc9 # endless_item) = RlpOk endless_item" by code_simp
  then show ?thesis by (simp add: rlp_decode_list_def rlp_items_endless)
qed

end
