(* ===== verification/Guest_Deposit.thy ===== *)
theory Guest_Deposit
  imports Rlp
begin

unbundle bit_operations_syntax

text \<open>
  \<open>crates/provers/sp1/guest-bridge\<close>: the Merkle-Patricia verifier (\<open>src/mpt.rs\<close>), the witness
  types (\<open>src/types.rs\<close>) and the deposit circuit (\<open>src/bin/eth_deposit.rs\<close>).
\<close>

section \<open>The Merkle-Patricia verifier\<close>

definition byte_nibbles :: "byte \<Rightarrow> byte list" where
  "byte_nibbles b = [drop_bit 4 b, b AND 0x0f]"

definition bytes_to_nibbles :: "bytes32 \<Rightarrow> byte list" where
  "bytes_to_nibbles key = concat (map byte_nibbles (b32 key))"

definition decode_hp :: "bytes \<Rightarrow> bool \<times> byte list" where
  "decode_hp encoded =
     (case encoded of
        [] \<Rightarrow> (False, [])
      | b # rest \<Rightarrow>
          let first_nibble = drop_bit 4 b AND 0x0f;
              is_leaf = (first_nibble \<ge> 2);
              is_odd = (first_nibble AND 1 = 1)
          in (is_leaf, (if is_odd then [b AND 0x0f] else []) @ concat (map byte_nibbles rest)))"

datatype mpt_result = Verified bool | MptPanic

datatype mpt_step = Answer bool | Descend nat bytes32

text \<open>One decoded node: an answer, or the position and hash to continue with.\<close>

definition mpt_node_step :: "byte list \<Rightarrow> nat \<Rightarrow> bytes \<Rightarrow> bytes list \<Rightarrow> mpt_step" where
  "mpt_node_step nibbles nibble_pos expected_value items =
     (if length items = 17 then
        (if length nibbles \<le> nibble_pos then Answer (items ! 16 = expected_value)
         else let child = items ! unat (nibbles ! nibble_pos)
              in if child = [] then Answer False
                 else if length child = 32 then Descend (nibble_pos + 1) (array32 child)
                 else Answer False)
      else if length items = 2 then
        (let (is_leaf, path_nibbles) = decode_hp (items ! 0);
             path_len = length path_nibbles
         in if length nibbles < nibble_pos + path_len then Answer False
            else if take path_len (drop nibble_pos nibbles) \<noteq> path_nibbles then Answer False
            else if is_leaf then
              (if nibble_pos + path_len \<noteq> length nibbles then Answer False
               else Answer (items ! 1 = expected_value))
            else if length (items ! 1) \<noteq> 32 then Answer False
            else Descend (nibble_pos + path_len) (array32 (items ! 1)))
      else Answer False)"

fun mpt_loop :: "hash32 \<Rightarrow> byte list \<Rightarrow> bytes \<Rightarrow> nat \<Rightarrow> bytes32 \<Rightarrow> bytes list \<Rightarrow> mpt_result option" where
  "mpt_loop keccak nibbles expected_value nibble_pos current_hash [] = Some (Verified False)"
| "mpt_loop keccak nibbles expected_value nibble_pos current_hash (node_rlp # proof') =
     (if keccak node_rlp \<noteq> current_hash \<and> length node_rlp \<ge> 32 then Some (Verified False)
      else case rlp_decode_list node_rlp of
             None \<Rightarrow> None
           | Some RlpBad \<Rightarrow> Some (Verified False)
           | Some RlpPanic \<Rightarrow> Some MptPanic
           | Some (RlpOk items) \<Rightarrow>
               (case mpt_node_step nibbles nibble_pos expected_value items of
                  Answer b \<Rightarrow> Some (Verified b)
                | Descend pos h \<Rightarrow> mpt_loop keccak nibbles expected_value pos h proof'))"

definition verify_mpt_proof :: "hash32 \<Rightarrow> bytes32 \<Rightarrow> bytes32 \<Rightarrow> bytes list \<Rightarrow> bytes \<Rightarrow> mpt_result option" where
  "verify_mpt_proof keccak root' key proof' expected_value =
     mpt_loop keccak (bytes_to_nibbles key) expected_value 0 root' proof'"

section \<open>The deposit circuit\<close>

record eth_block_header =
  parent_hash :: bytes32
  block_state_root :: bytes32
  number :: u64
  block_timestamp :: u64
  rlp_encoded :: bytes

record deposit_data =
  deposit_sender :: bytes20
  obscura_recipient :: bytes32
  deposit_amount :: u64
  deposit_timestamp :: u64
  status :: byte

record bridge_deposit_witness =
  eth_block :: eth_block_header
  dw_beacon_block_root :: bytes32
  dw_bridge_contract :: bytes20
  account_proof :: "bytes list"
  storage_root :: bytes32
  dw_deposit_id :: u64
  storage_proof :: "bytes list"
  dw_deposit_data :: deposit_data

record bridge_public_outputs =
  eth_block_hash :: bytes32
  do_beacon_block_root :: bytes32
  do_deposit_id :: u64
  do_obscura_recipient :: bytes32
  do_amount :: u64
  do_bridge_contract :: bytes20

datatype deposit_panic =
    AccountProofInvalid | StorageProofInvalid | NotLocked | ZeroAmount | ZeroRecipient | DecoderPanic

definition deposit_storage_slot :: "hash32 \<Rightarrow> u64 \<Rightarrow> bytes32" where
  "deposit_storage_slot keccak deposit_id =
     keccak (replicate 24 0 @ be8 deposit_id @ replicate 31 0 @ [3])"

definition account_trie_key :: "hash32 \<Rightarrow> bytes20 \<Rightarrow> bytes32" where
  "account_trie_key keccak address = keccak (b20 address)"

definition storage_trie_key :: "hash32 \<Rightarrow> bytes32 \<Rightarrow> bytes32" where
  "storage_trie_key keccak slot = keccak (b32 slot)"

definition encode_account_rlp :: "u64 \<Rightarrow> u128 \<Rightarrow> bytes32 \<Rightarrow> bytes32 \<Rightarrow> bytes" where
  "encode_account_rlp nonce balance account_root code_hash =
     rlp_encode_list
       [rlp_encode_uint (ucast nonce), rlp_encode_uint balance,
        rlp_encode_bytes (b32 account_root), rlp_encode_bytes (b32 code_hash)]"

definition encode_deposit_storage_value :: "deposit_data \<Rightarrow> bytes" where
  "encode_deposit_storage_value data = rlp_encode_bytes (replicate 24 0 @ be8 (deposit_amount data))"

text \<open>An assertion on the verifier's result; \<open>None\<close> is a circuit that does not return.\<close>

definition assert_mpt ::
    "mpt_result option \<Rightarrow> deposit_panic \<Rightarrow> (deposit_panic + 'a) option \<Rightarrow> (deposit_panic + 'a) option" where
  "assert_mpt r e k =
     (case r of
        None \<Rightarrow> None
      | Some MptPanic \<Rightarrow> Some (Inl DecoderPanic)
      | Some (Verified b) \<Rightarrow> if b then k else Some (Inl e))"

definition deposit_main :: "hash32 \<Rightarrow> bridge_deposit_witness \<Rightarrow> (deposit_panic + bridge_public_outputs) option" where
  "deposit_main keccak w =
     (let block_hash = keccak (rlp_encoded (eth_block w));
          account_key = account_trie_key keccak (dw_bridge_contract w);
          expected_account_rlp = encode_account_rlp 0 0 (storage_root w) 0
      in assert_mpt
           (verify_mpt_proof keccak (block_state_root (eth_block w)) account_key (account_proof w) expected_account_rlp)
           AccountProofInvalid
         (let slot = deposit_storage_slot keccak (dw_deposit_id w);
              storage_key = storage_trie_key keccak slot;
              expected_storage_value = encode_deposit_storage_value (dw_deposit_data w)
          in assert_mpt
               (verify_mpt_proof keccak (storage_root w) storage_key (storage_proof w) expected_storage_value)
               StorageProofInvalid
             (Some
               (rbind (ensure (status (dw_deposit_data w) = 1) NotLocked) (\<lambda>_.
                rbind (ensure (deposit_amount (dw_deposit_data w) > 0) ZeroAmount) (\<lambda>_.
                rbind (ensure (obscura_recipient (dw_deposit_data w) \<noteq> 0) ZeroRecipient) (\<lambda>_.
                Inr \<lparr>eth_block_hash = block_hash,
                     do_beacon_block_root = dw_beacon_block_root w,
                     do_deposit_id = dw_deposit_id w,
                     do_obscura_recipient = obscura_recipient (dw_deposit_data w),
                     do_amount = deposit_amount (dw_deposit_data w),
                     do_bridge_contract = dw_bridge_contract w\<rparr>)))))))"

section \<open>What a proof binds\<close>

lemma mpt_node_step_expected:
  "mpt_node_step nibbles pos v items = Answer True \<Longrightarrow> mpt_node_step nibbles pos v' items = Answer True \<Longrightarrow> v = v'"
  "mpt_node_step nibbles pos v items = Descend p h \<Longrightarrow> mpt_node_step nibbles pos v' items = Descend p h"
  by (auto simp: mpt_node_step_def Let_def split: if_split_asm prod.split_asm)

text \<open>A node that leads on, or to a value of at least 32 bytes, is not short, so its hash was checked.\<close>

lemma nibbles_small: "list_all (\<lambda>n. unat n < 16) (bytes_to_nibbles key)"
proof -
  have "unat (drop_bit 4 b) < 16" "unat (b AND 0x0f) < 16" for b :: byte
  proof -
    have "unat b < 256" using unsigned_less [of b] by simp
    then show "unat (drop_bit 4 b) < 16" by (simp add: unat_drop_bit_eq drop_bit_eq_div unat_div)
    have "b AND 0x0f \<le> 0x0f" by (rule word_and_le1)
    then show "unat (b AND 0x0f) < 16" by (simp add: word_le_nat_alt)
  qed
  then show ?thesis by (auto simp: bytes_to_nibbles_def byte_nibbles_def list_all_iff)
qed

lemma long_node:
  assumes "rlp_decode_list node = Some (RlpOk items)" "32 \<le> length v" "list_all (\<lambda>n. unat n < 16) nibbles"
    and "mpt_node_step nibbles pos v items = Answer True \<or> mpt_node_step nibbles pos v items = Descend p h"
  shows "32 \<le> length node"
proof -
  have nib: "unat (nibbles ! pos) < 17" if "pos < length nibbles"
    using assms(3) that by (force simp: list_all_length)
  have "\<exists>k < length items. 32 \<le> length (items ! k)"
    using assms(4)
  proof
    assume "mpt_node_step nibbles pos v items = Answer True"
    then have "length items = 17 \<and> items ! 16 = v \<or> length items = 2 \<and> items ! 1 = v"
      by (auto simp: mpt_node_step_def Let_def split: if_split_asm prod.split_asm)
    then show ?thesis using assms(2) by (elim disjE) (auto intro: exI [of _ 16] exI [of _ 1])
  next
    assume "mpt_node_step nibbles pos v items = Descend p h"
    then have "length items = 17 \<and> pos < length nibbles \<and> length (items ! unat (nibbles ! pos)) = 32 \<or>
        length items = 2 \<and> length (items ! 1) = 32"
      by (auto simp: mpt_node_step_def Let_def split: if_split_asm prod.split_asm)
    then show ?thesis using nib by (elim disjE) (auto intro: exI [of _ 1] exI [of _ "unat (nibbles ! pos)"])
  qed
  then obtain k where "k < length items" "32 \<le> length (items ! k)" by blast
  with rlp_decode_list_length [OF assms(1), of "items ! k"] show ?thesis by simp
qed

lemma mpt_loop_Cons_True:
  assumes "mpt_loop keccak nibbles v pos h (node # proof') = Some (Verified True)" "32 \<le> length v"
    and "list_all (\<lambda>n. unat n < 16) nibbles"
  obtains items where "keccak node = h" "rlp_decode_list node = Some (RlpOk items)"
    "mpt_node_step nibbles pos v items = Answer True"
  | items p h' where "keccak node = h" "rlp_decode_list node = Some (RlpOk items)"
    "mpt_node_step nibbles pos v items = Descend p h'" "mpt_loop keccak nibbles v p h' proof' = Some (Verified True)"
proof -
  from assms(1) obtain items where items: "rlp_decode_list node = Some (RlpOk items)"
    and hashed: "keccak node = h \<or> length node < 32"
    and step: "mpt_node_step nibbles pos v items = Answer True \<or>
      (\<exists>p h'. mpt_node_step nibbles pos v items = Descend p h' \<and> mpt_loop keccak nibbles v p h' proof' = Some (Verified True))"
    by (auto split: if_split_asm option.split_asm rlp_result.split_asm mpt_step.split_asm)
  from step long_node [OF items assms(2,3)] have "32 \<le> length node" by blast
  with hashed have "keccak node = h" by simp
  with step items that show thesis by blast
qed

text \<open>Under one root a key has one value, unless two nodes of the two proofs collide.\<close>

lemma mpt_loop_binds:
  assumes "mpt_loop keccak nibbles v pos h ns = Some (Verified True)" "32 \<le> length v"
    and "mpt_loop keccak nibbles v' pos h ns' = Some (Verified True)" "32 \<le> length v'"
    and "inj_on keccak (set ns \<union> set ns')" "list_all (\<lambda>n. unat n < 16) nibbles"
  shows "v = v'"
  using assms(1-5)
proof (induction ns arbitrary: pos h ns')
  case (Cons n ns)
  then obtain n' ms where ns': "ns' = n' # ms" by (cases ns') auto
  note small = assms(6)
  from Cons.prems(1,2) small have n: "keccak n = h" by (rule mpt_loop_Cons_True)
  from Cons.prems(3) [unfolded ns'] Cons.prems(4) small have n': "keccak n' = h" by (rule mpt_loop_Cons_True)
  have same: "n' = n" by (rule inj_onD [OF Cons.prems(5)]) (simp_all add: ns' n n')
  have inj: "inj_on keccak (set ns \<union> set ms)"
    by (rule inj_on_subset [OF Cons.prems(5)]) (auto simp: ns')
  from Cons.prems(1,2) small show ?case
  proof (rule mpt_loop_Cons_True)
    fix items
    assume items: "rlp_decode_list n = Some (RlpOk items)" "mpt_node_step nibbles pos v items = Answer True"
    from Cons.prems(3) [unfolded ns' same] Cons.prems(4) small show ?thesis
    proof (rule mpt_loop_Cons_True)
      fix items'
      assume "rlp_decode_list n = Some (RlpOk items')" "mpt_node_step nibbles pos v' items' = Answer True"
      with items mpt_node_step_expected(1) show ?thesis by simp
    next
      fix items' p h'
      assume "rlp_decode_list n = Some (RlpOk items')" "mpt_node_step nibbles pos v' items' = Descend p h'"
      with items mpt_node_step_expected(2) [of nibbles pos v' items' p h' v] show ?thesis by simp
    qed
  next
    fix items p h'
    assume items: "rlp_decode_list n = Some (RlpOk items)" "mpt_node_step nibbles pos v items = Descend p h'"
      and rest: "mpt_loop keccak nibbles v p h' ns = Some (Verified True)"
    from mpt_node_step_expected(2) [OF items(2)]
    have step': "mpt_node_step nibbles pos v' items = Descend p h'" .
    from Cons.prems(3) [unfolded ns' same] Cons.prems(4) small
    have "mpt_loop keccak nibbles v' p h' ms = Some (Verified True)"
      by (rule mpt_loop_Cons_True) (use items(1) step' in simp_all)
    from Cons.IH [OF rest Cons.prems(2) this Cons.prems(4) inj] show ?thesis .
  qed
qed simp

lemma verify_mpt_proof_binds:
  assumes "verify_mpt_proof keccak r key p v = Some (Verified True)" "32 \<le> length v"
    and "verify_mpt_proof keccak r key p' v' = Some (Verified True)" "32 \<le> length v'"
    and "inj_on keccak (set p \<union> set p')"
  shows "v = v'"
  using assms nibbles_small unfolding verify_mpt_proof_def by (rule mpt_loop_binds)

section \<open>The encodings of the circuit\<close>

definition uint_bytes :: "u128 \<Rightarrow> bytes" where
  "uint_bytes val = (if val = 0 then [] else uint_be val)"

lemma rlp_encode_uint_eq: "rlp_encode_uint val = rlp_encode_bytes (uint_bytes val)"
  by (simp add: rlp_encode_uint_def uint_bytes_def rlp_encode_bytes_def)

lemma length_trim_be: "length (trim_be bs) \<le> length bs"
  by (simp add: trim_be_def Let_def)

lemma length_uint_bytes: "length (uint_bytes val) \<le> 16"
  using length_trim_be [of "to_be_bytes 16 val"] by (simp add: uint_bytes_def uint_be_def)

lemma uint_bytes_eq_Nil_iff: "uint_bytes val = [] \<longleftrightarrow> val = 0"
proof -
  have "length (takeWhile (\<lambda>b. b = 0) (to_be_bytes 16 val)) \<le> 16"
    using length_takeWhile_le [of "\<lambda>b. b = 0" "to_be_bytes 16 val"] by simp
  then show ?thesis by (auto simp: uint_bytes_def uint_be_def trim_be_def Let_def)
qed

definition account_items :: "u64 \<Rightarrow> u128 \<Rightarrow> bytes32 \<Rightarrow> bytes32 \<Rightarrow> bytes list" where
  "account_items nonce balance account_root code_hash =
     [uint_bytes (ucast nonce), uint_bytes balance, b32 account_root, b32 code_hash]"

lemma encode_account_rlp_eq:
  "encode_account_rlp nonce balance r c = rlp_encode_list (map rlp_encode_bytes (account_items nonce balance r c))"
  by (simp add: encode_account_rlp_def account_items_def rlp_encode_uint_eq)

lemma length_rlp_encode_bytes: "length x \<le> 55 \<Longrightarrow> length (rlp_encode_bytes x) \<le> length x + 1"
  by (simp add: rlp_encode_bytes_def)

lemma length_account_items: "length (concat (map rlp_encode_bytes (account_items nonce balance r c))) \<le> 100"
  using length_rlp_encode_bytes [of "uint_bytes (ucast nonce)"] length_rlp_encode_bytes [of "uint_bytes balance"]
    length_rlp_encode_bytes [of "b32 r"] length_rlp_encode_bytes [of "b32 c"]
    length_uint_bytes [of "ucast nonce"] length_uint_bytes [of balance]
  by (simp add: account_items_def)

lemma encode_account_rlp_inject:
  assumes "encode_account_rlp n b r c = encode_account_rlp n' b' r' c'"
  shows "r = r' \<and> (n = 0 \<longleftrightarrow> n' = 0)"
proof -
  from length_account_items have small: "length (concat (map rlp_encode_bytes (account_items x y z w))) < 2 ^ 63"
    for x y z w by (rule le_less_trans) simp
  from rlp_encode_list_inject [OF _ small small] assms
  have "account_items n b r c = account_items n' b' r' c'" by (simp only: encode_account_rlp_eq)
  then have "r = r'" "uint_bytes (ucast n) = uint_bytes (ucast n')" by (simp_all add: account_items_def)
  moreover have "(ucast x :: u128) = 0 \<longleftrightarrow> x = 0" for x :: u64
  proof -
    have "unat x < 2 ^ 128" by (rule order_less_trans [OF unsigned_less]) simp
    then show ?thesis by (simp add: word_unat_eq_iff unsigned_ucast_eq take_bit_nat_eq_self)
  qed
  ultimately show ?thesis by (metis uint_bytes_eq_Nil_iff)
qed

lemma length_encode_account_rlp: "32 \<le> length (encode_account_rlp n b r c)"
proof -
  have "33 \<le> length (rlp_encode_bytes (b32 r))" by (simp add: rlp_encode_bytes_def)
  then show ?thesis by (simp add: encode_account_rlp_def rlp_encode_list_def Let_def)
qed

lemma encode_deposit_storage_value_eq:
  "encode_deposit_storage_value d = 0xa0 # replicate 24 0 @ be8 (deposit_amount d)"
  by (simp add: encode_deposit_storage_value_def rlp_encode_bytes_def)

lemma deposit_main_Inr_iff:
  "deposit_main keccak w = Some (Inr out) \<longleftrightarrow>
     verify_mpt_proof keccak (block_state_root (eth_block w)) (account_trie_key keccak (dw_bridge_contract w))
       (account_proof w) (encode_account_rlp 0 0 (storage_root w) 0) = Some (Verified True) \<and>
     verify_mpt_proof keccak (storage_root w) (storage_trie_key keccak (deposit_storage_slot keccak (dw_deposit_id w)))
       (storage_proof w) (encode_deposit_storage_value (dw_deposit_data w)) = Some (Verified True) \<and>
     status (dw_deposit_data w) = 1 \<and> 0 < deposit_amount (dw_deposit_data w) \<and>
     obscura_recipient (dw_deposit_data w) \<noteq> 0 \<and>
     out = \<lparr>eth_block_hash = keccak (rlp_encoded (eth_block w)), do_beacon_block_root = dw_beacon_block_root w,
            do_deposit_id = dw_deposit_id w, do_obscura_recipient = obscura_recipient (dw_deposit_data w),
            do_amount = deposit_amount (dw_deposit_data w), do_bridge_contract = dw_bridge_contract w\<rparr>"
  by (auto simp: deposit_main_def Let_def assert_mpt_def split: option.split_asm mpt_result.split_asm if_split_asm)

section \<open>Properties\<close>

text \<open>Property C22. The amount of a deposit is bound to the state root: two accepted runs for the same
  state root, contract and deposit number commit to the same amount, unless two trie nodes of their
  proofs collide.\<close>

theorem deposit_amount_bound:
  assumes "deposit_main keccak w = Some (Inr out)" "deposit_main keccak w' = Some (Inr out')"
    and "block_state_root (eth_block w) = block_state_root (eth_block w')"
    and "do_bridge_contract out = do_bridge_contract out'" "do_deposit_id out = do_deposit_id out'"
    and "inj_on keccak (set (account_proof w) \<union> set (account_proof w'))"
    and "inj_on keccak (set (storage_proof w) \<union> set (storage_proof w'))"
  shows "do_amount out = do_amount out'"
proof -
  note w = assms(1) [unfolded deposit_main_Inr_iff] and w' = assms(2) [unfolded deposit_main_Inr_iff]
  have contract: "dw_bridge_contract w = dw_bridge_contract w'" and id: "dw_deposit_id w = dw_deposit_id w'"
    using w w' assms(4,5) by simp_all
  have "encode_account_rlp 0 0 (storage_root w) 0 = encode_account_rlp 0 0 (storage_root w') 0"
    by (rule verify_mpt_proof_binds [OF _ length_encode_account_rlp _ length_encode_account_rlp assms(6)])
      (use w w' assms(3) contract in auto)
  then have root: "storage_root w = storage_root w'" using encode_account_rlp_inject by blast
  have "encode_deposit_storage_value (dw_deposit_data w) = encode_deposit_storage_value (dw_deposit_data w')"
    by (rule verify_mpt_proof_binds [OF _ _ _ _ assms(7)])
      (use w w' root id in \<open>auto simp: encode_deposit_storage_value_eq\<close>)
  then show ?thesis using w w' by (simp add: encode_deposit_storage_value_eq)
qed

text \<open>Nothing else of the deposit is bound: an accepted witness stays accepted with any
  non-zero recipient, any sender and time, any block header bytes and number and any beacon root, and
  the circuit commits to them. The prover chooses who receives the bridged coins and which block
  hash the claim carries.\<close>

lemma deposit_recipient_unbound:
  assumes "deposit_main keccak w = Some (Inr out)" "r \<noteq> 0"
  shows "deposit_main keccak (w
      \<lparr>dw_deposit_data := (dw_deposit_data w)\<lparr>obscura_recipient := r, deposit_sender := s, deposit_timestamp := t\<rparr>,
       eth_block := (eth_block w)\<lparr>rlp_encoded := bytes, number := n, parent_hash := p, block_timestamp := bt\<rparr>,
       dw_beacon_block_root := beacon\<rparr>) =
    Some (Inr (out\<lparr>do_obscura_recipient := r, eth_block_hash := keccak bytes, do_beacon_block_root := beacon\<rparr>))"
  using assms by (simp add: deposit_main_Inr_iff encode_deposit_storage_value_eq)

text \<open>Property C30. The circuit accepts no deposit of a deployed contract: it expects an account with
  nonce, balance and code hash zero, but a contract's account has a nonce of at least one. If the
  state trie holds such an account for the contract (some proof of it verifies), a witness against
  that state root is refused, unless Keccak collides on two nodes of the two account proofs.\<close>

theorem deposit_circuit_rejects_contracts:
  assumes "verify_mpt_proof keccak (block_state_root (eth_block w)) (account_trie_key keccak (dw_bridge_contract w))
      p (encode_account_rlp nonce balance r c) = Some (Verified True)" "nonce \<noteq> 0"
    and "inj_on keccak (set p \<union> set (account_proof w))"
  shows "deposit_main keccak w \<noteq> Some (Inr out)"
proof
  assume "deposit_main keccak w = Some (Inr out)"
  then have "verify_mpt_proof keccak (block_state_root (eth_block w)) (account_trie_key keccak (dw_bridge_contract w))
      (account_proof w) (encode_account_rlp 0 0 (storage_root w) 0) = Some (Verified True)"
    by (simp add: deposit_main_Inr_iff)
  from verify_mpt_proof_binds [OF assms(1) length_encode_account_rlp this length_encode_account_rlp assms(3)]
  have "encode_account_rlp nonce balance r c = encode_account_rlp 0 0 (storage_root w) 0" .
  with assms(2) encode_account_rlp_inject show False by blast
qed

text \<open>Property C31. The circuit need not end: an account proof that starts with a node below 32 bytes
  whose list holds an item of claimed size \<open>2 ^ 64 - 9\<close> makes the decoder loop forever, whatever the
  state root.\<close>

theorem deposit_circuit_may_diverge:
  "deposit_main keccak (w\<lparr>account_proof := (0xc9 # endless_item) # rest\<rparr>) = None"
  by (simp add: deposit_main_def Let_def verify_mpt_proof_def rlp_decode_list_endless assert_mpt_def
      length_endless_item)

section \<open>Witnesses\<close>

text \<open>A trie with one leaf: its proof is accepted for every key and value, under every hash.\<close>

definition single_leaf :: "bytes32 \<Rightarrow> bytes \<Rightarrow> bytes" where
  "single_leaf key v = rlp_encode_list (map rlp_encode_bytes [0x20 # b32 key, v])"

lemma decode_hp_leaf: "decode_hp (0x20 # b32 key) = (True, bytes_to_nibbles key)"
proof -
  have "drop_bit 4 (0x20 :: byte) AND 0x0f = 2" by code_simp
  then show ?thesis by (simp add: decode_hp_def bytes_to_nibbles_def)
qed

lemma single_leaf_accepted:
  assumes "length v < 2 ^ 62"
  shows "verify_mpt_proof keccak (keccak (single_leaf key v)) key [single_leaf key v] v = Some (Verified True)"
proof -
  have "length (rlp_encode_bytes x) \<le> length x + 9" for x
    using length_trim_usize [of "length x"] by (simp add: rlp_encode_bytes_def Let_def)
  from this [of v] this [of "0x20 # b32 key"] assms
  have "length (concat (map rlp_encode_bytes [0x20 # b32 key, v])) < 2 ^ 63" by simp
  from decode_encode_list [OF this]
  have "rlp_decode_list (single_leaf key v) = Some (RlpOk [0x20 # b32 key, v])" by (simp only: single_leaf_def)
  then show ?thesis
    by (simp add: verify_mpt_proof_def mpt_node_step_def decode_hp_leaf)
qed

definition length_hash :: hash32 where
  "length_hash bs = of_nat (length bs)"

definition demo_account_leaf :: "u64 \<Rightarrow> bytes32 \<Rightarrow> bytes" where
  "demo_account_leaf nonce r = single_leaf (account_trie_key length_hash 7) (encode_account_rlp nonce 0 r 0)"

definition demo_deposit :: deposit_data where
  "demo_deposit = \<lparr>deposit_sender = 1, obscura_recipient = 2, deposit_amount = 5, deposit_timestamp = 0, status = 1\<rparr>"

definition demo_storage_leaf :: bytes where
  "demo_storage_leaf = single_leaf (storage_trie_key length_hash (deposit_storage_slot length_hash 3))
     (encode_deposit_storage_value demo_deposit)"

definition demo_claim_witness :: bridge_deposit_witness where
  "demo_claim_witness =
     \<lparr>eth_block = \<lparr>parent_hash = 0, block_state_root = length_hash (demo_account_leaf 0 (length_hash demo_storage_leaf)),
        number = 1, block_timestamp = 1, rlp_encoded = []\<rparr>,
      dw_beacon_block_root = 0, dw_bridge_contract = 7,
      account_proof = [demo_account_leaf 0 (length_hash demo_storage_leaf)],
      storage_root = length_hash demo_storage_leaf, dw_deposit_id = 3, storage_proof = [demo_storage_leaf],
      dw_deposit_data = demo_deposit\<rparr>"

lemma length_account_rlp: "length (encode_account_rlp n b r c) < 2 ^ 62"
proof -
  have "length (rlp_encode_list ys) \<le> length (concat ys) + 9" for ys
    using length_trim_usize [of "length (concat ys)"] by (simp add: rlp_encode_list_def Let_def)
  from this [of "map rlp_encode_bytes (account_items n b r c)"] length_account_items [of n b r c]
  have "length (encode_account_rlp n b r c) \<le> 109" by (simp only: encode_account_rlp_eq)
  then show ?thesis by (rule le_less_trans) simp
qed

lemma demo_account_accepted:
  "verify_mpt_proof length_hash (length_hash (demo_account_leaf n r)) (account_trie_key length_hash 7)
     [demo_account_leaf n r] (encode_account_rlp n 0 r 0) = Some (Verified True)"
  unfolding demo_account_leaf_def by (rule single_leaf_accepted [OF length_account_rlp])

lemma demo_claim_accepted:
  "\<exists>out. deposit_main length_hash demo_claim_witness = Some (Inr out) \<and> do_amount out = 5 \<and>
     do_obscura_recipient out = 2 \<and> do_deposit_id out = 3 \<and> do_bridge_contract out = 7"
proof -
  have "verify_mpt_proof length_hash (length_hash demo_storage_leaf)
      (storage_trie_key length_hash (deposit_storage_slot length_hash 3)) [demo_storage_leaf]
      (encode_deposit_storage_value demo_deposit) = Some (Verified True)"
    unfolding demo_storage_leaf_def by (rule single_leaf_accepted) (simp add: encode_deposit_storage_value_eq)
  with demo_account_accepted [of 0 "length_hash demo_storage_leaf"] show ?thesis
    by (simp add: deposit_main_Inr_iff demo_claim_witness_def) (simp add: demo_deposit_def)
qed

lemma deposit_recipient_unbound_example:
  "\<exists>out. deposit_main length_hash (demo_claim_witness
      \<lparr>dw_deposit_data := demo_deposit\<lparr>obscura_recipient := 66, deposit_sender := 9, deposit_timestamp := 8\<rparr>,
       eth_block := (eth_block demo_claim_witness)\<lparr>rlp_encoded := [1], number := 4, parent_hash := 4, block_timestamp := 4\<rparr>,
       dw_beacon_block_root := 99\<rparr>) = Some (Inr out) \<and> do_obscura_recipient out = 66"
proof -
  obtain out where out: "deposit_main length_hash demo_claim_witness = Some (Inr out)"
    using demo_claim_accepted by blast
  from deposit_recipient_unbound [where r = 66 and s = 9 and t = 8 and bytes = "[1]" and n = 4 and p = 4 and bt = 4
      and beacon = 99, OF out] show ?thesis
    by (simp add: demo_claim_witness_def)
qed

theorem deposit_amount_bound_witness:
  "\<exists>out out'. deposit_main length_hash demo_claim_witness = Some (Inr out) \<and>
     deposit_main length_hash (demo_claim_witness\<lparr>dw_beacon_block_root := 99\<rparr>) = Some (Inr out') \<and>
     do_amount out = do_amount out'"
proof -
  let ?w = "demo_claim_witness\<lparr>dw_beacon_block_root := 99\<rparr>"
  obtain out where out: "deposit_main length_hash demo_claim_witness = Some (Inr out)"
    using demo_claim_accepted by blast
  then have out': "deposit_main length_hash ?w = Some (Inr (out\<lparr>do_beacon_block_root := 99\<rparr>))"
    by (simp add: deposit_main_Inr_iff)
  have "do_amount out = do_amount (out\<lparr>do_beacon_block_root := 99\<rparr>)"
    by (rule deposit_amount_bound [OF out out']) (simp_all add: demo_claim_witness_def)
  with out out' show ?thesis by blast
qed

theorem deposit_circuit_rejects_contracts_witness:
  "\<nexists>out. deposit_main length_hash (demo_claim_witness
     \<lparr>eth_block := (eth_block demo_claim_witness)\<lparr>block_state_root := length_hash (demo_account_leaf 1 4)\<rparr>,
      account_proof := [demo_account_leaf 1 4]\<rparr>) = Some (Inr out)"
proof (rule notI, erule exE, erule notE [rotated])
  fix out
  show "deposit_main length_hash (demo_claim_witness
     \<lparr>eth_block := (eth_block demo_claim_witness)\<lparr>block_state_root := length_hash (demo_account_leaf 1 4)\<rparr>,
      account_proof := [demo_account_leaf 1 4]\<rparr>) \<noteq> Some (Inr out)"
  by (rule deposit_circuit_rejects_contracts [where nonce = 1 and p = "[demo_account_leaf 1 4]" and r = 4 and c = 0 and balance = 0])
    (use demo_account_accepted [of 1 4] in \<open>simp_all add: demo_claim_witness_def\<close>)
qed

end
