(* ===== verification/Relayer_Properties.thy ===== *)
theory Relayer_Properties
  imports Relayer Guest_Deposit
begin

text \<open>
  What the relayer does over any number of polls, for every behaviour of the nodes and of the rollup
  it talks to, and how its messages fare with the bridge module. The history of requests is the
  ledger: the claims the rollup acknowledged are read off it.
\<close>

section \<open>Claims in a history of requests\<close>

fun sent_claim :: "relay_message request \<Rightarrow> claim_deposit option" where
  "sent_claim (RpcPost url meth (Message (ClaimMsg c))) = Some c"
| "sent_claim r = None"

definition no_claim :: "relay_message request \<Rightarrow> bool" where
  "no_claim r \<longleftrightarrow> sent_claim r = None"

definition answered_ok :: "json option \<Rightarrow> bool" where
  "answered_ok a = (case a of None \<Rightarrow> False | Some v \<Rightarrow> json_get v ''error'' = None)"

text \<open>The deposits whose claims were answered without an error, in order.\<close>

definition acked :: "relay_message env \<Rightarrow> relay_message request list \<Rightarrow> u64 list" where
  "acked env h =
     concat (map (\<lambda>k. case sent_claim (h ! k) of
                        Some c \<Rightarrow> if answered_ok (env (take (Suc k) h)) then [deposit_id (claim_inputs c)] else []
                      | None \<Rightarrow> []) [0..<length h])"

lemma acked_Nil [simp]: "acked env [] = []"
  by (simp add: acked_def)

lemma acked_snoc:
  "acked env (h @ [r]) = acked env h @
     (case sent_claim r of
        Some c \<Rightarrow> if answered_ok (env (h @ [r])) then [deposit_id (claim_inputs c)] else []
      | None \<Rightarrow> [])"
proof -
  have upt: "[0..<length (h @ [r])] = [0..<length h] @ [length h]" by simp
  have eq: "map (\<lambda>k. case sent_claim ((h @ [r]) ! k) of
                   Some c \<Rightarrow> if answered_ok (env (take (Suc k) (h @ [r]))) then [deposit_id (claim_inputs c)] else []
                 | None \<Rightarrow> []) [0..<length h] =
        map (\<lambda>k. case sent_claim (h ! k) of
                   Some c \<Rightarrow> if answered_ok (env (take (Suc k) h)) then [deposit_id (claim_inputs c)] else []
                 | None \<Rightarrow> []) [0..<length h]"
    (is "map ?f _ = map ?g _")
  proof (rule map_cong [OF refl])
    fix k assume "k \<in> set [0..<length h]"
    then have "(h @ [r]) ! k = h ! k" "take (Suc k) (h @ [r]) = take (Suc k) h" by simp_all
    then show "?f k = ?g k" by (simp split: option.split)
  qed
  show ?thesis
    unfolding acked_def upt map_append concat_append eq by (simp split: option.split)
qed

lemma acked_quiet: "list_all no_claim rs \<Longrightarrow> acked env (h @ rs) = acked env h"
proof (induction rs rule: rev_induct)
  case (snoc r rs)
  then show ?case by (simp add: acked_snoc no_claim_def flip: append_assoc)
qed simp

lemma quiet_acked: "sends no_claim m \<Longrightarrow> m h = (res, h') \<Longrightarrow> acked env h' = acked env h"
  by (auto dest: sendsD acked_quiet)

section \<open>What the operations send\<close>

lemma sends_eth [sends_intros]:
  assumes "\<And>url meth ps. P (RpcPost url meth (Params ps))"
  shows "sends P (eth_call env c meth ps)" "sends P (get_block env c n)" "sends P (get_latest_block env c)"
    "sends P (get_deposit_events cr env c a b)" "sends P (get_storage_proof cr keccak env c n i)"
    "sends P (get_beacon_root cr env c n)" "sends P (get_helios_state cr env oc)"
  unfolding eth_call_def get_block_def get_latest_block_def get_deposit_events_def get_storage_proof_def
    get_beacon_root_def get_helios_state_def Let_def
  by (intro sends_intros assms)+

lemma sends_submit_helios_update:
  assumes "\<And>url meth ps. P (RpcPost url meth (Params ps))" "\<And>url. P (HttpGet url)"
    and "\<And>url meth u. P (RpcPost url meth (Message (HeliosMsg u)))"
  shows "sends P (submit_helios_update d env r)"
  unfolding submit_helios_update_def post_helios_update_def Let_def case_prod_beta
  by (intro sends_intros assms)+

text \<open>Everything before the submission of a claim.\<close>

definition prepare_claim ::
    "('pk, 'pr) relayer_deps \<Rightarrow> relay_message env \<Rightarrow> bridge_relayer \<Rightarrow> eth_log \<Rightarrow> (relay_message, claim_deposit) io" where
  "prepare_claim d env r log =
     io_bind (get_storage_proof (dep_crates d) (dep_keccak d) env (rl_eth r) (log_block_number log)
                (log_deposit_id log)) (\<lambda>sp.
     io_bind (get_beacon_root (dep_crates d) env (rl_eth r) (log_block_number log)) (\<lambda>beacon_root.
     io_bind (io_lift (parse_address_str (dep_crates d) (rc_bridge_contract (rl_config r)))) (\<lambda>contract.
     io_bind (io_lift (if mock_proofs (rl_config r) then Inr (MOCK_PROOF_PREFIX @ le8 (log_deposit_id log))
                       else generate_sp1_proof log sp (claim_inputs (relayed_claim log beacon_root contract []))))
       (\<lambda>pr. io_return (relayed_claim log beacon_root contract pr)))))"

lemma io_bind_assoc: "io_bind (io_bind m f) g = io_bind m (\<lambda>x. io_bind (f x) g)"
  by (auto simp: io_bind_def fun_eq_iff split: prod.split sum.split)

lemma io_bind_return [simp]: "io_bind (io_return x) f = f x"
  by (auto simp: io_bind_def fun_eq_iff)

lemma relay_deposit_eq: "relay_deposit d env r log = io_bind (prepare_claim d env r log) (submit_claim env (rl_obscura r))"
  by (simp add: relay_deposit_def prepare_claim_def io_bind_assoc)

lemma sends_prepare_claim:
  "(\<And>url meth ps. P (RpcPost url meth (Params ps))) \<Longrightarrow> sends P (prepare_claim d env r log)"
  unfolding prepare_claim_def by (intro sends_intros)+

lemma prepare_claim_Inr:
  "prepare_claim d env r log h = (Inr c, h') \<Longrightarrow>
     deposit_id (claim_inputs c) = log_deposit_id log \<and> mock_proofs (rl_config r) \<and>
     claim_proof c = MOCK_PROOF_PREFIX @ le8 (log_deposit_id log)"
  by (auto simp: prepare_claim_def io_bind_Inr_iff generate_sp1_proof_def relayed_claim_def split: if_splits)

lemma relay_deposit_acked:
  assumes "relay_deposit d env r log h = (res, h')"
  shows "acked env h' = acked env h @ (if res = Inr () then [log_deposit_id log] else [])"
proof -
  have quiet: "sends no_claim (prepare_claim d env r log)"
    by (rule sends_prepare_claim) (simp add: no_claim_def)
  obtain a h1 where prep: "prepare_claim d env r log h = (a, h1)" by (cases "prepare_claim d env r log h")
  with quiet_acked [OF quiet] have h1: "acked env h1 = acked env h" by blast
  show ?thesis
  proof (cases a)
    case (Inl e)
    with assms prep h1 show ?thesis by (auto simp: relay_deposit_eq io_bind_def)
  next
    case (Inr c)
    from prep Inr have id: "deposit_id (claim_inputs c) = log_deposit_id log"
      using prepare_claim_Inr by blast
    from assms prep Inr have "submit_claim env (rl_obscura r) c h1 = (res, h')"
      by (simp add: relay_deposit_eq io_bind_def)
    then show ?thesis
      by (auto simp: submit_claim_def io_bind_def send_def rpc_result_def acked_snoc answered_ok_def h1 id
          split: option.splits)
  qed
qed

section \<open>Every deposit is relayed once\<close>

text \<open>An error that is caught is not passed on; a panic is.\<close>

lemma io_catch_default: "io_catch m (\<lambda>_. io_return x) h = (Inl e, h') \<Longrightarrow> e = Panicked"
  by (auto simp: io_catch_def split: prod.splits sum.splits if_splits)

lemma relay_logs_error: "relay_logs d env logs r h = (Inl e, h') \<Longrightarrow> e = Panicked"
proof (induction logs arbitrary: r h)
  case (Cons log logs)
  then show ?case
    by (auto simp: io_bind_def [where m = "io_catch m f" for m f] split: if_splits prod.splits sum.splits
        dest: io_catch_default)
qed simp

definition once :: "relay_message env \<Rightarrow> relay_message request list \<Rightarrow> u64 set \<Rightarrow> bool" where
  "once env h ids \<longleftrightarrow> distinct (acked env h) \<and> set (acked env h) = ids"

lemma relay_logs_once:
  assumes "relay_logs d env logs r h = (res, h')" "once env h (rl_processed r)"
  shows "distinct (acked env h') \<and> (\<forall>r'. res = Inr r' \<longrightarrow> once env h' (rl_processed r'))"
  using assms
proof (induction logs arbitrary: r h)
  case Nil
  then show ?case by (auto simp: once_def)
next
  case (Cons log logs)
  show ?case
  proof (cases "log_deposit_id log \<in> rl_processed r")
    case True
    with Cons.prems(1) have "relay_logs d env logs r h = (res, h')" by simp
    then show ?thesis using Cons.prems(2) by (rule Cons.IH)
  next
    case new: False
    obtain a h1 where relay: "relay_deposit d env r log h = (a, h1)" by (cases "relay_deposit d env r log h")
    note acked = relay_deposit_acked [OF relay]
    show ?thesis
    proof (cases a)
      case (Inr u)
      let ?r = "r\<lparr>rl_processed := insert (log_deposit_id log) (rl_processed r)\<rparr>"
      have rest: "relay_logs d env logs ?r h1 = (res, h')"
        using Cons.prems(1) new relay Inr by (simp add: io_bind_def io_catch_def)
      have "once env h1 (rl_processed ?r)"
        using Cons.prems(2) acked new Inr by (auto simp: once_def)
      from Cons.IH [OF rest this] show ?thesis .
    next
      case (Inl e)
      then have same: "acked env h1 = acked env h" using acked by simp
      show ?thesis
      proof (cases "e = Panicked")
        case True
        with Cons.prems new relay Inl same show ?thesis by (auto simp: io_bind_def io_catch_def once_def)
      next
        case False
        with Cons.prems(1) new relay Inl have "relay_logs d env logs r h1 = (res, h')"
          by (simp add: io_bind_def io_catch_def)
        moreover have "once env h1 (rl_processed r)" using Cons.prems(2) same by (simp add: once_def)
        ultimately show ?thesis by (rule Cons.IH)
      qed
    qed
  qed
qed

lemma quiet_once: "sends no_claim m \<Longrightarrow> m h = (res, h') \<Longrightarrow> once env h ids \<Longrightarrow> once env h' ids"
  by (simp add: once_def quiet_acked)

lemma quiet_bind_once:
  assumes "io_bind m f h = (res, h')" "sends no_claim m" "once env h ids"
    and "\<And>x h1. m h = (Inr x, h1) \<Longrightarrow> f x h1 = (res, h') \<Longrightarrow> once env h1 ids \<Longrightarrow> G"
    and "\<And>e. res = Inl e \<Longrightarrow> once env h' ids \<Longrightarrow> G"
  shows G
proof -
  obtain a h1 where m: "m h = (a, h1)" by (cases "m h")
  note h1 = quiet_once [OF assms(2) m assms(3)]
  show G
  proof (cases a)
    case (Inl e)
    with assms(1) m h1 show G by (auto simp: io_bind_def intro: assms(5))
  next
    case (Inr x)
    with assms(1) m h1 show G by (auto simp: io_bind_def intro: assms(4))
  qed
qed

lemma scan_once:
  assumes scan: "scan_and_relay d env from_block ep r h = (res, h')" and inv: "once env h (rl_processed r)"
  shows "distinct (acked env h') \<and> (\<forall>l e r'. res = Inr (l, e, r') \<longrightarrow> once env h' (rl_processed r')) \<and>
    (\<forall>e. res = Inl e \<longrightarrow> e = Panicked \<or> once env h' (rl_processed r))"
proof -
  have latest: "sends no_claim (get_latest_block env (rl_eth r))"
    and events: "sends no_claim (get_deposit_events (dep_crates d) env (rl_eth r) a b)" for a b
    by (intro sends_intros; simp add: no_claim_def)+
  have helios: "sends no_claim (submit_helios_update d env r)"
    by (intro sends_submit_helios_update) (simp_all add: no_claim_def)
  have update: "sends no_claim (if c then io_catch (io_bind (submit_helios_update d env r) (\<lambda>_. io_return x)) (\<lambda>_. io_return y)
      else io_return y)" for c x y
    by (intro sends_intros helios)
  show ?thesis
    using scan [unfolded scan_and_relay_def Let_def] latest inv
  proof (rule quiet_bind_once, goal_cases)
    case (1 l h1)
    show ?thesis
    proof (cases "from_block > l")
      case True
      with 1 inv show ?thesis by (auto simp: once_def)
    next
      case False
      with 1 have "io_bind (get_deposit_events (dep_crates d) env (rl_eth r) from_block l) (\<lambda>logs.
          io_bind (if logs \<noteq> [] \<and> l div SLOTS_PER_EPOCH > ep
                   then io_catch (io_bind (submit_helios_update d env r) (\<lambda>_. io_return (l div SLOTS_PER_EPOCH)))
                          (\<lambda>_. io_return ep)
                   else io_return ep) (\<lambda>epoch.
          io_bind (relay_logs d env logs r) (\<lambda>r'. io_return (l, epoch, r')))) h1 = (res, h')" by simp
      then show ?thesis using events 1(3)
      proof (rule quiet_bind_once, goal_cases)
        case (1 logs h2)
        from 1(2) update 1(3) show ?thesis
        proof (rule quiet_bind_once, goal_cases)
          case (1 epoch h3)
          obtain a h4 where logs: "relay_logs d env logs r h3 = (a, h4)" by (cases "relay_logs d env logs r h3")
          from relay_logs_once [OF logs 1(3)] relay_logs_error [of d env logs r h3 _ h4] 1(2) logs show ?thesis
            by (auto simp: io_bind_def split: sum.splits)
        qed (auto simp: once_def)
      qed (auto simp: once_def)
    qed
  qed (auto simp: once_def)
qed

lemma poll_once:
  assumes "relayer_poll d env (from_block, ep, r) h = (res, h')" "once env h (rl_processed r)"
  shows "distinct (acked env h') \<and> (\<forall>l e r'. res = Inr (l, e, r') \<longrightarrow> once env h' (rl_processed r'))"
proof -
  obtain a h1 where scan: "scan_and_relay d env from_block ep r h = (a, h1)"
    by (cases "scan_and_relay d env from_block ep r h")
  from scan_once [OF scan assms(2)] assms(1) scan show ?thesis
    by (auto simp: relayer_poll_def io_bind_def io_catch_def once_def split: sum.splits if_splits)
qed

lemma polls_once:
  assumes "polls d env n (from_block, ep, r) h = (res, h')" "once env h (rl_processed r)"
  shows "distinct (acked env h') \<and> (\<forall>l e r'. res = Inr (l, e, r') \<longrightarrow> once env h' (rl_processed r'))"
  using assms
proof (induction n arbitrary: from_block ep r h)
  case 0
  then show ?case by (auto simp: once_def)
next
  case (Suc n)
  obtain a h1 where poll: "relayer_poll d env (from_block, ep, r) h = (a, h1)"
    by (cases "relayer_poll d env (from_block, ep, r) h")
  note once = poll_once [OF poll Suc.prems(2)]
  show ?case
  proof (cases a)
    case (Inl e)
    with Suc.prems poll once show ?thesis by (auto simp: io_bind_def)
  next
    case (Inr st)
    obtain f e r' where st: "st = (f, e, r')" by (cases st)
    with Suc.prems(1) poll Inr have "polls d env n (f, e, r') h1 = (res, h')" by (simp add: io_bind_def)
    moreover from once Inr st have "once env h1 (rl_processed r')" by blast
    ultimately show ?thesis by (rule Suc.IH)
  qed
qed

lemma poll_error: "relayer_poll d env st h = (Inl e, h') \<Longrightarrow> e = Panicked"
  by (cases st) (simp add: relayer_poll_def io_catch_default)

lemma polls_error: "polls d env n st h = (Inl e, h') \<Longrightarrow> e = Panicked"
proof (induction n arbitrary: st h)
  case (Suc n)
  obtain a h1 where poll: "relayer_poll d env st h = (a, h1)" by (cases "relayer_poll d env st h")
  with Suc.prems show ?case
    by (cases a) (auto simp: io_bind_def intro: Suc.IH dest: poll_error)
qed simp

section \<open>What the claims look like\<close>

lemma relay_logs_config:
  "relay_logs d env logs r h = (Inr r', h') \<Longrightarrow> rl_config r' = rl_config r"
proof (induction logs arbitrary: r h)
  case (Cons log logs)
  show ?case
  proof (cases "log_deposit_id log \<in> rl_processed r")
    case False
    with Cons.prems obtain t h1 where
      step: "io_catch (io_bind (relay_deposit d env r log) (\<lambda>_.
          io_return (r\<lparr>rl_processed := insert (log_deposit_id log) (rl_processed r)\<rparr>))) (\<lambda>_. io_return r) h = (Inr t, h1)"
      and rest: "relay_logs d env logs t h1 = (Inr r', h')"
      by (auto simp: io_bind_Inr_iff)
    from step have "rl_config t = rl_config r"
      by (auto simp: io_catch_def io_bind_def split: prod.splits sum.splits if_splits)
    with Cons.IH [OF rest] show ?thesis by simp
  qed (use Cons in auto)
qed simp

lemma scan_config: "scan_and_relay d env f ep r h = (Inr (l, e, r'), h') \<Longrightarrow> rl_config r' = rl_config r"
  by (auto simp: scan_and_relay_def io_bind_Inr_iff Let_def split: if_splits dest: relay_logs_config)

lemma poll_config: "relayer_poll d env (f, ep, r) h = (Inr (l, e, r'), h') \<Longrightarrow> rl_config r' = rl_config r"
  by (auto simp: relayer_poll_def io_catch_def io_bind_def split: prod.splits sum.splits if_splits dest: scan_config)

definition mock_claim :: "relayer_config \<Rightarrow> relay_message request \<Rightarrow> bool" where
  "mock_claim c r =
     (case sent_claim r of
        None \<Rightarrow> True
      | Some claim \<Rightarrow> mock_proofs c \<and> starts_with MOCK_PROOF_PREFIX (claim_proof claim))"

lemma sends_relay_deposit: "rl_config r = c \<Longrightarrow> sends (mock_claim c) (relay_deposit d env r log)"
  unfolding relay_deposit_eq
proof (rule sends_bind_result)
  show "sends (mock_claim c) (prepare_claim d env r log)"
    by (rule sends_prepare_claim) (simp add: mock_claim_def)
next
  fix h claim h'
  assume "rl_config r = c" "prepare_claim d env r log h = (Inr claim, h')"
  then have "mock_proofs c \<and> starts_with MOCK_PROOF_PREFIX (claim_proof claim)"
    using prepare_claim_Inr by fastforce
  then show "sends (mock_claim c) (submit_claim env (rl_obscura r) claim)"
    unfolding submit_claim_def by (intro sends_intros) (simp add: mock_claim_def)
qed

lemma sends_relay_logs: "rl_config r = c \<Longrightarrow> sends (mock_claim c) (relay_logs d env logs r)"
proof (induction logs arbitrary: r)
  case (Cons log logs)
  let ?step = "io_catch (io_bind (relay_deposit d env r log) (\<lambda>_.
      io_return (r\<lparr>rl_processed := insert (log_deposit_id log) (rl_processed r)\<rparr>))) (\<lambda>_. io_return r)"
  have "sends (mock_claim c) (io_bind ?step (relay_logs d env logs))"
  proof (rule sends_bind_result)
    show "sends (mock_claim c) ?step"
      by (intro sends_intros sends_relay_deposit Cons.prems)
  next
    fix h t h' assume "?step h = (Inr t, h')"
    then have "rl_config t = c"
      using Cons.prems by (auto simp: io_catch_def io_bind_def split: prod.splits sum.splits if_splits)
    then show "sends (mock_claim c) (relay_logs d env logs t)" by (rule Cons.IH)
  qed
  with Cons show ?case by simp
qed (simp add: sends_return)

lemma sends_scan:
  assumes "rl_config r = c"
  shows "sends (mock_claim c) (scan_and_relay d env f ep r)"
  unfolding scan_and_relay_def Let_def
  by (intro sends_intros sends_relay_logs assms sends_submit_helios_update) (simp_all add: mock_claim_def)

lemma sends_poll: "rl_config r = c \<Longrightarrow> sends (mock_claim c) (relayer_poll d env (f, ep, r))"
  unfolding relayer_poll_def case_prod_conv case_prod_beta by (intro sends_intros sends_scan) simp_all

lemma sends_polls: "rl_config r = c \<Longrightarrow> sends (mock_claim c) (polls d env n (f, ep, r))"
proof (induction n arbitrary: f ep r)
  case (Suc n)
  show ?case
    unfolding polls.simps
  proof (rule sends_bind_result)
    show "sends (mock_claim c) (relayer_poll d env (f, ep, r))" by (rule sends_poll [OF Suc.prems])
  next
    fix h st h' assume poll: "relayer_poll d env (f, ep, r) h = (Inr st, h')"
    obtain f' e' r' where st: "st = (f', e', r')" by (cases st)
    from poll_config poll st Suc.prems show "sends (mock_claim c) (polls d env n st)"
      unfolding st by (intro Suc.IH) blast
  qed
qed (simp add: sends_return)

section \<open>Properties\<close>

text \<open>Property C21. However the nodes and the rollup answer, over any number of polls the rollup
  acknowledges at most one claim per deposit; while the relayer runs, its set of processed deposits
  is exactly the set of the acknowledged ones, and only a panic stops it.\<close>

theorem deposits_relayed_once:
  "case relayer_run d env n c [] of (res, h) \<Rightarrow>
     distinct (acked env h) \<and>
     (case res of Inr (from_block, ep, r) \<Rightarrow> rl_processed r = set (acked env h) | Inl e \<Rightarrow> e = Panicked)"
proof -
  obtain res h where run: "polls d env n (start_block c, 0, bridge_relayer_new c) [] = (res, h)"
    by (cases "polls d env n (start_block c, 0, bridge_relayer_new c) []")
  have "once env [] (rl_processed (bridge_relayer_new c))" by (simp add: once_def bridge_relayer_new_def)
  from polls_once [OF run this] polls_error [of d env n _ "[]" _ h] run show ?thesis
    by (auto simp: relayer_run_def once_def split: sum.splits prod.splits)
qed

text \<open>Property C27. Every claim the relayer ever sends carries a mock proof, and it sends one only
  when it is configured for mock proofs: configured for real ones it relays no deposit at all.\<close>

theorem relayed_claims_are_mock:
  "list_all (\<lambda>r. case sent_claim r of
       None \<Rightarrow> True
     | Some claim \<Rightarrow> mock_proofs c \<and> starts_with MOCK_PROOF_PREFIX (claim_proof claim))
     (snd (relayer_run d env n c []))"
proof -
  have "sends (mock_claim c) (polls d env n (start_block c, 0, bridge_relayer_new c))"
    by (rule sends_polls) (simp add: bridge_relayer_new_def)
  then show ?thesis
    unfolding sends_def relayer_run_def mock_claim_def [abs_def] by (metis append_Nil)
qed

text \<open>The bridge accepts the checks of a claim the relayer builds from a deposit log
  exactly when amount and recipient are not zero, the relayer's contract is the configured one, the
  deposit is unclaimed and, once the light client is active, its block is finalized: the amount and
  the recipient are believed as the relayer reports them.\<close>

lemma relayed_claim_accepted_iff:
  "claim_checks cr build (relayed_claim log beacon_root contract (MOCK_PROOF_PREFIX @ le8 (log_deposit_id log))) s = Inr key \<longleftrightarrow>
     log_amount log \<noteq> 0 \<and> log_recipient log \<noteq> 0 \<and>
     parse_contract_address cr (bridge_contract_address (unwrap_or (config s) default_bridge_config)) = Inr contract \<and>
     key = make_deposit_key_str cr contract (log_deposit_id log) \<and> \<not> is_processed s key \<and>
     (unwrap_or (trusted_slot s) 0 = 0 \<or>
      0 < unwrap_or (finalized_eth_blocks s (block_key cr (log_block_hash log))) 0)"
  by (auto simp: claim_checks_def relayed_claim_def Let_def verify_bridge_proof_def word_gt_0)

text \<open>The storage slot the relayer asks a proof for is the one the circuit checks.\<close>

lemma relayer_slot_is_circuit_slot: "compute_deposit_slot = deposit_storage_slot"
  by (simp add: fun_eq_iff compute_deposit_slot_def deposit_storage_slot_def)

text \<open>After a scan the relayer continues behind the last block, whether or not the deposits in the
  scanned blocks could be relayed: a deposit whose relay failed is not tried again.\<close>

lemma poll_advances:
  assumes "get_latest_block env (rl_eth r) h = (Inr l, h1)" "f \<le> l"
    and "get_deposit_events (dep_crates d) env (rl_eth r) f l h1 = (Inr logs, h2)"
    and "relayer_poll d env (f, ep, r) h = (Inr (f', ep', r'), h')"
  shows "f' = saturating_add64 l 1"
proof -
  obtain a h3 where scan: "scan_and_relay d env f ep r h = (a, h3)" by (cases "scan_and_relay d env f ep r h")
  show ?thesis
  proof (cases a)
    case (Inr t)
    obtain l' e t' where t: "t = (l', e, t')" by (cases t)
    from scan Inr t assms(1-3) have "l' = l"
      by (auto simp: scan_and_relay_def io_bind_Inr_iff Let_def not_less [symmetric] split: if_splits)
    with assms(4) scan Inr t show ?thesis by (simp add: relayer_poll_def io_bind_def io_catch_def)
  next
    case (Inl e)
    have "e = Panicked"
    proof -
      let ?ep = "l div SLOTS_PER_EPOCH"
      let ?up = "if logs \<noteq> [] \<and> ?ep > ep
         then io_catch (io_bind (submit_helios_update d env r) (\<lambda>_. io_return ?ep)) (\<lambda>_. io_return ep) else io_return ep"
      obtain b h4 where up: "?up h2 = (b, h4)" by (cases "?up h2")
      have "b = Inl e' \<Longrightarrow> e' = Panicked" for e'
        using up by (auto split: if_splits dest: io_catch_default)
      with scan Inl assms(1-3) up show ?thesis
        by (auto simp: scan_and_relay_def io_bind_def Let_def not_less [symmetric] split: sum.splits prod.splits
            dest: relay_logs_error)
    qed
    with assms(4) scan Inl show ?thesis by (simp add: relayer_poll_def io_bind_def io_catch_def)
  qed
qed

text \<open>A real proof of a run of the light client circuit: what the SDK reads from it are the outputs that
  the circuit commits to in an accepted run on this witness.\<close>

definition proves_helios_run :: "crates \<Rightarrow> 'p sp1_client \<Rightarrow> 'p \<Rightarrow> helios_witness \<Rightarrow> bool" where
  "proves_helios_run cr client p w \<longleftrightarrow>
     (case helios_main (sha256 cr) w of
        Inl e \<Rightarrow> False
      | Inr out \<Rightarrow> committed_values client p =
          Some \<lparr>prev_trusted_root = ho_prev_trusted_root out, new_beacon_root = ho_new_beacon_root out,
                new_slot = ho_new_slot out, execution_block_hash = ho_execution_block_hash out\<rparr>)"

text \<open>Property C32. A real light client proof made by the relayer is refused by the bridge: the inputs
  it submits name the execution payload root of the witness as the new beacon root, while the circuit
  commits to the hash tree root of the finalized header, and the native check compares the two. The
  condition is that the two roots of the witness differ. They are equal only if the payload root is
  the root of a hash tree that contains it.\<close>

theorem relayed_updates_refused:
  assumes "decode_proof client bs = Some p" "\<not> starts_with MOCK_HELIOS_PREFIX bs"
    and "proves_helios_run cr client p w"
    and "execution_payload_root w \<noteq> hash_tree_root_beacon_header (sha256 cr) (finalized_header w)"
  shows "\<exists>e. handle_update_helios_head cr (HeliosNative client)
    \<lparr>helios_proof = bs, helios_inputs = relay_inputs trusted_root w s\<rparr> st = Inl e"
proof -
  let ?u = "\<lparr>helios_proof = bs, helios_inputs = relay_inputs trusted_root w s\<rparr>"
  from assms(3) obtain out where out: "helios_main (sha256 cr) w = Inr out"
    and committed: "committed_values client p =
      Some \<lparr>prev_trusted_root = ho_prev_trusted_root out, new_beacon_root = ho_new_beacon_root out,
            new_slot = ho_new_slot out, execution_block_hash = ho_execution_block_hash out\<rparr>"
    by (auto simp: proves_helios_run_def split: sum.splits)
  from out have "ho_new_beacon_root out = hash_tree_root_beacon_header (sha256 cr) (finalized_header w)"
    by (auto simp: helios_main_Inr_iff)
  with assms(4) have "execution_payload_root w \<noteq> ho_new_beacon_root out" by simp
  then have "verify_helios_proof (HeliosNative client) bs (relay_inputs trusted_root w s) \<noteq> Inr ()"
    using assms(1,2) committed
    by (auto simp: verify_helios_proof_def verify_helios_sp1_proof_def check_committed_def relay_inputs_def)
  then have "handle_update_helios_head cr (HeliosNative client) ?u st \<noteq> Inr t" for t
    by (auto simp: handle_update_helios_head_def helios_checks_def Let_def)
  then show ?thesis by (cases "handle_update_helios_head cr (HeliosNative client) ?u st") auto
qed

section \<open>Witnesses\<close>

definition demo_client :: "helios_public_inputs sp1_client" where
  "demo_client = \<lparr>elf_found = True,
     decode_proof = (\<lambda>bs. Some \<lparr>prev_trusted_root = 3, new_beacon_root = slot_leaf, new_slot = 1, execution_block_hash = 0\<rparr>),
     client_verify = (\<lambda>p. True), committed_values = Some\<rparr>"

theorem relayed_updates_refused_witness:
  "\<forall>st. \<exists>e. handle_update_helios_head demo_crates (HeliosNative demo_client)
     \<lparr>helios_proof = [], helios_inputs = relay_inputs 3 demo_built 1\<rparr> st = Inl e"
proof
  fix st
  have run: "helios_main (sha256 demo_crates) demo_built = Inr demo_built_outputs"
    by (simp add: demo_crates_def demo_built_accepted)
  have root: "hash_tree_root_beacon_header (sha256 demo_crates) (finalized_header demo_built) = slot_leaf"
    using run by (auto simp: helios_main_Inr_iff demo_built_outputs_def)
  show "\<exists>e. handle_update_helios_head demo_crates (HeliosNative demo_client)
      \<lparr>helios_proof = [], helios_inputs = relay_inputs 3 demo_built 1\<rparr> st = Inl e"
  proof (rule relayed_updates_refused)
    show "proves_helios_run demo_crates demo_client
        \<lparr>prev_trusted_root = 3, new_beacon_root = slot_leaf, new_slot = 1, execution_block_hash = 0\<rparr> demo_built"
      by (simp add: proves_helios_run_def run demo_built_outputs_def demo_client_def)
    show "execution_payload_root demo_built \<noteq> hash_tree_root_beacon_header (sha256 demo_crates) (finalized_header demo_built)"
      unfolding root using slot_leaf_nonzero by (simp add: demo_built_def)
  qed (simp_all add: demo_client_def MOCK_HELIOS_PREFIX_def str_bytes_def)
qed

end
