(* ===== verification/Guest_Privacy.thy ===== *)
theory Guest_Privacy
  imports Merkle Note_Types
begin

text \<open>
  The transfer, unshield and compliance circuits
  (\<open>crates/provers/sp1/guest-privacy/src/bin/\<close> and \<open>src/types.rs\<close>) and the host code that
  prepares their witnesses (\<open>crates/privacy/src/sp1_prover.rs\<close>). A circuit maps its private
  witness to a failed assertion or to the public outputs it commits to.
\<close>

section \<open>Witnesses and outputs\<close>

record note_data =
  nd_amount :: u64
  nd_asset :: bytes32
  nd_owner :: bytes
  nd_salt :: bytes32

record transfer_witness =
  spending_keys :: "bytes32 list"
  inputs :: "note_data list"
  outputs :: "note_data list"
  tw_merkle_root :: bytes32
  leaf_indices :: "u64 list"
  merkle_paths :: "bytes32 list list"

record transfer_public_outputs =
  out_nullifiers :: "bytes32 list"
  out_commitments :: "bytes32 list"
  out_transfer_amount :: u64
  out_asset :: bytes32
  out_merkle_root :: bytes32

record unshield_witness =
  uw_spending_key :: bytes32
  uw_note :: note_data

record unshield_public_outputs =
  uo_nullifier :: bytes32
  uo_amount :: u64
  uo_asset :: bytes32

record compliance_witness =
  cw_amounts :: "u64 list"
  regulatory_limit :: u64

record compliance_public_outputs =
  co_total_volume :: u64
  co_regulatory_limit :: u64
  within_limit :: bool
  co_tx_count :: u32

datatype circuit_panic =
    NoInputs | NoOutputs | KeyCountMismatch | InputAssetMismatch | OutputAssetMismatch
  | InputOverflow | OutputOverflow | Unbalanced | IndexCountMismatch | PathCountMismatch
  | InclusionFailed u64 | ZeroOutputAmount | ZeroNoteAmount | PubkeyLength | VolumeOverflow

section \<open>The transfer circuit\<close>

definition hash_note :: "hash32 \<Rightarrow> note_data \<Rightarrow> bytes32" where
  "hash_note sha n = sha (le8 (nd_amount n) @ b32 (nd_asset n) @ nd_owner n @ b32 (nd_salt n))"

definition hash_nullifier :: "hash32 \<Rightarrow> bytes32 \<Rightarrow> bytes32 \<Rightarrow> bytes32" where
  "hash_nullifier sha spending_key c = sha (b32 spending_key @ b32 c)"

definition guest_hash_pair :: "hash32 \<Rightarrow> bytes32 \<Rightarrow> bytes32 \<Rightarrow> bytes32" where
  "guest_hash_pair sha left right = sha (b32 left @ b32 right)"

fun inclusion_loop :: "hash32 \<Rightarrow> bytes32 \<Rightarrow> u64 \<Rightarrow> bytes32 list \<Rightarrow> bytes32" where
  "inclusion_loop sha current index [] = current"
| "inclusion_loop sha current index (sibling # rest) =
     inclusion_loop sha
       (if and index 1 = 0 then guest_hash_pair sha current sibling else guest_hash_pair sha sibling current)
       (drop_bit 1 index) rest"

definition verify_merkle_inclusion :: "hash32 \<Rightarrow> bytes32 \<Rightarrow> u64 \<Rightarrow> bytes32 list \<Rightarrow> bytes32 \<Rightarrow> bool" where
  "verify_merkle_inclusion sha leaf index path merkle_root =
     (inclusion_loop sha leaf index path = merkle_root)"

text \<open>\<open>fold(0, checked_add().expect())\<close>.\<close>

fun checked_sum :: "u64 \<Rightarrow> u64 list \<Rightarrow> u64 option" where
  "checked_sum acc [] = Some acc"
| "checked_sum acc (a # as) =
     (case checked_add64 acc a of None \<Rightarrow> None | Some acc' \<Rightarrow> checked_sum acc' as)"

definition sum_or_panic :: "circuit_panic \<Rightarrow> u64 list \<Rightarrow> circuit_panic + u64" where
  "sum_or_panic e xs = (case checked_sum 0 xs of None \<Rightarrow> Inl e | Some s \<Rightarrow> Inr s)"

definition transfer_checks_assets :: "transfer_witness \<Rightarrow> circuit_panic + bytes32" where
  "transfer_checks_assets w =
     rbind (ensure (inputs w \<noteq> []) NoInputs) (\<lambda>_.
     rbind (ensure (outputs w \<noteq> []) NoOutputs) (\<lambda>_.
     rbind (ensure (length (inputs w) = length (spending_keys w)) KeyCountMismatch) (\<lambda>_.
       let asset = nd_asset (inputs w ! 0)
       in rbind (ensure (list_all (\<lambda>n. nd_asset n = asset) (inputs w)) InputAssetMismatch) (\<lambda>_.
          rbind (ensure (list_all (\<lambda>n. nd_asset n = asset) (outputs w)) OutputAssetMismatch) (\<lambda>_.
          Inr asset)))))"

definition check_inclusions :: "hash32 \<Rightarrow> transfer_witness \<Rightarrow> circuit_panic + unit" where
  "check_inclusions sha w =
     rfold (\<lambda>((n, leaf_index), siblings) _.
              ensure (verify_merkle_inclusion sha (hash_note sha n) leaf_index siblings (tw_merkle_root w))
                (InclusionFailed leaf_index))
       (zip (zip (inputs w) (leaf_indices w)) (merkle_paths w)) ()"

definition transfer_main :: "hash32 \<Rightarrow> transfer_witness \<Rightarrow> circuit_panic + transfer_public_outputs" where
  "transfer_main sha w =
     rbind (transfer_checks_assets w) (\<lambda>asset.
     rbind (sum_or_panic InputOverflow (map nd_amount (inputs w))) (\<lambda>input_sum.
     rbind (sum_or_panic OutputOverflow (map nd_amount (outputs w))) (\<lambda>output_sum.
     rbind (ensure (input_sum = output_sum) Unbalanced) (\<lambda>_.
     rbind (ensure (length (leaf_indices w) = length (inputs w)) IndexCountMismatch) (\<lambda>_.
     rbind (ensure (length (merkle_paths w) = length (inputs w)) PathCountMismatch) (\<lambda>_.
     rbind (check_inclusions sha w) (\<lambda>_.
     rbind (ensure (list_all (\<lambda>n. nd_amount n > 0) (outputs w)) ZeroOutputAmount) (\<lambda>_.
     Inr \<lparr>out_nullifiers = map (\<lambda>(n, sk). hash_nullifier sha sk (hash_note sha n)) (zip (inputs w) (spending_keys w)),
          out_commitments = map (hash_note sha) (outputs w),
          out_transfer_amount = input_sum, out_asset = asset, out_merkle_root = tw_merkle_root w\<rparr>))))))))"

section \<open>The unshield and compliance circuits\<close>

definition unshield_main :: "hash32 \<Rightarrow> unshield_witness \<Rightarrow> circuit_panic + unshield_public_outputs" where
  "unshield_main sha w =
     rbind (ensure (nd_amount (uw_note w) > 0) ZeroNoteAmount) (\<lambda>_.
     rbind (ensure (length (nd_owner (uw_note w)) = 32) PubkeyLength) (\<lambda>_.
       let n = uw_note w;
           c = sha (le8 (nd_amount n) @ b32 (nd_asset n) @ nd_owner n @ b32 (nd_salt n));
           nf = sha (b32 (uw_spending_key w) @ b32 c)
       in Inr \<lparr>uo_nullifier = nf, uo_amount = nd_amount n, uo_asset = nd_asset n\<rparr>))"

definition compliance_main :: "compliance_witness \<Rightarrow> circuit_panic + compliance_public_outputs" where
  "compliance_main w =
     rbind (sum_or_panic VolumeOverflow (cw_amounts w)) (\<lambda>total_volume.
     Inr \<lparr>co_total_volume = total_volume, co_regulatory_limit = regulatory_limit w,
          within_limit = (total_volume \<le> regulatory_limit w),
          co_tx_count = of_nat (length (cw_amounts w))\<rparr>)"

section \<open>Preparing witnesses on the host (\<open>sp1_prover.rs\<close>)\<close>

definition note_to_data :: "Note \<Rightarrow> note_data" where
  "note_to_data n =
     (let len = min (length (note_owner n)) 32
      in \<lparr>nd_amount = note_amount n, nd_asset = asset_bytes (note_asset n),
          nd_owner = take len (note_owner n) @ replicate (32 - len) 0, nd_salt = note_salt n\<rparr>)"

datatype prover_error = LeafIndexCount | MerklePathCount | NoAmounts | ProverFailed

text \<open>The prover of the SDK, a function from the witness to a proof or a failure, is an argument.\<close>

definition prove_transfer ::
    "(transfer_witness \<Rightarrow> bytes option) \<Rightarrow> bytes32 list \<Rightarrow> Note list \<Rightarrow> Note list \<Rightarrow> bytes32 \<Rightarrow>
     u64 list \<Rightarrow> bytes32 list list \<Rightarrow> prover_error + bytes" where
  "prove_transfer prover keys input_notes output_notes root indices paths =
     (if length indices \<noteq> length input_notes then Inl LeafIndexCount
      else if length paths \<noteq> length input_notes then Inl MerklePathCount
      else case prover \<lparr>spending_keys = keys, inputs = map note_to_data input_notes,
                        outputs = map note_to_data output_notes, tw_merkle_root = root,
                        leaf_indices = indices, merkle_paths = paths\<rparr> of
             None \<Rightarrow> Inl ProverFailed
           | Some pr \<Rightarrow> Inr pr)"

definition prove_unshield ::
    "(unshield_witness \<Rightarrow> bytes option) \<Rightarrow> bytes32 \<Rightarrow> Note \<Rightarrow> prover_error + bytes" where
  "prove_unshield prover key n =
     (case prover \<lparr>uw_spending_key = key, uw_note = note_to_data n\<rparr> of
        None \<Rightarrow> Inl ProverFailed | Some pr \<Rightarrow> Inr pr)"

definition prove_compliance ::
    "(compliance_witness \<Rightarrow> bytes option) \<Rightarrow> u64 list \<Rightarrow> u64 \<Rightarrow> prover_error + bytes" where
  "prove_compliance prover amounts limit =
     (if amounts = [] then Inl NoAmounts
      else case prover \<lparr>cw_amounts = amounts, regulatory_limit = limit\<rparr> of
             None \<Rightarrow> Inl ProverFailed | Some pr \<Rightarrow> Inr pr)"

section \<open>Basic facts\<close>

lemma guest_hash_pair_eq [simp]: "guest_hash_pair = hash_pair"
  by (simp add: fun_eq_iff guest_hash_pair_def hash_pair_def)

lemma inclusion_loop_climb: "inclusion_loop sha x w ss = climb (hash_pair sha) (unat w) x ss"
  by (induction ss arbitrary: x w) (simp_all add: word_and_one_eq_0_iff)

lemma verify_merkle_inclusion_iff:
  "verify_merkle_inclusion sha x i ss r \<longleftrightarrow> climb (hash_pair sha) (unat i) x ss = r"
  by (simp add: verify_merkle_inclusion_def inclusion_loop_climb)

text \<open>The circuit with the pool's own length check is the pool's \<open>verify\<close>.\<close>

lemma verify_iff_inclusion:
  "verify sha p x \<longleftrightarrow> length (siblings p) = TREE_DEPTH \<and>
     verify_merkle_inclusion sha x (leaf_index p) (siblings p) (proof_root p)"
  by (simp add: verify_def verify_loop_climb verify_merkle_inclusion_iff)

lemma checked_sum_Some:
  "checked_sum acc xs = Some s \<longleftrightarrow> unat s = unat acc + sum_list (map unat xs)"
proof (induction xs arbitrary: acc)
  case Nil
  then show ?case by (auto simp: word_unat_eq_iff)
next
  case (Cons x xs)
  show ?case
  proof (cases "checked_add64 acc x")
    case None
    then have "unat acc + unat x \<ge> 2 ^ 64"
      by (simp add: checked_add64_None_iff)
    moreover have "unat s < 2 ^ 64" using unsigned_less [of s] by simp
    ultimately show ?thesis using None by simp
  next
    case (Some a)
    with checked_add64_SomeD [OF Some] Cons.IH [of a] show ?thesis by (simp add: add.assoc)
  qed
qed

lemma sum_or_panic_Inr_iff [simp]:
  "sum_or_panic e xs = Inr s \<longleftrightarrow> unat s = sum_list (map unat xs)"
  using checked_sum_Some [of 0 xs s] by (auto simp: sum_or_panic_def split: option.splits)

lemma rfold_ensure_iff:
  "rfold (\<lambda>x _. ensure (P x) (e x)) xs u = Inr v \<longleftrightarrow> (\<forall>x \<in> set xs. P x)"
  by (induction xs) auto

lemma check_inclusions_Inr_iff:
  "check_inclusions sha w = Inr () \<longleftrightarrow>
     (\<forall>((n, i), ss) \<in> set (zip (zip (inputs w) (leaf_indices w)) (merkle_paths w)).
        climb (hash_pair sha) (unat i) (hash_note sha n) ss = tw_merkle_root w)"
  unfolding check_inclusions_def split_def rfold_ensure_iff verify_merkle_inclusion_iff ..

lemma transfer_main_Inr_iff:
  "transfer_main sha w = Inr out \<longleftrightarrow>
     inputs w \<noteq> [] \<and> outputs w \<noteq> [] \<and> length (spending_keys w) = length (inputs w) \<and>
     length (leaf_indices w) = length (inputs w) \<and> length (merkle_paths w) = length (inputs w) \<and>
     (\<forall>n \<in> set (inputs w) \<union> set (outputs w). nd_asset n = out_asset out) \<and>
     (\<forall>n \<in> set (outputs w). 0 < nd_amount n) \<and>
     unat (out_transfer_amount out) = (\<Sum>n\<leftarrow>inputs w. unat (nd_amount n)) \<and>
     unat (out_transfer_amount out) = (\<Sum>n\<leftarrow>outputs w. unat (nd_amount n)) \<and>
     check_inclusions sha w = Inr () \<and>
     out_merkle_root out = tw_merkle_root w \<and>
     out_commitments out = map (hash_note sha) (outputs w) \<and>
     out_nullifiers out = map (\<lambda>(n, sk). hash_nullifier sha sk (hash_note sha n)) (zip (inputs w) (spending_keys w))"
  (is "?L \<longleftrightarrow> ?R")
proof
  assume ?L
  then show ?R
    by (auto simp: transfer_main_def transfer_checks_assets_def Let_def list_all_iff comp_def)
next
  assume R: ?R
  then have hd: "nd_asset (inputs w ! 0) = out_asset out" by (cases "inputs w") auto
  have "out = \<lparr>out_nullifiers = out_nullifiers out, out_commitments = out_commitments out,
      out_transfer_amount = out_transfer_amount out, out_asset = out_asset out,
      out_merkle_root = out_merkle_root out\<rparr>" by simp
  with R hd show ?L
    by (auto simp: transfer_main_def transfer_checks_assets_def Let_def list_all_iff comp_def
        intro!: exI [of _ "out_transfer_amount out"])
qed

section \<open>Domain separation of notes and tree nodes\<close>

definition nd_pre :: "note_data \<Rightarrow> bytes" where
  "nd_pre n = le8 (nd_amount n) @ b32 (nd_asset n) @ nd_owner n @ b32 (nd_salt n)"

lemma nd_pre_inject: "nd_pre n = nd_pre m \<Longrightarrow> n = (m :: note_data)"
proof -
  assume eq: "nd_pre n = nd_pre m"
  then have "length (nd_pre n) = length (nd_pre m)" by simp
  then have len: "length (nd_owner n) = length (nd_owner m)" by (simp add: nd_pre_def)
  from eq have "nd_amount n = nd_amount m" "nd_asset n = nd_asset m"
    and rest: "nd_owner n @ b32 (nd_salt n) = nd_owner m @ b32 (nd_salt m)"
    by (simp_all add: nd_pre_def)
  moreover from rest len have "nd_owner n = nd_owner m" "nd_salt n = nd_salt m"
    by (simp_all add: append_eq_append_conv)
  ultimately show ?thesis by simp
qed

lemma nd_pre_pair_pre: "nd_pre n \<noteq> pair_pre a b"
proof
  assume "nd_pre n = pair_pre a b"
  then have "length (nd_pre n) = length (pair_pre a b)" by simp
  then show False by (simp add: nd_pre_def pair_pre_def)
qed

interpretation note_tree: merkle_leaf sha pair_pre "hash_pair sha" nd_pre "hash_note sha" "\<lambda>_. True" for sha
  by unfold_locales (simp_all add: hash_note_def nd_pre_def [symmetric] nd_pre_inject nd_pre_pair_pre)

section \<open>Properties of the transfer circuit\<close>

text \<open>Property C8. An accepted transfer creates no value: inputs and outputs have the same sum, as
  natural numbers, which is the committed amount; all notes have the committed asset; there is one
  nullifier per input and one commitment per output, each of a non-zero amount.\<close>

theorem transfer_conserves_value:
  assumes "transfer_main sha w = Inr out"
  shows "(\<Sum>n\<leftarrow>inputs w. unat (nd_amount n)) = unat (out_transfer_amount out) \<and>
    (\<Sum>n\<leftarrow>outputs w. unat (nd_amount n)) = unat (out_transfer_amount out) \<and>
    list_all (\<lambda>n. nd_asset n = out_asset out) (inputs w @ outputs w) \<and>
    list_all (\<lambda>n. nd_amount n \<noteq> 0) (outputs w) \<and>
    length (out_nullifiers out) = length (inputs w) \<and>
    out_commitments out = map (hash_note sha) (outputs w)"
  using assms by (auto simp: transfer_main_Inr_iff list_all_iff)

text \<open>The preimages hashed by the circuit's inclusion paths and by the pool's tree over notes.\<close>

definition transfer_preimages :: "hash32 \<Rightarrow> note_data list \<Rightarrow> transfer_witness \<Rightarrow> bytes set" where
  "transfer_preimages sha ns w =
     nd_pre ` (set ns \<union> set (inputs w)) \<union>
     set (tree_pres pair_pre (hash_pair sha) (padded (map (hash_note sha) ns)) TREE_DEPTH 0) \<union>
     (\<Union>((n, i), ss) \<in> set (zip (zip (inputs w) (leaf_indices w)) (merkle_paths w)).
        set (path_pres pair_pre (hash_pair sha) (unat i) (hash_note sha n) ss))"

text \<open>Property C7. When every leaf of the pool is the commitment of a note, an accepted transfer
  spends notes of the pool only, whatever the lengths of the paths in its witness: unless the hash
  collides on the preimages in play, or maps one of them to the empty leaf.\<close>

theorem transfer_spends_pool_notes:
  assumes "transfer_main sha w = Inr out"
    and "out_merkle_root out = tree_root sha (map (hash_note sha) ns)"
    and "inj_on sha (transfer_preimages sha ns w)" "0 \<notin> sha ` transfer_preimages sha ns w"
  shows "set (inputs w) \<subseteq> set ns"
proof
  let ?S = "transfer_preimages sha ns w" and ?f = "padded (map (hash_note sha) ns)"
  fix n assume n: "n \<in> set (inputs w)"
  note acc = assms(1) [unfolded transfer_main_Inr_iff]
  obtain k where k: "k < length (inputs w)" "inputs w ! k = n" using n by (metis in_set_conv_nth)
  let ?i = "leaf_indices w ! k" and ?ss = "merkle_paths w ! k"
  have mem: "((n, ?i), ?ss) \<in> set (zip (zip (inputs w) (leaf_indices w)) (merkle_paths w))"
    using k acc by (force simp: set_zip)
  then have climb: "climb (hash_pair sha) (unat ?i) (hash_note sha n) ?ss = tree_node (hash_pair sha) ?f TREE_DEPTH 0"
    using acc assms(2) by (auto simp: check_inclusions_Inr_iff tree_root_def)
  have path: "set (path_pres pair_pre (hash_pair sha) (unat ?i) (hash_note sha n) ?ss) \<subseteq> ?S"
    using mem by (force simp: transfer_preimages_def)
  have tree: "set (tree_pres pair_pre (hash_pair sha) ?f TREE_DEPTH 0) \<subseteq> ?S"
    by (auto simp: transfer_preimages_def)
  have pre: "nd_pre m \<in> ?S" if "m \<in> set ns \<union> set (inputs w)" for m
    using that by (auto simp: transfer_preimages_def)
  have proper: "note_tree.proper_leaf sha ?S (?f m)" for m
    using assms(4) pre by (auto simp: note_tree.proper_leaf_def padded_def)
  have nS: "nd_pre n \<in> ?S" using pre n by blast
  from note_tree.climb_sound [OF climb assms(3) path tree nS proper]
  have leaf: "?f (unat ?i mod 2 ^ TREE_DEPTH) = hash_note sha n" by simp
  have "hash_note sha n \<in> sha ` ?S" using nS by (auto simp: hash_note_def nd_pre_def)
  with assms(4) have "hash_note sha n \<noteq> 0" by metis
  with leaf have "unat ?i mod 2 ^ TREE_DEPTH < length ns"
    and eq: "hash_note sha (ns ! (unat ?i mod 2 ^ TREE_DEPTH)) = hash_note sha n"
    by (auto simp: padded_def split: if_splits)
  then have "ns ! (unat ?i mod 2 ^ TREE_DEPTH) \<in> set ns" by simp
  moreover from this have "ns ! (unat ?i mod 2 ^ TREE_DEPTH) = n"
    by (intro note_tree.leaf_inj [OF eq assms(3)] pre nS) simp_all
  ultimately show "n \<in> set ns" by simp
qed

text \<open>The circuit does not check the length of a path: if a leaf of the pool is not a
  note commitment but the hash of a note commitment and some sibling (the bridge and transfer
  messages insert arbitrary 32-byte leaves), the never-inserted note is accepted as a member,
  by a path one longer than the tree is deep; the pool's own \<open>verify\<close> rejects that path.\<close>

lemma oversized_path_accepted:
  assumes "i < length xs" "length xs \<le> 2 ^ TREE_DEPTH" "xs ! i = hash_pair sha (hash_note sha n) s"
  shows "let path = s # sibling_path (hash_pair sha) (padded xs) TREE_DEPTH i
    in verify_merkle_inclusion sha (hash_note sha n) (of_nat (2 * i)) path (tree_root sha xs) \<and>
       \<not> verify sha \<lparr>leaf_index = of_nat (2 * i), siblings = path, proof_root = tree_root sha xs\<rparr> (hash_note sha n)"
proof -
  have "2 * i < 2 ^ 64" using assms(1,2) by (simp add: TREE_DEPTH_def)
  then have "unat (of_nat (2 * i) :: u64) = 2 * i" by (intro unat_of_nat_small) simp
  moreover have "climb (hash_pair sha) i (xs ! i) (sibling_path (hash_pair sha) (padded xs) TREE_DEPTH i) = tree_root sha xs"
    using climb_sibling_path [of "hash_pair sha" i "padded xs" TREE_DEPTH] assms(1,2)
    by (simp add: tree_root_def padded_def)
  ultimately show ?thesis
    using assms(3) by (simp add: Let_def verify_merkle_inclusion_iff verify_def)
qed

text \<open>The spending key is not tied to the note's owner: every accepted witness stays
  accepted with any other keys, with the same outputs and amount but different nullifiers. The
  nullifier of a note is therefore not unique.\<close>

lemma any_key_spends:
  assumes "transfer_main sha w = Inr out" "length keys = length (inputs w)"
    and "k < length (inputs w)" "keys ! k \<noteq> spending_keys w ! k"
    and "inj_on sha {b32 (keys ! k) @ b32 (hash_note sha (inputs w ! k)),
                     b32 (spending_keys w ! k) @ b32 (hash_note sha (inputs w ! k))}"
  shows "\<exists>out'. transfer_main sha (w\<lparr>spending_keys := keys\<rparr>) = Inr out' \<and>
    out_commitments out' = out_commitments out \<and> out_transfer_amount out' = out_transfer_amount out \<and>
    out_nullifiers out' ! k \<noteq> out_nullifiers out ! k"
proof -
  let ?out = "out\<lparr>out_nullifiers := map (\<lambda>(n, sk). hash_nullifier sha sk (hash_note sha n)) (zip (inputs w) keys)\<rparr>"
  note acc = assms(1) [unfolded transfer_main_Inr_iff]
  have "transfer_main sha (w\<lparr>spending_keys := keys\<rparr>) = Inr ?out"
    using acc assms(2) by (simp add: transfer_main_Inr_iff check_inclusions_Inr_iff)
  moreover have "hash_nullifier sha (keys ! k) (hash_note sha (inputs w ! k)) \<noteq>
      hash_nullifier sha (spending_keys w ! k) (hash_note sha (inputs w ! k))"
    using inj_on_pairD [OF assms(5)] assms(4) by (auto simp: hash_nullifier_def)
  then have "out_nullifiers ?out ! k \<noteq> out_nullifiers out ! k"
    using acc assms(2,3) by simp
  ultimately show ?thesis by (intro exI [of _ ?out]) simp
qed

text \<open>The circuit does not require its inputs to be distinct: listing the inputs of an
  accepted witness twice doubles the value it may create, with the same set of nullifiers.\<close>

lemma repeated_inputs_accepted:
  assumes "transfer_main sha w = Inr out" "2 * unat (out_transfer_amount out) < 2 ^ 64"
    and "outs \<noteq> []" "list_all (\<lambda>n. nd_asset n = out_asset out \<and> nd_amount n > 0) outs"
    and "(\<Sum>n\<leftarrow>outs. unat (nd_amount n)) = 2 * unat (out_transfer_amount out)"
  shows "\<exists>out'. transfer_main sha
      \<lparr>spending_keys = spending_keys w @ spending_keys w, inputs = inputs w @ inputs w, outputs = outs,
       tw_merkle_root = tw_merkle_root w, leaf_indices = leaf_indices w @ leaf_indices w,
       merkle_paths = merkle_paths w @ merkle_paths w\<rparr> = Inr out' \<and>
    set (out_nullifiers out') = set (out_nullifiers out) \<and>
    unat (out_transfer_amount out') = 2 * unat (out_transfer_amount out)"
proof -
  let ?a = "of_nat (2 * unat (out_transfer_amount out)) :: u64"
  let ?nfs = "map (\<lambda>(n, sk). hash_nullifier sha sk (hash_note sha n)) (zip (inputs w) (spending_keys w))"
  let ?out = "\<lparr>out_nullifiers = ?nfs @ ?nfs, out_commitments = map (hash_note sha) outs,
    out_transfer_amount = ?a, out_asset = out_asset out, out_merkle_root = tw_merkle_root w\<rparr>"
  note acc = assms(1) [unfolded transfer_main_Inr_iff]
  have a: "unat ?a = 2 * unat (out_transfer_amount out)"
    using assms(2) by (intro unat_of_nat_small) simp
  have "transfer_main sha
      \<lparr>spending_keys = spending_keys w @ spending_keys w, inputs = inputs w @ inputs w, outputs = outs,
       tw_merkle_root = tw_merkle_root w, leaf_indices = leaf_indices w @ leaf_indices w,
       merkle_paths = merkle_paths w @ merkle_paths w\<rparr> = Inr ?out"
    unfolding transfer_main_Inr_iff
    using acc assms(3-5) a by (auto simp: check_inclusions_Inr_iff list_all_iff)
  with acc a show ?thesis by auto
qed

section \<open>Properties of the other circuits\<close>

text \<open>The unshield circuit and the host agree: on a note with a 32-byte owner key it
  succeeds exactly when the host can form the commitment, and commits to the nullifier the host
  computes for that commitment, the note's amount and its asset. It reads no Merkle root.\<close>

lemma unshield_agrees_with_host:
  assumes "length (note_owner n) = 32"
  shows "unshield_main sha \<lparr>uw_spending_key = k, uw_note = note_to_data n\<rparr> =
    (case commitment_from_note sha n of
       Inl _ \<Rightarrow> Inl ZeroNoteAmount
     | Inr c \<Rightarrow> Inr \<lparr>uo_nullifier = nullifier_bytes (nullifier_compute sha k c),
                     uo_amount = note_amount n, uo_asset = asset_bytes (note_asset n)\<rparr>)"
  using assms
  by (simp add: unshield_main_def note_to_data_def commitment_from_note_def nullifier_compute_def
    note_preimage_def Let_def ensure_def word_gt_0)

text \<open>The compliance circuit succeeds exactly when the volume fits 64 bits, reports it
  exactly and compares it with the limit; the transaction count is reduced to 32 bits.\<close>

lemma compliance_circuit_exact:
  "case compliance_main w of
     Inl e \<Rightarrow> e = VolumeOverflow \<and> 2 ^ 64 \<le> (\<Sum>a\<leftarrow>cw_amounts w. unat a)
   | Inr out \<Rightarrow> unat (co_total_volume out) = (\<Sum>a\<leftarrow>cw_amounts w. unat a) \<and>
       within_limit out = ((\<Sum>a\<leftarrow>cw_amounts w. unat a) \<le> unat (regulatory_limit w)) \<and>
       unat (co_tx_count out) = length (cw_amounts w) mod 2 ^ 32"
proof (cases "sum_or_panic VolumeOverflow (cw_amounts w)")
  case (Inl e)
  have "2 ^ 64 \<le> (\<Sum>a\<leftarrow>cw_amounts w. unat a)"
  proof (rule ccontr)
    assume "\<not> 2 ^ 64 \<le> (\<Sum>a\<leftarrow>cw_amounts w. unat a)"
    then have "unat (of_nat (\<Sum>a\<leftarrow>cw_amounts w. unat a) :: u64) = (\<Sum>a\<leftarrow>cw_amounts w. unat a)"
      by (intro unat_of_nat_small) simp
    then have "sum_or_panic VolumeOverflow (cw_amounts w) = Inr (of_nat (\<Sum>a\<leftarrow>cw_amounts w. unat a))"
      unfolding sum_or_panic_Inr_iff .
    with Inl show False by simp
  qed
  with Inl show ?thesis
    by (auto simp: compliance_main_def sum_or_panic_def split: option.splits)
next
  case (Inr s)
  then have "unat s = (\<Sum>a\<leftarrow>cw_amounts w. unat a)" by simp
  moreover have "compliance_main w = Inr \<lparr>co_total_volume = s, co_regulatory_limit = regulatory_limit w,
      within_limit = (s \<le> regulatory_limit w), co_tx_count = of_nat (length (cw_amounts w))\<rparr>"
    using Inr by (simp only: compliance_main_def rbind.simps)
  ultimately show ?thesis
    by (simp add: word_le_nat_alt unat_of_nat)
qed

section \<open>Witnesses\<close>

text \<open>A pool with one note, under a hash whose nodes can be computed by hand: the first 32 bytes of
  the input plus its length.\<close>

definition shift_hash :: hash32 where
  "shift_hash bs = array32 (take 32 bs) + of_nat (length bs)"

definition demo_note :: note_data where
  "demo_note = \<lparr>nd_amount = 5, nd_asset = 0, nd_owner = replicate 32 1, nd_salt = 9\<rparr>"

definition demo_leaf :: bytes32 where
  "demo_leaf = 5 * 2 ^ 248 + 104"

definition demo_witness :: transfer_witness where
  "demo_witness = \<lparr>spending_keys = [3], inputs = [demo_note], outputs = [demo_note\<lparr>nd_salt := 8\<rparr>],
     tw_merkle_root = demo_leaf + 1280, leaf_indices = [0],
     merkle_paths = [map (\<lambda>l. 64 * of_nat l) [0..<20]]\<rparr>"

lemma shift_pair [simp]: "hash_pair shift_hash = (\<lambda>a b. a + 64)" "shift_hash (pair_pre a b) = a + 64"
  by (simp_all add: fun_eq_iff hash_pair_def pair_pre_def shift_hash_def)

lemma demo_commitment [simp]: "hash_note shift_hash demo_note = demo_leaf" "shift_hash (nd_pre demo_note) = demo_leaf"
proof -
  have "array32 (take 32 (nd_pre demo_note)) = 5 * 2 ^ 248"
    by (simp add: nd_pre_def demo_note_def) (code_simp)
  moreover have "length (nd_pre demo_note) = 104" by (simp add: nd_pre_def demo_note_def)
  ultimately show "shift_hash (nd_pre demo_note) = demo_leaf" by (simp add: shift_hash_def demo_leaf_def)
  then show "hash_note shift_hash demo_note = demo_leaf" by (simp add: hash_note_def nd_pre_def)
qed

lemma shift_climb: "climb (\<lambda>a b. a + 64) 0 x ss = x + 64 * of_nat (length ss)"
  by (induction ss arbitrary: x) (simp_all add: algebra_simps)

lemma shift_node: "tree_node (\<lambda>a b. a + (64 :: bytes32)) f l j = f (j * 2 ^ l) + 64 * of_nat l"
  by (induction l arbitrary: j) (simp_all add: algebra_simps)

lemma demo_accepted: "\<exists>out. transfer_main shift_hash demo_witness = Inr out \<and>
    out_transfer_amount out = 5 \<and> out_merkle_root out = demo_leaf + 1280 \<and> out_asset out = 0"
  by (intro exI [of _ "\<lparr>out_nullifiers = [hash_nullifier shift_hash 3 demo_leaf],
      out_commitments = [hash_note shift_hash (demo_note\<lparr>nd_salt := 8\<rparr>)],
      out_transfer_amount = 5, out_asset = 0, out_merkle_root = demo_leaf + 1280\<rparr>"])
    (simp add: transfer_main_Inr_iff check_inclusions_Inr_iff demo_witness_def shift_climb, simp add: demo_note_def)

definition demo_preimages :: "bytes list" where
  "demo_preimages = nd_pre demo_note # map (\<lambda>l. pair_pre (demo_leaf + 64 * of_nat l) (64 * of_nat l)) [0..<20] @
     map (\<lambda>l. pair_pre (64 * of_nat l) (64 * of_nat l)) [0..<20]"

lemma demo_path_pres:
  "set (path_pres pair_pre (hash_pair shift_hash) 0 (demo_leaf + 64 * of_nat m)
      (map (\<lambda>l. 64 * of_nat l) [m..<20])) \<subseteq> set demo_preimages"
proof (cases "m \<le> 20")
  case True
  then show ?thesis
  proof (induction m rule: inc_induct)
    case (step m)
    then show ?case
      by (subst upt_conv_Cons) (auto simp: demo_preimages_def algebra_simps)
  qed simp
qed simp

lemma demo_tree_pres:
  "l \<le> 20 \<Longrightarrow> set (tree_pres pair_pre (hash_pair shift_hash) (padded [demo_leaf]) l j) \<subseteq> set demo_preimages"
proof (induction l arbitrary: j)
  case (Suc l)
  then have "l \<in> {0..<20}" by simp
  then have "pair_pre (padded [demo_leaf] (2 * j * 2 ^ l) + 64 * of_nat l)
      (padded [demo_leaf] ((2 * j + 1) * 2 ^ l) + 64 * of_nat l) \<in> set demo_preimages"
    by (cases "j = 0") (auto simp: demo_preimages_def padded_def)
  with Suc show ?case by (simp add: shift_node)
qed simp


definition demo_hashes :: "int list" where
  "demo_hashes = (5 * 2 ^ 248 + 104) # map (\<lambda>l. 5 * 2 ^ 248 + 168 + 64 * int l) [0..<20] @
     map (\<lambda>l. 64 + 64 * int l) [0..<20]"

lemma demo_inj: "inj_on shift_hash (set demo_preimages)" "0 \<notin> shift_hash ` set demo_preimages"
proof -
  have hashes: "map shift_hash demo_preimages = map word_of_int demo_hashes"
    by (simp add: demo_preimages_def demo_hashes_def comp_def demo_leaf_def algebra_simps)
  have range: "0 < k \<and> k < 2 ^ 256" if "k \<in> set demo_hashes" for k
    using that by (auto simp: demo_hashes_def)
  have "distinct demo_hashes"
    by (auto simp: demo_hashes_def distinct_map inj_on_def)
  moreover have "inj_on (word_of_int :: int \<Rightarrow> bytes32) (set demo_hashes)"
  proof (rule inj_onI)
    fix x y assume "x \<in> set demo_hashes" "y \<in> set demo_hashes" "(word_of_int x :: bytes32) = word_of_int y"
    then show "x = y" using range [of x] range [of y]
      by (simp add: word_of_int_eq_iff take_bit_int_eq_self)
  qed
  ultimately have "distinct (map shift_hash demo_preimages)"
    unfolding hashes by (simp add: distinct_map)
  then show "inj_on shift_hash (set demo_preimages)" by (simp only: distinct_map)
  have "(word_of_int k :: bytes32) \<noteq> 0" if "k \<in> set demo_hashes" for k
  proof -
    have "uint (word_of_int k :: bytes32) = k"
      using range [OF that] by (simp add: uint_word_of_int)
    with range [OF that] show ?thesis by auto
  qed
  then have "0 \<notin> set (map shift_hash demo_preimages)"
    unfolding hashes by (auto dest: sym)
  then show "0 \<notin> shift_hash ` set demo_preimages" by (simp only: set_map not_False_eq_True)
qed

theorem transfer_conserves_value_witness:
  "\<exists>out. transfer_main shift_hash demo_witness = Inr out \<and>
     (\<Sum>n\<leftarrow>outputs demo_witness. unat (nd_amount n)) = unat (out_transfer_amount out)"
  using demo_accepted transfer_conserves_value [of shift_hash demo_witness] by blast

theorem transfer_spends_pool_notes_witness:
  "is_ok (transfer_main shift_hash demo_witness) \<and> set (inputs demo_witness) \<subseteq> set [demo_note]"
proof -
  obtain out where out: "transfer_main shift_hash demo_witness = Inr out"
    "out_merkle_root out = demo_leaf + 1280" using demo_accepted by blast
  have root: "out_merkle_root out = tree_root shift_hash (map (hash_note shift_hash) [demo_note])"
    by (simp add: out(2) tree_root_def shift_node padded_def TREE_DEPTH_def)
  have sub: "transfer_preimages shift_hash [demo_note] demo_witness \<subseteq> set demo_preimages"
    using demo_path_pres [of 0] demo_tree_pres [of 20 0]
    by (simp add: transfer_preimages_def demo_witness_def TREE_DEPTH_def)
      (simp add: demo_preimages_def)
  have "0 \<notin> shift_hash ` transfer_preimages shift_hash [demo_note] demo_witness"
    using demo_inj(2) sub by blast
  from transfer_spends_pool_notes [OF out(1) root inj_on_subset [OF demo_inj(1) sub] this] out(1)
  show ?thesis by simp
qed

lemma oversized_path_accepted_example:
  "let xs = [hash_pair shift_hash (hash_note shift_hash demo_note) 9];
       path = 9 # sibling_path (hash_pair shift_hash) (padded xs) TREE_DEPTH 0
   in verify_merkle_inclusion shift_hash (hash_note shift_hash demo_note) 0 path (tree_root shift_hash xs)"
  using oversized_path_accepted [of 0 "[hash_pair shift_hash (hash_note shift_hash demo_note) 9]"
      shift_hash demo_note 9]
  by (simp add: Let_def)

lemma any_key_spends_example:
  "\<exists>out out'. transfer_main shift_hash demo_witness = Inr out \<and>
     transfer_main shift_hash (demo_witness\<lparr>spending_keys := [7]\<rparr>) = Inr out' \<and>
     out_nullifiers out' ! 0 \<noteq> out_nullifiers out ! 0"
proof -
  obtain out where out: "transfer_main shift_hash demo_witness = Inr out" using demo_accepted by blast
  have "inj_on shift_hash {b32 7 @ b32 demo_leaf, b32 3 @ b32 demo_leaf}"
    by (simp add: inj_on_def shift_hash_def)
  then have "\<exists>out'. transfer_main shift_hash (demo_witness\<lparr>spending_keys := [7]\<rparr>) = Inr out' \<and>
      out_commitments out' = out_commitments out \<and> out_transfer_amount out' = out_transfer_amount out \<and>
      out_nullifiers out' ! 0 \<noteq> out_nullifiers out ! 0"
    by (intro any_key_spends [OF out]) (simp_all add: demo_witness_def)
  with out show ?thesis by blast
qed

lemma repeated_inputs_accepted_example:
  "\<exists>out'. transfer_main shift_hash (demo_witness
      \<lparr>spending_keys := [3, 3], inputs := [demo_note, demo_note], outputs := [demo_note\<lparr>nd_amount := 10\<rparr>],
       leaf_indices := [0, 0], merkle_paths := merkle_paths demo_witness @ merkle_paths demo_witness\<rparr>) = Inr out' \<and>
     unat (out_transfer_amount out') = 10"
proof -
  obtain out where out: "transfer_main shift_hash demo_witness = Inr out"
    "out_transfer_amount out = 5" "out_asset out = 0" using demo_accepted by blast
  from repeated_inputs_accepted [OF out(1), of "[demo_note\<lparr>nd_amount := 10\<rparr>]"] out(2,3)
  show ?thesis by (auto simp: demo_witness_def demo_note_def)
qed

lemma unshield_agrees_with_host_example:
  "unshield_main sample_hash \<lparr>uw_spending_key = 3,
     uw_note = note_to_data \<lparr>note_amount = 0, note_asset = AssetId 7, note_owner = replicate 32 1, note_salt = 9\<rparr>\<rparr> =
   Inl ZeroNoteAmount"
  using unshield_agrees_with_host
    [of "\<lparr>note_amount = 0, note_asset = AssetId 7, note_owner = replicate 32 1, note_salt = 9\<rparr>" sample_hash 3]
  by (simp add: commitment_from_note_def)

end
