(* ===== verification/Sanctions_Tree.thy ===== *)
theory Sanctions_Tree
  imports Merkle_Core Rust_Str
begin

text \<open>
  \<open>crates/sanctions-oracle/src/lib.rs\<close>: the sorted Merkle tree over the sanctioned addresses,
  its inclusion proofs and non-membership witnesses, and the extraction of addresses from the
  OFAC list. Panics of the code are \<open>None\<close> or the error \<open>OraclePanic\<close>; the lemmas show that \<open>build\<close>
  never panics, that its levels are those of the abstract tree over the padded sorted list, and
  what the witnesses it produces contain.
\<close>

section \<open>Hashes\<close>

definition hash_addr :: "hash32 \<Rightarrow> bytes32 \<Rightarrow> bytes32" where
  "hash_addr sha addr = sha (str_bytes ''addr'' @ b32 addr)"

definition leaf_pre :: "bytes32 \<Rightarrow> bytes" where
  "leaf_pre addr_hash = str_bytes ''leaf'' @ b32 addr_hash"

definition hash_leaf :: "hash32 \<Rightarrow> bytes32 \<Rightarrow> bytes32" where
  "hash_leaf sha addr_hash = sha (leaf_pre addr_hash)"

definition node_pre :: "bytes32 \<Rightarrow> bytes32 \<Rightarrow> bytes" where
  "node_pre left right = str_bytes ''node'' @ b32 left @ b32 right"

definition hash_node :: "hash32 \<Rightarrow> bytes32 \<Rightarrow> bytes32 \<Rightarrow> bytes32" where
  "hash_node sha left right = sha (node_pre left right)"

section \<open>The tree\<close>

record sanctions_tree =
  sorted_addr_hashes :: "bytes32 list"
  levels :: "bytes32 list list"
  depth :: nat

record inclusion_proof =
  proof_addr_hash :: bytes32
  proof_index :: u64
  proof_siblings :: "bytes32 list"

record non_membership_witness =
  w_sanctions_root :: bytes32
  w_left_leaf :: bytes32
  w_right_leaf :: bytes32
  w_left_proof :: "bytes32 list"
  w_right_proof :: "bytes32 list"
  w_left_index :: u64
  w_right_index :: u64
  w_tree_depth :: u32

text \<open>\<open>next_power_of_two\<close> and \<open>trailing_zeros\<close> of the standard library.\<close>

function next_power_from :: "nat \<Rightarrow> nat \<Rightarrow> nat" where
  "next_power_from n k = (if k = 0 \<or> n \<le> k then k else next_power_from n (2 * k))"
  by pat_completeness auto
termination by (relation "measure (\<lambda>(n, k). n - k)") auto

declare next_power_from.simps [simp del]

definition next_power_of_two :: "nat \<Rightarrow> nat" where
  "next_power_of_two n = next_power_from n 1"

fun trailing_zeros :: "nat \<Rightarrow> nat" where
  "trailing_zeros n = (if n = 0 then 64 else if even n then Suc (trailing_zeros (n div 2)) else 0)"

declare trailing_zeros.simps [simp del]

text \<open>\<open>chunks(2)\<close> mapped to nodes; \<open>pair[1]\<close> panics on a chunk of one.\<close>

fun pair_up :: "hash32 \<Rightarrow> bytes32 list \<Rightarrow> bytes32 list option" where
  "pair_up sha [] = Some []"
| "pair_up sha [x] = None"
| "pair_up sha (x # y # zs) = map_option (Cons (hash_node sha x y)) (pair_up sha zs)"

lemma length_pair_up: "pair_up sha xs = Some ys \<Longrightarrow> length xs = 2 * length ys"
  by (induction sha xs arbitrary: ys rule: pair_up.induct) auto

function build_levels :: "hash32 \<Rightarrow> bytes32 list \<Rightarrow> bytes32 list list option" where
  "build_levels sha current =
     (if length current > 1
      then case pair_up sha current of
             None \<Rightarrow> None
           | Some next' \<Rightarrow> map_option (Cons current) (build_levels sha next')
      else Some [current])"
  by pat_completeness auto
termination
  by (relation "measure (\<lambda>(sha, current). length current)") (simp_all, drule length_pair_up, auto)

declare build_levels.simps [simp del]

definition resize :: "nat \<Rightarrow> 'a \<Rightarrow> 'a list \<Rightarrow> 'a list" where
  "resize n x xs = (if n \<le> length xs then take n xs else xs @ replicate (n - length xs) x)"

definition padded_hashes :: "hash32 \<Rightarrow> bytes32 list \<Rightarrow> bytes32 list" where
  "padded_hashes sha addresses =
     (let addr_hashes = remdups_adj (sort (map (hash_addr sha) addresses @ [0, - 1]))
      in resize (next_power_of_two (length addr_hashes)) (- 1) addr_hashes)"

definition build :: "hash32 \<Rightarrow> bytes32 list \<Rightarrow> sanctions_tree option" where
  "build sha addresses =
     (let addr_hashes = padded_hashes sha addresses;
          depth = trailing_zeros (length addr_hashes)
      in case build_levels sha (map (hash_leaf sha) addr_hashes) of
           None \<Rightarrow> None
         | Some ls \<Rightarrow> Some \<lparr>sorted_addr_hashes = addr_hashes, levels = ls, depth = depth\<rparr>)"

definition root :: "sanctions_tree \<Rightarrow> bytes32" where
  "root t = last (levels t) ! 0"

fun collect_siblings :: "bytes32 list list \<Rightarrow> nat \<Rightarrow> bytes32 list option" where
  "collect_siblings [] idx = Some []"
| "collect_siblings (level # ls) idx =
     (let sibling_idx = (if idx mod 2 = 0 then idx + 1 else idx - 1)
      in if sibling_idx < length level
         then map_option (Cons (level ! sibling_idx)) (collect_siblings ls (idx div 2))
         else None)"

definition inclusion_proof :: "sanctions_tree \<Rightarrow> nat \<Rightarrow> inclusion_proof option" where
  "inclusion_proof t index =
     (case collect_siblings (butlast (levels t)) index of
        None \<Rightarrow> None
      | Some siblings \<Rightarrow>
          if index < length (sorted_addr_hashes t)
          then Some \<lparr>proof_addr_hash = sorted_addr_hashes t ! index, proof_index = of_nat index,
                     proof_siblings = siblings\<rparr>
          else None)"

datatype oracle_error = AddressSanctioned | AddressBelowAll | OraclePanic

text \<open>\<open>partition_point\<close> and \<open>binary_search\<close> on the sorted list of hashes.\<close>

definition partition_point :: "('a \<Rightarrow> bool) \<Rightarrow> 'a list \<Rightarrow> nat" where
  "partition_point P xs = length (takeWhile P xs)"

definition non_membership_witness ::
    "hash32 \<Rightarrow> sanctions_tree \<Rightarrow> bytes32 \<Rightarrow> u64 \<Rightarrow> oracle_error + non_membership_witness" where
  "non_membership_witness sha t address timestamp =
     (let addr_hash = hash_addr sha address;
          pos = partition_point (\<lambda>h. h < addr_hash) (sorted_addr_hashes t)
      in if pos < length (sorted_addr_hashes t) \<and> sorted_addr_hashes t ! pos = addr_hash
         then Inl AddressSanctioned
         else if pos = 0 then Inl AddressBelowAll
         else case (inclusion_proof t (pos - 1), inclusion_proof t pos) of
                (Some left_proof, Some right_proof) \<Rightarrow>
                  Inr \<lparr>w_sanctions_root = root t,
                       w_left_leaf = sorted_addr_hashes t ! (pos - 1),
                       w_right_leaf = sorted_addr_hashes t ! pos,
                       w_left_proof = proof_siblings left_proof,
                       w_right_proof = proof_siblings right_proof,
                       w_left_index = of_nat (pos - 1),
                       w_right_index = of_nat pos,
                       w_tree_depth = of_nat (depth t)\<rparr>
              | _ \<Rightarrow> Inl OraclePanic)"

definition is_sanctioned :: "hash32 \<Rightarrow> sanctions_tree \<Rightarrow> bytes32 \<Rightarrow> bool" where
  "is_sanctioned sha t address = (hash_addr sha address \<in> set (sorted_addr_hashes t))"

section \<open>Reading the OFAC list\<close>

definition version_detail :: "string \<Rightarrow> string option" where
  "version_detail window =
     (case find_str ''<VersionDetail'' window of
        None \<Rightarrow> None
      | Some start \<Rightarrow>
          let after_open = drop start window
          in case find_str ''>'' after_open of
               None \<Rightarrow> None
             | Some content_start \<Rightarrow>
                 let content = drop (content_start + 1) after_open
                 in case find_str ''</VersionDetail>'' content of
                      None \<Rightarrow> None
                    | Some e \<Rightarrow>
                        let addr = trim (take e content)
                        in if starts_with ''0x'' addr \<or> starts_with ''0X'' addr then Some addr else None)"

function extract_loop :: "string \<Rightarrow> string list \<Rightarrow> string list option" where
  "extract_loop search addresses =
     (case find_str ''FeatureTypeID=\"345\"'' search of
        None \<Rightarrow> Some addresses
      | Some pos \<Rightarrow>
          let rest = drop (pos + 19) search;
              n = min (length rest) 500
          in if \<not> is_char_boundary rest n then None
             else case version_detail (take n rest) of
                    None \<Rightarrow> extract_loop rest addresses
                  | Some addr \<Rightarrow> extract_loop rest (addresses @ [addr]))"
  by pat_completeness auto
termination
  by (relation "measure (\<lambda>(search, addresses). length search)") (auto dest: find_str_le)

declare extract_loop.simps [simp del]

definition extract_eth_addresses_from_xml :: "string \<Rightarrow> string list option" where
  "extract_eth_addresses_from_xml xml = extract_loop xml []"

text \<open>\<open>hex::decode_to_slice\<close> into an array of 20 bytes fails unless there are exactly 20.\<close>

definition pad_eth_address :: "bytes20 \<Rightarrow> bytes32" where
  "pad_eth_address a = array32 (replicate 12 0 @ b20 a)"

definition parse_eth_address :: "crates \<Rightarrow> string \<Rightarrow> bytes32 option" where
  "parse_eth_address cr raw =
     (let s = (case strip_prefix ''0x'' (trim raw) of Some t \<Rightarrow> t | None \<Rightarrow> trim raw)
      in if length s \<noteq> 40 then None
         else case hex_decode cr s of
                None \<Rightarrow> None
              | Some bs \<Rightarrow> if length bs \<noteq> 20 then None else Some (pad_eth_address (array20 bs)))"

definition parse_eth_addresses :: "crates \<Rightarrow> string list \<Rightarrow> bytes32 list" where
  "parse_eth_addresses cr raw = List.map_filter (parse_eth_address cr) raw"

section \<open>Domain separation\<close>

lemma leaf_pre_inject [simp]: "leaf_pre a = leaf_pre b \<longleftrightarrow> a = b"
  by (simp add: leaf_pre_def)

lemma node_pre_inject: "node_pre a b = node_pre c d \<Longrightarrow> a = c \<and> b = d"
  by (simp add: node_pre_def)

lemma leaf_pre_node_pre: "leaf_pre a \<noteq> node_pre b c"
proof
  assume "leaf_pre a = node_pre b c"
  then have "length (leaf_pre a) = length (node_pre b c)" by simp
  then show False by (simp add: leaf_pre_def node_pre_def)
qed

interpretation sanctions: merkle_leaf sha node_pre "hash_node sha" leaf_pre "hash_leaf sha" "\<lambda>_. True" for sha
  by unfold_locales (simp_all add: hash_node_def hash_leaf_def node_pre_inject leaf_pre_node_pre)

section \<open>\<open>build\<close> makes the abstract tree\<close>

abbreviation key_node :: "hash32 \<Rightarrow> bytes32 list \<Rightarrow> nat \<Rightarrow> nat \<Rightarrow> bytes32" where
  "key_node sha ks \<equiv> tree_node (hash_node sha) (\<lambda>n. hash_leaf sha (ks ! n))"

lemma next_power_from_pow:
  "\<exists>e. next_power_from n (2 ^ k) = 2 ^ e \<and> n \<le> 2 ^ e \<and> (e = k \<or> 2 ^ e < 2 * n)"
proof (induction "n - 2 ^ k" arbitrary: k rule: less_induct)
  case less
  show ?case
  proof (cases "n \<le> 2 ^ k")
    case False
    have "n - 2 ^ Suc k < n - 2 ^ k" using False by (intro diff_less_mono2) simp_all
    from less [OF this] obtain e where "next_power_from n (2 ^ Suc k) = 2 ^ e" "n \<le> 2 ^ e"
      "e = Suc k \<or> 2 ^ e < 2 * n" by blast
    with False show ?thesis by (subst next_power_from.simps) (auto intro!: exI [of _ e])
  qed (use next_power_from.simps [of n "2 ^ k"] in auto)
qed

lemma next_power_of_two_spec: "\<exists>e. next_power_of_two n = 2 ^ e \<and> n \<le> 2 ^ e \<and> (e = 0 \<or> 2 ^ e < 2 * n)"
  using next_power_from_pow [of n 0] by (simp add: next_power_of_two_def)

lemma trailing_zeros_pow [simp]: "trailing_zeros (2 ^ e) = e"
  by (induction e) (simp_all add: trailing_zeros.simps)

lemma pair_up_map:
  "pair_up sha (map f [2 * a..<2 * b]) = Some (map (\<lambda>j. hash_node sha (f (2 * j)) (f (2 * j + 1))) [a..<b])"
proof (induction "b - a" arbitrary: a)
  case (Suc n)
  then have "a < b" by simp
  then have "[2 * a..<2 * b] = 2 * a # (2 * a + 1) # [2 * Suc a..<2 * b]" "[a..<b] = a # [Suc a..<b]"
    by (simp_all add: upt_conv_Cons)
  with Suc.hyps(1) [of "Suc a"] Suc.hyps(2) show ?case by simp
qed simp

lemma build_levels_spec:
  "build_levels sha (map (tree_node (hash_node sha) f l) [0..<2 ^ e]) =
   Some (map (\<lambda>k. map (tree_node (hash_node sha) f (l + k)) [0..<2 ^ (e - k)]) [0..<Suc e])"
proof (induction e arbitrary: l)
  case 0
  then show ?case by (subst build_levels.simps) simp
next
  case (Suc e)
  have one: "1 < (2 :: nat) ^ Suc e" by (rule one_less_power) simp_all
  have "pair_up sha (map (tree_node (hash_node sha) f l) [0..<2 ^ Suc e]) =
      Some (map (tree_node (hash_node sha) f (Suc l)) [0..<2 ^ e])"
    using pair_up_map [of sha "tree_node (hash_node sha) f l" 0 "2 ^ e"] by simp
  then have "build_levels sha (map (tree_node (hash_node sha) f l) [0..<2 ^ Suc e]) =
      Some (map (tree_node (hash_node sha) f l) [0..<2 ^ Suc e] #
        map (\<lambda>k. map (tree_node (hash_node sha) f (Suc l + k)) [0..<2 ^ (e - k)]) [0..<Suc e])"
    using Suc [of "Suc l"] one by (subst build_levels.simps) (simp del: upt_Suc tree_node.simps)
  moreover have "[0..<Suc (Suc e)] = 0 # map Suc [0..<Suc e]"
    by (simp add: map_Suc_upt upt_conv_Cons del: upt_Suc)
  ultimately show ?case by (simp del: upt_Suc tree_node.simps)
qed

definition tree_of :: "hash32 \<Rightarrow> bytes32 list \<Rightarrow> nat \<Rightarrow> sanctions_tree \<Rightarrow> bool" where
  "tree_of sha ks d t \<longleftrightarrow>
     length ks = 2 ^ d \<and> sorted_addr_hashes t = ks \<and> depth t = d \<and>
     levels t = map (\<lambda>k. map (key_node sha ks k) [0..<2 ^ (d - k)]) [0..<Suc d]"

lemma padded_hashes_length:
  "\<exists>d. length (padded_hashes sha addresses) = 2 ^ d \<and> 2 ^ d < 2 * length addresses + 5"
proof -
  let ?hs = "remdups_adj (sort (map (hash_addr sha) addresses @ [0, - 1]))"
  have hs: "length ?hs \<le> length addresses + 2"
    using remdups_adj_length [of "sort (map (hash_addr sha) addresses @ [0, - 1])"] by simp
  obtain e where e: "next_power_of_two (length ?hs) = 2 ^ e" "length ?hs \<le> 2 ^ e"
    "e = 0 \<or> 2 ^ e < 2 * length ?hs"
    using next_power_of_two_spec [of "length ?hs"] by blast
  from e(3) hs have "2 ^ e < 2 * length addresses + 5" by auto
  moreover have "length (padded_hashes sha addresses) = 2 ^ e"
    using e(1,2) by (simp add: padded_hashes_def resize_def Let_def)
  ultimately show ?thesis by blast
qed

lemma build_spec: "\<exists>t d. build sha addresses = Some t \<and> tree_of sha (padded_hashes sha addresses) d t"
proof -
  let ?ks = "padded_hashes sha addresses"
  obtain d where d: "length ?ks = 2 ^ d" using padded_hashes_length by blast
  have "map (hash_leaf sha) ?ks = map (key_node sha ?ks 0) [0..<2 ^ d]"
    by (rule nth_equalityI) (simp_all add: d)
  with build_levels_spec [of sha "\<lambda>n. hash_leaf sha (?ks ! n)" 0 d]
  have "build_levels sha (map (hash_leaf sha) ?ks) =
      Some (map (\<lambda>k. map (key_node sha ?ks k) [0..<2 ^ (d - k)]) [0..<Suc d])" by simp
  with d show ?thesis by (simp add: build_def tree_of_def Let_def del: upt_Suc)
qed

lemma root_tree_of: "tree_of sha ks d t \<Longrightarrow> root t = key_node sha ks d 0"
  by (simp add: tree_of_def root_def)

lemma collect_siblings_spec:
  assumes "i < 2 ^ d" "l \<le> d"
  shows "collect_siblings (map (\<lambda>k. map (tree_node node f k) [0..<2 ^ (d - k)]) [l..<d]) (i div 2 ^ l) =
    Some (map (\<lambda>k. tree_node node f k (buddy (i div 2 ^ k))) [l..<d])"
  using assms(2)
proof (induction l rule: inc_induct)
  case base
  then show ?case by simp
next
  case (step l)
  let ?q = "i div 2 ^ l"
  have pow: "(2 :: nat) ^ (d - l) = 2 * 2 ^ (d - Suc l)"
    using step.hyps by (metis Suc_diff_Suc power_Suc)
  have "(2 :: nat) ^ d = 2 ^ (d - l) * 2 ^ l" using step.hyps by (simp flip: power_add)
  with assms(1) have q: "?q < 2 ^ (d - l)" by (simp add: less_mult_imp_div_less)
  have b: "(if ?q mod 2 = 0 then ?q + 1 else ?q - 1) = buddy ?q" by (auto simp: buddy_def)
  have "buddy ?q < 2 ^ (d - l)"
    using q pow by (cases "even ?q") (auto simp: buddy_def elim!: evenE)
  then show ?case
    using step.IH step.hyps unfolding upt_conv_Cons [OF step.hyps(2)]
    by (simp add: b div_pow_Suc Let_def del: power_Suc)
qed

lemma inclusion_proof_spec:
  assumes "tree_of sha ks d t" "i < 2 ^ d"
  shows "inclusion_proof t i =
    Some \<lparr>proof_addr_hash = ks ! i, proof_index = of_nat i,
          proof_siblings = sibling_path (hash_node sha) (\<lambda>n. hash_leaf sha (ks ! n)) d i\<rparr>"
proof -
  have "butlast (levels t) = map (\<lambda>k. map (key_node sha ks k) [0..<2 ^ (d - k)]) [0..<d]"
    using assms(1) by (simp add: tree_of_def butlast_append)
  with collect_siblings_spec [of i d 0 "hash_node sha" "\<lambda>n. hash_leaf sha (ks ! n)"] assms
  show ?thesis by (simp add: inclusion_proof_def tree_of_def sibling_path_def)
qed

section \<open>The keys of the tree\<close>

lemma zero_le_word32 [simp]: "(0 :: bytes32) \<le> x" by simp

lemma sorted_resize:
  "sorted xs \<Longrightarrow> (\<And>x. x \<in> set xs \<Longrightarrow> x \<le> m) \<Longrightarrow> length xs \<le> n \<Longrightarrow> sorted (resize n m xs)"
  by (auto simp: resize_def sorted_append)

lemma padded_hashes_props:
  shows sorted_padded: "sorted (padded_hashes sha addresses)"
    and set_padded: "set (padded_hashes sha addresses) = {0, - 1} \<union> hash_addr sha ` set addresses"
    and first_padded: "padded_hashes sha addresses ! 0 = 0"
    and last_padded: "last (padded_hashes sha addresses) = - 1"
proof -
  let ?hs = "remdups_adj (sort (map (hash_addr sha) addresses @ [0, - 1 :: bytes32]))"
  let ?n = "next_power_of_two (length ?hs)"
  have le: "length ?hs \<le> ?n" using next_power_of_two_spec [of "length ?hs"] by auto
  have sorted: "sorted ?hs" by (simp add: sorted_remdups_adj)
  have max: "x \<le> - 1" for x :: bytes32 by (rule word_n1_ge)
  have set: "set ?hs = {0, - 1} \<union> hash_addr sha ` set addresses" by auto
  have P: "padded_hashes sha addresses = ?hs @ replicate (?n - length ?hs) (- 1)"
    using le by (simp add: padded_hashes_def resize_def Let_def)
  show s: "sorted (padded_hashes sha addresses)"
    using sorted max by (auto simp: P sorted_append)
  show S: "set (padded_hashes sha addresses) = {0, - 1} \<union> hash_addr sha ` set addresses"
    unfolding P using set by auto
  have ne: "padded_hashes sha addresses \<noteq> []" using S by auto
  from S obtain k where "k < length (padded_hashes sha addresses)" "padded_hashes sha addresses ! k = 0"
    by (metis UnI1 insertI1 in_set_conv_nth)
  with sorted_nth_mono [OF s, of 0 k] show "padded_hashes sha addresses ! 0 = 0" by simp
  from S have "- 1 \<in> set (padded_hashes sha addresses)" by simp
  then obtain k where k: "k < length (padded_hashes sha addresses)" "padded_hashes sha addresses ! k = - 1"
    by (metis in_set_conv_nth)
  then have "- 1 \<le> padded_hashes sha addresses ! (length (padded_hashes sha addresses) - 1)"
    using sorted_nth_mono [OF s, of k "length (padded_hashes sha addresses) - 1"] by simp
  with max show "last (padded_hashes sha addresses) = - 1"
    using ne by (simp add: last_conv_nth order_antisym)
qed

text \<open>Between two neighbours of a sorted list there is nothing.\<close>

lemma between_neighbours:
  assumes "sorted ks" "Suc k < length ks" "ks ! k < (x :: 'a::linorder)" "x < ks ! Suc k"
  shows "x \<notin> set ks"
proof
  assume "x \<in> set ks"
  then obtain m where "m < length ks" "ks ! m = x" by (metis in_set_conv_nth)
  with assms sorted_nth_mono [OF assms(1), of m k] sorted_nth_mono [OF assms(1), of "Suc k" m]
  show False by (cases "m \<le> k") auto
qed

lemma partition_point_sorted:
  assumes "sorted ks" "x \<notin> set ks" "\<exists>k \<in> set ks. x < (k :: 'a::linorder)" "\<exists>k \<in> set ks. k < x"
  shows "let p = partition_point (\<lambda>h. h < x) ks in 0 < p \<and> p < length ks \<and> ks ! (p - 1) < x \<and> x < ks ! p"
proof -
  let ?p = "partition_point (\<lambda>h. h < x) ks"
  obtain k where k: "k \<in> set ks" "x < k" using assms(3) by blast
  obtain j where j: "j < length ks" "ks ! j < x" using assms(4) by (metis in_set_conv_nth)
  have "ks ! 0 < x" using sorted_nth_mono [OF assms(1), of 0 j] j by (simp add: le_less_trans)
  then have pos: "0 < ?p" using j by (cases ks) (auto simp: partition_point_def)
  have lt: "?p < length ks"
  proof (rule ccontr)
    assume "\<not> ?p < length ks"
    then have "takeWhile (\<lambda>h. h < x) ks = ks"
      using takeWhile_eq_take [of "\<lambda>h. h < x" ks] by (simp add: partition_point_def)
    then have "\<forall>h \<in> set ks. h < x" by (simp add: takeWhile_eq_all_conv)
    with k show False by (auto dest: less_asym)
  qed
  have "ks ! (?p - 1) < x"
  proof -
    have "takeWhile (\<lambda>h. h < x) ks ! (?p - 1) = ks ! (?p - 1)"
      using pos by (intro takeWhile_nth) (simp add: partition_point_def)
    moreover have "takeWhile (\<lambda>h. h < x) ks ! (?p - 1) \<in> set (takeWhile (\<lambda>h. h < x) ks)"
      using pos by (intro nth_mem) (simp add: partition_point_def)
    ultimately show ?thesis by (metis (mono_tags, lifting) set_takeWhileD)
  qed
  moreover have "\<not> ks ! ?p < x"
    using nth_length_takeWhile [of "\<lambda>h. h < x" ks] lt by (simp add: partition_point_def)
  moreover have "ks ! ?p \<noteq> x" using assms(2) lt by (metis nth_mem)
  ultimately have "ks ! (?p - 1) < x" "x < ks ! ?p" by (simp_all add: neq_iff)
  with pos lt show ?thesis by (simp add: Let_def)
qed

lemma partition_point_member:
  assumes "sorted ks" "(x :: 'a::linorder) \<in> set ks"
  shows "partition_point (\<lambda>h. h < x) ks < length ks \<and> ks ! partition_point (\<lambda>h. h < x) ks = x"
  using assms
proof (induction ks)
  case (Cons k ks)
  show ?case
  proof (cases "k < x")
    case True
    with Cons show ?thesis by (auto simp: partition_point_def)
  next
    case False
    with Cons.prems have "k = x" by auto
    then show ?thesis by (simp add: partition_point_def)
  qed
qed simp

end
