(* ===== verification/Guest_Sanctions.thy ===== *)
theory Guest_Sanctions
  imports Sanctions_Tree
begin

text \<open>
  \<open>crates/provers/sp1/guest-privacy/src/bin/sanctions.rs\<close>: the circuit that proves that a
  recipient is not on the sanctions list, with its witness and outputs from
  \<open>guest-privacy/src/types.rs\<close>. A failed assertion of the circuit is an error of the model. The
  properties connect the circuit with the oracle's tree: what it accepts is never a sanctioned
  address, and it accepts every witness the oracle makes.
\<close>

section \<open>Definitions\<close>

record sanctions_witness =
  recipient :: bytes32
  sanctions_root_w :: bytes32
  left_leaf :: bytes32
  right_leaf :: bytes32
  left_proof :: "bytes32 list"
  right_proof :: "bytes32 list"
  left_index :: u64
  right_index :: u64
  tree_depth :: u32
  witness_timestamp :: u64

record sanctions_public_outputs =
  out_recipient_commitment :: bytes32
  out_sanctions_root :: bytes32
  out_is_clean :: bool
  out_proof_timestamp :: u64

datatype sanctions_panic = NotAdjacent | NotAboveLeft | NotBelowRight | LeftProofInvalid | RightProofInvalid

definition guest_hash_addr :: "hash32 \<Rightarrow> bytes32 \<Rightarrow> bytes32" where
  "guest_hash_addr sha addr = sha (str_bytes ''addr'' @ b32 addr)"

definition guest_hash_leaf :: "hash32 \<Rightarrow> bytes32 \<Rightarrow> bytes32" where
  "guest_hash_leaf sha addr_hash = sha (str_bytes ''leaf'' @ b32 addr_hash)"

definition guest_hash_node :: "hash32 \<Rightarrow> bytes32 \<Rightarrow> bytes32 \<Rightarrow> bytes32" where
  "guest_hash_node sha left right = sha (str_bytes ''node'' @ b32 left @ b32 right)"

definition recipient_pre :: "bytes32 \<Rightarrow> bytes" where
  "recipient_pre addr = str_bytes ''recipient'' @ b32 addr"

definition recipient_commitment_of :: "hash32 \<Rightarrow> bytes32 \<Rightarrow> bytes32" where
  "recipient_commitment_of sha addr = sha (recipient_pre addr)"

fun merkle_proof_loop :: "hash32 \<Rightarrow> bytes32 \<Rightarrow> u64 \<Rightarrow> bytes32 list \<Rightarrow> bytes32" where
  "merkle_proof_loop sha current idx [] = current"
| "merkle_proof_loop sha current idx (sibling # rest) =
     merkle_proof_loop sha
       (if idx mod 2 = 0 then guest_hash_node sha current sibling else guest_hash_node sha sibling current)
       (drop_bit 1 idx) rest"

definition verify_merkle_proof :: "hash32 \<Rightarrow> bytes32 \<Rightarrow> u64 \<Rightarrow> bytes32 list \<Rightarrow> bytes32 \<Rightarrow> u32 \<Rightarrow> bool" where
  "verify_merkle_proof sha leaf_hash index proof' root' depth' =
     (if length proof' \<noteq> unat depth' then False
      else merkle_proof_loop sha leaf_hash index proof' = root')"

definition sanctions_main :: "hash32 \<Rightarrow> sanctions_witness \<Rightarrow> sanctions_panic + sanctions_public_outputs" where
  "sanctions_main sha w =
     rbind (ensure (left_index w + 1 = right_index w) NotAdjacent) (\<lambda>_.
       let addr_hash = guest_hash_addr sha (recipient w)
       in rbind (ensure (left_leaf w < addr_hash) NotAboveLeft) (\<lambda>_.
          rbind (ensure (addr_hash < right_leaf w) NotBelowRight) (\<lambda>_.
          rbind (ensure (verify_merkle_proof sha (guest_hash_leaf sha (left_leaf w)) (left_index w)
                           (left_proof w) (sanctions_root_w w) (tree_depth w)) LeftProofInvalid) (\<lambda>_.
          rbind (ensure (verify_merkle_proof sha (guest_hash_leaf sha (right_leaf w)) (right_index w)
                           (right_proof w) (sanctions_root_w w) (tree_depth w)) RightProofInvalid) (\<lambda>_.
          Inr \<lparr>out_recipient_commitment = recipient_commitment_of sha (recipient w),
               out_sanctions_root = sanctions_root_w w,
               out_is_clean = True,
               out_proof_timestamp = witness_timestamp w\<rparr>)))))"

text \<open>How a client completes the oracle's answer to a circuit witness.\<close>

definition complete_witness :: "non_membership_witness \<Rightarrow> bytes32 \<Rightarrow> u64 \<Rightarrow> sanctions_witness" where
  "complete_witness nw r ts =
     \<lparr>recipient = r, sanctions_root_w = w_sanctions_root nw, left_leaf = w_left_leaf nw,
      right_leaf = w_right_leaf nw, left_proof = w_left_proof nw, right_proof = w_right_proof nw,
      left_index = w_left_index nw, right_index = w_right_index nw, tree_depth = w_tree_depth nw,
      witness_timestamp = ts\<rparr>"

section \<open>The circuit's hashes are the oracle's\<close>

lemma guest_hashes [simp]:
  "guest_hash_addr = hash_addr" "guest_hash_leaf = hash_leaf" "guest_hash_node = hash_node"
  by (simp_all add: fun_eq_iff guest_hash_addr_def hash_addr_def guest_hash_leaf_def hash_leaf_def
    leaf_pre_def guest_hash_node_def hash_node_def node_pre_def)

lemma merkle_proof_loop_climb: "merkle_proof_loop sha x w ss = climb (hash_node sha) (unat w) x ss"
  by (induction ss arbitrary: x w) (simp_all add: word_mod_2_eq_0_iff)

lemma recipient_pre_inject [simp]: "recipient_pre a = recipient_pre b \<longleftrightarrow> a = b"
  by (simp add: recipient_pre_def)

section \<open>Soundness\<close>

text \<open>The preimages hashed by the circuit's two paths and by the oracle's tree.\<close>

definition sanctions_preimages :: "hash32 \<Rightarrow> bytes32 list \<Rightarrow> nat \<Rightarrow> sanctions_witness \<Rightarrow> bytes set" where
  "sanctions_preimages sha ks d w =
     {leaf_pre (left_leaf w), leaf_pre (right_leaf w)} \<union> leaf_pre ` set ks \<union>
     set (path_pres node_pre (hash_node sha) (unat (left_index w)) (hash_leaf sha (left_leaf w)) (left_proof w)) \<union>
     set (path_pres node_pre (hash_node sha) (unat (right_index w)) (hash_leaf sha (right_leaf w)) (right_proof w)) \<union>
     set (tree_pres node_pre (hash_node sha) (\<lambda>n. hash_leaf sha (ks ! n)) d 0)"

lemma sanctions_main_Inr_iff:
  "sanctions_main sha w = Inr out \<longleftrightarrow>
     right_index w = left_index w + 1 \<and>
     left_leaf w < hash_addr sha (recipient w) \<and> hash_addr sha (recipient w) < right_leaf w \<and>
     length (left_proof w) = unat (tree_depth w) \<and> length (right_proof w) = unat (tree_depth w) \<and>
     climb (hash_node sha) (unat (left_index w)) (hash_leaf sha (left_leaf w)) (left_proof w) = sanctions_root_w w \<and>
     climb (hash_node sha) (unat (right_index w)) (hash_leaf sha (right_leaf w)) (right_proof w) = sanctions_root_w w \<and>
     out = \<lparr>out_recipient_commitment = recipient_commitment_of sha (recipient w),
            out_sanctions_root = sanctions_root_w w, out_is_clean = True,
            out_proof_timestamp = witness_timestamp w\<rparr>"
  by (auto simp: sanctions_main_def Let_def verify_merkle_proof_def merkle_proof_loop_climb)

lemma path_key:
  assumes "tree_of sha ks d t" "climb (hash_node sha) i (hash_leaf sha k) ss = root t"
    and "inj_on sha S" "leaf_pre k \<in> S" "leaf_pre ` set ks \<subseteq> S"
    and "set (path_pres node_pre (hash_node sha) i (hash_leaf sha k) ss) \<subseteq> S"
    and "set (tree_pres node_pre (hash_node sha) (\<lambda>n. hash_leaf sha (ks ! n)) d 0) \<subseteq> S"
  shows "ks ! (i mod 2 ^ d) = k"
proof -
  have len: "length ks = 2 ^ d" using assms(1) by (simp add: tree_of_def)
  have keys: "leaf_pre (ks ! n) \<in> S" if "n < Suc 0 * 2 ^ d" for n
    using assms(5) that len by (auto intro!: subsetD [OF assms(5)])
  have "climb (hash_node sha) i (hash_leaf sha k) ss = tree_node (hash_node sha) (\<lambda>n. hash_leaf sha (ks ! n)) d 0"
    using assms(1,2) by (simp add: root_tree_of)
  moreover have "sanctions.proper_leaf sha S (hash_leaf sha (ks ! n))" if "n < Suc 0 * 2 ^ d" for n
    using keys [OF that] by (auto simp: sanctions.proper_leaf_def)
  ultimately have "hash_leaf sha (ks ! (i mod 2 ^ d)) = hash_leaf sha k"
    using sanctions.climb_sound [OF _ assms(3,6,7,4)] by simp
  then show ?thesis
    by (rule sanctions.leaf_inj [OF _ assms(3)]) (use keys [of "i mod 2 ^ d"] assms(4) in simp_all)
qed

lemma unat_add_one_mod:
  fixes w :: u64
  assumes "d \<le> 64"
  shows "unat (w + 1) mod 2 ^ d = Suc (unat w) mod 2 ^ d"
proof -
  have "unat (w + 1) = Suc (unat w) mod 2 ^ 64" by (simp add: unat_word_ariths)
  moreover have "(2 :: nat) ^ d dvd 2 ^ 64" using assms by (rule le_imp_power_dvd)
  ultimately show ?thesis by (simp only: mod_mod_cancel)
qed

lemma neighbours_exclude:
  assumes "sorted ks" "length ks = 2 ^ d" "ks ! 0 = 0" "ks ! (i mod 2 ^ d) < (x :: bytes32)" "x < ks ! (Suc i mod 2 ^ d)"
  shows "x \<notin> set ks"
proof (cases "Suc (i mod 2 ^ d) = 2 ^ d")
  case True
  then have "Suc i mod 2 ^ d = 0" by (simp add: mod_Suc)
  with assms(3,5) show ?thesis by simp
next
  case False
  then have "Suc i mod 2 ^ d = Suc (i mod 2 ^ d)" by (simp add: mod_Suc)
  moreover have "Suc (i mod 2 ^ d) < 2 ^ d"
    using False by (metis Suc_lessI mod_less_divisor zero_less_numeral zero_less_power)
  ultimately show ?thesis
    using between_neighbours [OF assms(1), of "i mod 2 ^ d" x] assms(2,4,5) False by simp
qed

lemma sanctions_excludes:
  assumes "build sha addresses = Some t" "length addresses < 2 ^ 32"
    and "sanctions_main sha w = Inr out" "out_sanctions_root out = root t"
    and "inj_on sha (sanctions_preimages sha (sorted_addr_hashes t) (depth t) w)"
  shows "hash_addr sha (recipient w) \<notin> set (sorted_addr_hashes t) \<and> recipient w \<notin> set addresses"
proof -
  let ?ks = "padded_hashes sha addresses" and ?x = "hash_addr sha (recipient w)"
  obtain d where t: "tree_of sha ?ks d t" using build_spec [of sha addresses] assms(1) by auto
  then have ks: "length ?ks = 2 ^ d" "sorted_addr_hashes t = ?ks" "depth t = d"
    by (simp_all add: tree_of_def)
  have "2 ^ d < 2 * length addresses + 5" using padded_hashes_length [of sha addresses] ks(1) by auto
  with assms(2) have "(2 :: nat) ^ d < 2 ^ 64" by simp
  then have d: "d \<le> 64" by (simp only: power_strict_increasing_iff)
  note acc = assms(3) [unfolded sanctions_main_Inr_iff]
  let ?S = "sanctions_preimages sha ?ks d w"
  have inj: "inj_on sha ?S" using assms(5) ks by simp
  have root: "sanctions_root_w w = root t" using acc assms(4) by auto
  have left: "?ks ! (unat (left_index w) mod 2 ^ d) = left_leaf w"
    by (rule path_key [OF t _ inj]) (use acc root in \<open>auto simp: sanctions_preimages_def\<close>)
  have "?ks ! (unat (right_index w) mod 2 ^ d) = right_leaf w"
    by (rule path_key [OF t _ inj]) (use acc root in \<open>auto simp: sanctions_preimages_def\<close>)
  then have right: "?ks ! (Suc (unat (left_index w)) mod 2 ^ d) = right_leaf w"
    using acc unat_add_one_mod [OF d, of "left_index w"] by simp
  have "?x \<notin> set ?ks"
    by (rule neighbours_exclude [OF sorted_padded ks(1) first_padded, of "unat (left_index w)"])
      (use left right acc in simp_all)
  with ks(2) show ?thesis by (auto simp: set_padded)
qed

text \<open>Property C9. The circuit is sound: an accepted witness against the root of the oracle's tree
  shows that no sanctioned address has the committed recipient. This needs the hash to be free of
  collisions only on the preimages of the two paths, of the tree and of the two recipients; it
  holds for every index and every tree depth the prover chooses.\<close>

theorem sanctions_circuit_sound:
  assumes "build sha addresses = Some t" "length addresses < 2 ^ 32"
    and "sanctions_main sha w = Inr out" "out_sanctions_root out = root t"
    and "out_recipient_commitment out = recipient_commitment_of sha r"
    and "inj_on sha (sanctions_preimages sha (sorted_addr_hashes t) (depth t) w)"
    and "inj_on sha {recipient_pre r, recipient_pre (recipient w)}"
  shows "r \<notin> set addresses \<and> \<not> is_sanctioned sha t r"
proof -
  have "recipient_pre r = recipient_pre (recipient w)"
    by (rule inj_on_pairD [OF assms(7)])
      (use assms(3,5) in \<open>auto simp: sanctions_main_Inr_iff recipient_commitment_of_def\<close>)
  with sanctions_excludes [OF assms(1-4,6)] show ?thesis by (simp add: is_sanctioned_def)
qed

section \<open>Completeness\<close>

lemma oracle_refuses:
  assumes "build sha addresses = Some t" "is_sanctioned sha t r"
  shows "non_membership_witness sha t r ts = Inl AddressSanctioned"
proof -
  let ?ks = "padded_hashes sha addresses" and ?x = "hash_addr sha r"
  obtain d where "tree_of sha ?ks d t" using build_spec [of sha addresses] assms(1) by auto
  then have ks: "sorted_addr_hashes t = ?ks" by (simp add: tree_of_def)
  with assms(2) have "?x \<in> set ?ks" by (simp add: is_sanctioned_def)
  then have "partition_point (\<lambda>h. h < ?x) ?ks < length ?ks \<and> ?ks ! partition_point (\<lambda>h. h < ?x) ?ks = ?x"
    by (rule partition_point_member [OF sorted_padded])
  with ks show ?thesis by (simp add: non_membership_witness_def Let_def)
qed

lemma oracle_witness_accepted:
  assumes "build sha addresses = Some t" "length addresses < 2 ^ 32" "\<not> is_sanctioned sha t r"
  shows "\<exists>nw. non_membership_witness sha t r ts = Inr nw \<and>
    sanctions_main sha (complete_witness nw r ts) =
      Inr \<lparr>out_recipient_commitment = recipient_commitment_of sha r,
           out_sanctions_root = root t, out_is_clean = True, out_proof_timestamp = ts\<rparr>"
proof -
  let ?ks = "padded_hashes sha addresses" and ?x = "hash_addr sha r"
  let ?p = "partition_point (\<lambda>h. h < ?x) ?ks"
  obtain d where t: "tree_of sha ?ks d t"
    using build_spec [of sha addresses] assms(1) by auto
  then have ks: "length ?ks = 2 ^ d" "sorted_addr_hashes t = ?ks" "depth t = d"
    by (simp_all add: tree_of_def)
  have "2 ^ d < 2 * length addresses + 5" using padded_hashes_length [of sha addresses] ks(1) by auto
  with assms(2) have small: "(2 :: nat) ^ d < 2 ^ 64" by simp
  then have "d < 64" by (simp only: power_strict_increasing_iff)
  have notin: "?x \<notin> set ?ks" using assms(3) by (simp add: is_sanctioned_def ks)
  then have "?x \<noteq> 0" "?x \<noteq> - 1" by (auto simp: set_padded)
  then have "0 < ?x" "?x < - 1"
    using word_n1_ge [of ?x] by (simp_all add: word_gt_0 order.not_eq_order_implies_strict)
  then have p: "0 < ?p" "?p < 2 ^ d" "?ks ! (?p - 1) < ?x" "?x < ?ks ! ?p"
    using partition_point_sorted [OF sorted_padded notin] ks(1) by (auto simp: Let_def set_padded)
  let ?path = "sibling_path (hash_node sha) (\<lambda>n. hash_leaf sha (?ks ! n)) d"
  let ?nw = "\<lparr>w_sanctions_root = root t, w_left_leaf = ?ks ! (?p - 1), w_right_leaf = ?ks ! ?p,
    w_left_proof = ?path (?p - 1), w_right_proof = ?path ?p, w_left_index = of_nat (?p - 1),
    w_right_index = of_nat ?p, w_tree_depth = of_nat d\<rparr>"
  have nw: "non_membership_witness sha t r ts = Inr ?nw"
    using p ks inclusion_proof_spec [OF t, of "?p - 1"] inclusion_proof_spec [OF t, of ?p]
    by (simp add: non_membership_witness_def Let_def)
  have climb: "climb (hash_node sha) i (hash_leaf sha (?ks ! i)) (?path i) = root t" if "i < 2 ^ d" for i
    using climb_sibling_path [of "hash_node sha" i "\<lambda>n. hash_leaf sha (?ks ! n)" d] that t
    by (simp add: root_tree_of)
  have unats: "unat (of_nat (?p - 1) :: u64) = ?p - 1" "unat (of_nat ?p :: u64) = ?p" "unat (of_nat d :: u32) = d"
    using p(2) small \<open>d < 64\<close> by (simp_all add: unat_of_nat_small)
  have "(of_nat ?p :: u64) = of_nat (?p - 1) + 1" using p(1) by (simp add: of_nat_diff)
  then have "sanctions_main sha (complete_witness ?nw r ts) =
      Inr \<lparr>out_recipient_commitment = recipient_commitment_of sha r,
           out_sanctions_root = root t, out_is_clean = True, out_proof_timestamp = ts\<rparr>"
    unfolding sanctions_main_Inr_iff using p climb [of "?p - 1"] climb [of ?p] unats
    by (simp add: complete_witness_def)
  with nw show ?thesis by blast
qed

section \<open>Witnesses\<close>

text \<open>A list with one address, under a hash that can be evaluated by hand: the first word after
  the tag plus the length.\<close>

definition tag_hash :: hash32 where
  "tag_hash bs = array32 (take 32 (drop 4 bs)) + of_nat (length bs)"

definition tag_witness :: sanctions_witness where
  "tag_witness = \<lparr>recipient = 1, sanctions_root_w = 172, left_leaf = 0, right_leaf = 41,
     left_proof = [77, 103], right_proof = [36, 103], left_index = 0, right_index = 1,
     tree_depth = 2, witness_timestamp = 9\<rparr>"

definition tag_tree :: sanctions_tree where
  "tag_tree = \<lparr>sorted_addr_hashes = [0, 41, - 1, - 1],
     levels = [[36, 77, 35, 35], [104, 103], [172]], depth = 2\<rparr>"

lemma tag_hash_simps [simp]:
  "hash_addr tag_hash a = a + 36" "hash_leaf tag_hash a = a + 36" "hash_node tag_hash a b = a + 68"
  "tag_hash (leaf_pre a) = a + 36" "tag_hash (node_pre a b) = a + 68"
  by (simp_all add: tag_hash_def hash_addr_def hash_leaf_def hash_node_def leaf_pre_def node_pre_def str_bytes_def)

lemma tag_build: "build tag_hash [5] = Some tag_tree"
  by (simp add: tag_tree_def build_def padded_hashes_def Let_def resize_def next_power_of_two_def
    next_power_from.simps trailing_zeros.simps build_levels.simps sort_key_def)

lemma tag_preimages:
  "sanctions_preimages tag_hash [0, 41, - 1, - 1] 2 tag_witness \<subseteq>
   {leaf_pre 0, leaf_pre 41, leaf_pre (- 1), node_pre 36 77, node_pre 35 35, node_pre 104 103}"
  by (simp add: sanctions_preimages_def tag_witness_def numeral_2_eq_2)

lemma tag_inj:
  "inj_on tag_hash {leaf_pre 0, leaf_pre 41, leaf_pre (- 1), node_pre 36 77, node_pre 35 35, node_pre 104 103}"
  by (simp add: inj_on_def)

theorem sanctions_circuit_sound_witness:
  "is_ok (sanctions_main tag_hash tag_witness) \<and> 1 \<notin> set [5 :: bytes32] \<and> \<not> is_sanctioned tag_hash tag_tree 1"
proof -
  let ?out = "\<lparr>out_recipient_commitment = recipient_commitment_of tag_hash 1,
    out_sanctions_root = 172, out_is_clean = True, out_proof_timestamp = 9\<rparr>"
  have acc: "sanctions_main tag_hash tag_witness = Inr ?out"
    by (simp add: sanctions_main_Inr_iff tag_witness_def)
  have inj: "inj_on tag_hash (sanctions_preimages tag_hash (sorted_addr_hashes tag_tree) (depth tag_tree) tag_witness)"
    using inj_on_subset [OF tag_inj tag_preimages] by (simp add: tag_tree_def)
  have "1 \<notin> set [5 :: bytes32] \<and> \<not> is_sanctioned tag_hash tag_tree 1"
    by (rule sanctions_circuit_sound [OF tag_build _ acc _ _ inj])
      (simp_all add: tag_tree_def root_def tag_witness_def)
  with acc show ?thesis by simp
qed

end
