(* ===== verification/Guest_Combined.thy ===== *)
theory Guest_Combined
  imports Guest_Privacy Guest_Sanctions Interfaces
begin

text \<open>
  The aggregation of a transfer proof and a sanctions proof:
  \<open>crates/provers/sp1/guest-combined\<close> (the circuit and its types) and
  \<open>crates/privacy/src/combined_prover.rs\<close> (the host prover and the verifier of the rollup). The
  recursive verification of the SDK, its serialization and its prover are arguments. The properties
  compose the two sub-circuits: what an accepted aggregate proves, and when the aggregator accepts.
\<close>

section \<open>The aggregator circuit\<close>

type_synonym vk_hash = "u32 list"

record combined_stdin =
  transfer_pv_bytes :: bytes
  transfer_vk_hash :: vk_hash
  sanctions_pv_bytes :: bytes
  sanctions_vk_hash :: vk_hash

record combined_public_outputs =
  cb_nullifiers :: "bytes32 list"
  cb_output_commitments :: "bytes32 list"
  cb_transfer_amount :: u64
  cb_asset_id :: bytes32
  cb_merkle_root :: bytes32
  cb_recipient_commitment :: bytes32
  cb_sanctions_root :: bytes32
  cb_proof_timestamp :: u64
  cb_transfer_vk_hash :: vk_hash
  cb_sanctions_vk_hash :: vk_hash

text \<open>What the circuit uses of the SDK: \<open>verify_sp1_proof\<close> on a key hash and a digest, and the
  deserialization of the two sub-circuits' outputs.\<close>

record recursion =
  verify_sp1_proof :: "vk_hash \<Rightarrow> bytes32 \<Rightarrow> bool"
  parse_transfer :: "bytes \<Rightarrow> transfer_public_outputs option"
  parse_sanctions :: "bytes \<Rightarrow> sanctions_public_outputs option"

datatype combined_panic =
    TransferProofRejected | SanctionsProofRejected | MalformedTransferOutputs | MalformedSanctionsOutputs
  | RecipientNotClean | ZeroTimestamp | ZeroTransferAmount | NoNullifiers | NoOutputCommitments

definition from_bincode :: "('a option) \<Rightarrow> 'e \<Rightarrow> 'e + 'a" where
  "from_bincode parsed e = (case parsed of None \<Rightarrow> Inl e | Some x \<Rightarrow> Inr x)"

definition validity_assertions ::
    "transfer_public_outputs \<Rightarrow> sanctions_public_outputs \<Rightarrow> combined_panic + unit" where
  "validity_assertions transfer_out sanctions_out =
     rbind (ensure (out_is_clean sanctions_out) RecipientNotClean) (\<lambda>_.
     rbind (ensure (out_proof_timestamp sanctions_out > 0) ZeroTimestamp) (\<lambda>_.
     rbind (ensure (out_transfer_amount transfer_out > 0) ZeroTransferAmount) (\<lambda>_.
     rbind (ensure (out_nullifiers transfer_out \<noteq> []) NoNullifiers) (\<lambda>_.
     ensure (out_commitments transfer_out \<noteq> []) NoOutputCommitments))))"

definition combined_outputs ::
    "transfer_public_outputs \<Rightarrow> sanctions_public_outputs \<Rightarrow> combined_stdin \<Rightarrow> combined_public_outputs" where
  "combined_outputs transfer_out sanctions_out i =
     \<lparr>cb_nullifiers = out_nullifiers transfer_out,
      cb_output_commitments = out_commitments transfer_out,
      cb_transfer_amount = out_transfer_amount transfer_out,
      cb_asset_id = out_asset transfer_out,
      cb_merkle_root = out_merkle_root transfer_out,
      cb_recipient_commitment = out_recipient_commitment sanctions_out,
      cb_sanctions_root = out_sanctions_root sanctions_out,
      cb_proof_timestamp = out_proof_timestamp sanctions_out,
      cb_transfer_vk_hash = transfer_vk_hash i,
      cb_sanctions_vk_hash = sanctions_vk_hash i\<rparr>"

definition combined_main ::
    "hash32 \<Rightarrow> recursion \<Rightarrow> combined_stdin \<Rightarrow> combined_panic + combined_public_outputs" where
  "combined_main sha sdk i =
     (let transfer_pv_hash = sha (transfer_pv_bytes i)
      in rbind (ensure (verify_sp1_proof sdk (transfer_vk_hash i) transfer_pv_hash) TransferProofRejected) (\<lambda>_.
         rbind (from_bincode (parse_transfer sdk (transfer_pv_bytes i)) MalformedTransferOutputs) (\<lambda>transfer_out.
           let sanctions_pv_hash = sha (sanctions_pv_bytes i)
           in rbind (ensure (verify_sp1_proof sdk (sanctions_vk_hash i) sanctions_pv_hash) SanctionsProofRejected) (\<lambda>_.
              rbind (from_bincode (parse_sanctions sdk (sanctions_pv_bytes i)) MalformedSanctionsOutputs) (\<lambda>sanctions_out.
              rbind (validity_assertions transfer_out sanctions_out) (\<lambda>_.
              Inr (combined_outputs transfer_out sanctions_out i)))))))"

section \<open>The host prover\<close>

text \<open>What the host uses of the prover SDK. A stdin is the list of the items written to it.\<close>

datatype ('vk, 'pr) stdin_item =
    WitnessItem bytes | VecItem bytes | HashItem vk_hash | ProofItem 'pr 'vk

record ('pk, 'vk, 'pr) prover_sdk =
  read_elf :: "string \<Rightarrow> bytes option"
  setup_keys :: "bytes \<Rightarrow> ('pk \<times> 'vk) option"
  run_compressed :: "'pk \<Rightarrow> ('vk, 'pr) stdin_item list \<Rightarrow> 'pr option"
  run_groth16 :: "'pk \<Rightarrow> ('vk, 'pr) stdin_item list \<Rightarrow> 'pr option"
  public_values :: "'pr \<Rightarrow> bytes"
  hash_u32 :: "'vk \<Rightarrow> vk_hash"
  transfer_witness_bytes :: "transfer_witness \<Rightarrow> bytes"
  sanctions_witness_bytes :: "sanctions_witness \<Rightarrow> bytes"
  proof_bytes :: "'pr \<Rightarrow> bytes option"

definition COMBINED_ELF_PATH :: string where
  "COMBINED_ELF_PATH = ''/../provers/sp1/guest-combined/elf/transfer-sanctions''"

definition TRANSFER_ELF_PATH :: string where
  "TRANSFER_ELF_PATH = ''/../provers/sp1/guest-privacy/target/elf-compilation/'' @
     ''riscv64im-succinct-zkvm-elf/release/transfer''"

definition SANCTIONS_ELF_PATH :: string where
  "SANCTIONS_ELF_PATH = ''/../provers/sp1/guest-privacy/target/elf-compilation/'' @
     ''riscv64im-succinct-zkvm-elf/release/sanctions''"

datatype combined_prover_error =
    TransferElfNotFound | SanctionsElfNotFound | CombinedElfNotFound
  | SetupTransfer | ProveTransfer | SetupSanctions | ProveSanctions | SetupCombined | ProveCombined
  | SerializeCombined

definition agg_stdin ::
    "('pk, 'vk, 'pr) prover_sdk \<Rightarrow> 'pr \<Rightarrow> 'vk \<Rightarrow> 'pr \<Rightarrow> 'vk \<Rightarrow> ('vk, 'pr) stdin_item list" where
  "agg_stdin sdk transfer_proof transfer_vk sanctions_proof sanctions_vk =
     [VecItem (public_values sdk transfer_proof),
      HashItem (hash_u32 sdk transfer_vk),
      ProofItem transfer_proof transfer_vk,
      VecItem (public_values sdk sanctions_proof),
      HashItem (hash_u32 sdk sanctions_vk),
      ProofItem sanctions_proof sanctions_vk]"

definition prove_transfer_with_sanctions ::
    "('pk, 'vk, 'pr) prover_sdk \<Rightarrow> transfer_witness \<Rightarrow> sanctions_witness \<Rightarrow> combined_prover_error + bytes" where
  "prove_transfer_with_sanctions sdk tw sw =
     rbind (from_bincode (read_elf sdk TRANSFER_ELF_PATH) TransferElfNotFound) (\<lambda>transfer_elf.
     rbind (from_bincode (read_elf sdk SANCTIONS_ELF_PATH) SanctionsElfNotFound) (\<lambda>sanctions_elf.
     rbind (from_bincode (read_elf sdk COMBINED_ELF_PATH) CombinedElfNotFound) (\<lambda>combined_elf.
     rbind (from_bincode (setup_keys sdk transfer_elf) SetupTransfer) (\<lambda>(transfer_pk, transfer_vk).
     rbind (from_bincode (run_compressed sdk transfer_pk [WitnessItem (transfer_witness_bytes sdk tw)])
              ProveTransfer) (\<lambda>transfer_proof.
     rbind (from_bincode (setup_keys sdk sanctions_elf) SetupSanctions) (\<lambda>(sanctions_pk, sanctions_vk).
     rbind (from_bincode (run_compressed sdk sanctions_pk [WitnessItem (sanctions_witness_bytes sdk sw)])
              ProveSanctions) (\<lambda>sanctions_proof.
     rbind (from_bincode (setup_keys sdk combined_elf) SetupCombined) (\<lambda>(agg_pk, agg_vk).
     rbind (from_bincode (run_groth16 sdk agg_pk
              (agg_stdin sdk transfer_proof transfer_vk sanctions_proof sanctions_vk)) ProveCombined) (\<lambda>combined_proof.
     from_bincode (proof_bytes sdk combined_proof) SerializeCombined)))))))))"

text \<open>The circuit's reads of its stdin, in order; the proof stream is consumed by the verification.\<close>

fun read_combined_stdin :: "('vk, 'pr) stdin_item list \<Rightarrow> combined_stdin option" where
  "read_combined_stdin [VecItem tpv, HashItem tvk, ProofItem tp tk, VecItem spv, HashItem svk, ProofItem sp sk] =
     Some \<lparr>transfer_pv_bytes = tpv, transfer_vk_hash = tvk, sanctions_pv_bytes = spv, sanctions_vk_hash = svk\<rparr>"
| "read_combined_stdin _ = None"

section \<open>Verification in the rollup\<close>

record 'pr combined_client =
  combined_elf :: "bytes option"
  setup_combined_vk :: "bytes \<Rightarrow> bytes option"
  decode_combined :: "bytes \<Rightarrow> 'pr option"
  verify_combined :: "'pr \<Rightarrow> bytes \<Rightarrow> bool"
  read_combined :: "'pr \<Rightarrow> combined_public_outputs option"

datatype 'pr combined_build = CombinedMock | CombinedSp1 "'pr combined_client"

datatype combined_error =
    EmptyCombinedProof | BadCombinedHeader | ElfMissing | SetupVkFailed | DecodeCombinedFailed
  | CombinedVerificationFailed | ReadOutputsPanic | TransferVkMismatch | SanctionsVkMismatch

definition check_vk :: "vk_hash option \<Rightarrow> vk_hash \<Rightarrow> combined_error \<Rightarrow> combined_error + unit" where
  "check_vk expected got e =
     (case expected of None \<Rightarrow> Inr () | Some x \<Rightarrow> if got \<noteq> x then Inl e else Inr ())"

definition verify_combined_sp1 ::
    "'pr combined_client \<Rightarrow> bytes \<Rightarrow> vk_hash option \<Rightarrow> vk_hash option \<Rightarrow> combined_error + unit" where
  "verify_combined_sp1 client pr expected_transfer_vk expected_sanctions_vk =
     rbind (from_bincode (combined_elf client) ElfMissing) (\<lambda>elf.
     rbind (from_bincode (setup_combined_vk client elf) SetupVkFailed) (\<lambda>vk.
     rbind (from_bincode (decode_combined client pr) DecodeCombinedFailed) (\<lambda>p.
     rbind (ensure (verify_combined client p vk) CombinedVerificationFailed) (\<lambda>_.
     rbind (from_bincode (read_combined client p) ReadOutputsPanic) (\<lambda>out.
     rbind (check_vk expected_transfer_vk (cb_transfer_vk_hash out) TransferVkMismatch) (\<lambda>_.
     check_vk expected_sanctions_vk (cb_sanctions_vk_hash out) SanctionsVkMismatch))))))"

definition verify_combined_proof ::
    "'pr combined_build \<Rightarrow> bytes \<Rightarrow> vk_hash option \<Rightarrow> vk_hash option \<Rightarrow> combined_error + unit" where
  "verify_combined_proof b pr expected_transfer_vk_hash expected_sanctions_vk_hash =
     (if pr = [] then Inl EmptyCombinedProof
      else case b of
        CombinedSp1 client \<Rightarrow> verify_combined_sp1 client pr expected_transfer_vk_hash expected_sanctions_vk_hash
      | CombinedMock \<Rightarrow>
          if length pr < 4 \<or> take 4 pr \<noteq> str_bytes ''OBSc'' then Inl BadCombinedHeader else Inr ())"

definition mock_combined_proof :: "u64 \<Rightarrow> u64 \<Rightarrow> bytes" where
  "mock_combined_proof amount sanctions_timestamp =
     str_bytes ''OBSc'' @ le8 amount @ le8 sanctions_timestamp"

section \<open>Lemmas\<close>

lemma from_bincode_Inr_iff [simp]: "from_bincode p e = Inr x \<longleftrightarrow> p = Some x"
  by (cases p) (simp_all add: from_bincode_def)

lemma validity_assertions_Inr_iff [simp]:
  "validity_assertions t s = Inr u \<longleftrightarrow> out_is_clean s \<and> 0 < out_proof_timestamp s \<and>
     0 < out_transfer_amount t \<and> out_nullifiers t \<noteq> [] \<and> out_commitments t \<noteq> []"
  by (auto simp: validity_assertions_def)

lemma combined_main_Inr_iff:
  "combined_main sha sdk i = Inr out \<longleftrightarrow>
     (\<exists>t s. verify_sp1_proof sdk (transfer_vk_hash i) (sha (transfer_pv_bytes i)) \<and>
        parse_transfer sdk (transfer_pv_bytes i) = Some t \<and>
        verify_sp1_proof sdk (sanctions_vk_hash i) (sha (sanctions_pv_bytes i)) \<and>
        parse_sanctions sdk (sanctions_pv_bytes i) = Some s \<and>
        validity_assertions t s = Inr () \<and> out = combined_outputs t s i)"
  by (auto simp: combined_main_def Let_def)

lemma check_vk_Inr_iff [simp]: "check_vk expected got e = Inr u \<longleftrightarrow> expected \<in> {None, Some got}"
  by (auto simp: check_vk_def split: option.splits)

lemma prefix_check_iff:
  "length ps = n \<Longrightarrow> (\<exists>rest. pr = ps @ rest) \<longleftrightarrow> \<not> (length pr < n \<or> take n pr \<noteq> ps)"
  by (metis append_eq_conv_conj append_take_drop_id length_append linorder_not_less le_add1)

text \<open>The mock build is a gate that looks at the proof alone.\<close>

interpretation combined_gate: proof_gate "\<lambda>pr (t, s). verify_combined_proof CombinedMock pr t s"
  by unfold_locales (auto simp: verify_combined_proof_def)

lemma accepted_transfer_outputs:
  assumes "transfer_main sha w = Inr out"
  shows "0 < out_transfer_amount out \<and> out_nullifiers out \<noteq> [] \<and> out_commitments out \<noteq> []"
proof -
  note acc = assms [unfolded transfer_main_Inr_iff]
  then obtain n ns where o: "outputs w = n # ns" by (cases "outputs w") auto
  with acc have "0 < unat (nd_amount n)" by (auto simp: unat_gt_0)
  with acc o have "0 < unat (out_transfer_amount out)" by simp
  then have "0 < out_transfer_amount out" by (simp add: word_less_nat_alt)
  with acc show ?thesis by (cases "inputs w"; cases "spending_keys w") auto
qed


lemma read_agg_stdin:
  "read_combined_stdin (agg_stdin sdk tp tvk sp svk) =
     Some \<lparr>transfer_pv_bytes = public_values sdk tp, transfer_vk_hash = hash_u32 sdk tvk,
           sanctions_pv_bytes = public_values sdk sp, sanctions_vk_hash = hash_u32 sdk svk\<rparr>"
  by (simp add: agg_stdin_def)

section \<open>Properties\<close>




text \<open>Property C26. The aggregator is complete for the stdin the host writes: given proofs the
  recursive verifier accepts of accepted runs of the two circuits, it fails in one case only, a
  zero timestamp in the sanctions witness, and commits to the outputs of both otherwise.\<close>

theorem combined_proof_complete:
  assumes "transfer_main sha tw = Inr tout" "parse_transfer sdk (public_values host tp) = Some tout"
    and "sanctions_main sha sw = Inr sout" "parse_sanctions sdk (public_values host sp) = Some sout"
    and "verify_sp1_proof sdk (hash_u32 host tvk) (sha (public_values host tp))"
    and "verify_sp1_proof sdk (hash_u32 host svk) (sha (public_values host sp))"
    and "read_combined_stdin (agg_stdin host tp tvk sp svk) = Some i"
  shows "combined_main sha sdk i =
    (if witness_timestamp sw = 0 then Inl ZeroTimestamp else Inr (combined_outputs tout sout i))"
proof -
  have i: "i = \<lparr>transfer_pv_bytes = public_values host tp, transfer_vk_hash = hash_u32 host tvk,
      sanctions_pv_bytes = public_values host sp, sanctions_vk_hash = hash_u32 host svk\<rparr>"
    using assms(7) by (simp add: read_agg_stdin)
  have s: "out_is_clean sout" "out_proof_timestamp sout = witness_timestamp sw"
    using assms(3) by (auto simp: sanctions_main_Inr_iff)
  show ?thesis
    using accepted_transfer_outputs [OF assms(1)] s assms(2,4,5,6)
    by (simp add: i combined_main_def Let_def from_bincode_def validity_assertions_def ensure_def word_gt_0)
qed

text \<open>The aggregate does not tie the screened recipient to the transfer: from two
  accepted aggregates, the transfer half of one with the sanctions half of the other is accepted as
  well. A transfer to a sanctioned party passes with the proof of any clean address.\<close>

lemma combined_halves_unlinked:
  assumes "combined_main sha sdk i = Inr out" "combined_main sha sdk j = Inr out'"
  shows "combined_main sha sdk
      (i\<lparr>sanctions_pv_bytes := sanctions_pv_bytes j, sanctions_vk_hash := sanctions_vk_hash j\<rparr>) =
    Inr (out\<lparr>cb_recipient_commitment := cb_recipient_commitment out', cb_sanctions_root := cb_sanctions_root out',
             cb_proof_timestamp := cb_proof_timestamp out', cb_sanctions_vk_hash := cb_sanctions_vk_hash out'\<rparr>)"
  using assms by (auto simp: combined_main_Inr_iff combined_outputs_def)

text \<open>What the rollup's verifier accepts, in both builds: the mock build any bytes after
  the prefix, whatever keys are registered; the real build a decodable proof that verifies under
  the key of the compiled circuit and whose committed sub-circuit keys are the expected ones, where
  an expectation is given.\<close>

lemma verify_combined_proof_iff:
  "verify_combined_proof b pr etvk esvk = Inr () \<longleftrightarrow> pr \<noteq> [] \<and>
     (case b of
        CombinedMock \<Rightarrow> (\<exists>rest. pr = str_bytes ''OBSc'' @ rest)
      | CombinedSp1 c \<Rightarrow> (\<exists>elf vk p out. combined_elf c = Some elf \<and> setup_combined_vk c elf = Some vk \<and>
          decode_combined c pr = Some p \<and> verify_combined c p vk \<and> read_combined c p = Some out \<and>
          etvk \<in> {None, Some (cb_transfer_vk_hash out)} \<and> esvk \<in> {None, Some (cb_sanctions_vk_hash out)}))"
proof (cases b)
  case CombinedMock
  have "(\<exists>rest. pr = str_bytes ''OBSc'' @ rest) \<longleftrightarrow> \<not> (length pr < 4 \<or> take 4 pr \<noteq> str_bytes ''OBSc'')"
    by (rule prefix_check_iff) simp
  with CombinedMock show ?thesis by (simp add: verify_combined_proof_def)
next
  case (CombinedSp1 c)
  then show ?thesis by (auto simp: verify_combined_proof_def verify_combined_sp1_def)
qed

section \<open>Witnesses\<close>

text \<open>A note spent against the root of a one-node path, and the sanctions proof of the oracle's
  demonstration tree, aggregated under a verifier that accepts both.\<close>

definition agg_transfer :: transfer_witness where
  "agg_transfer = \<lparr>spending_keys = [3], inputs = [demo_note], outputs = [demo_note],
     tw_merkle_root = hash_note tag_hash demo_note, leaf_indices = [0], merkle_paths = [[]]\<rparr>"

definition agg_transfer_out :: transfer_public_outputs where
  "agg_transfer_out = \<lparr>out_nullifiers = [hash_nullifier tag_hash 3 (hash_note tag_hash demo_note)],
     out_commitments = [hash_note tag_hash demo_note], out_transfer_amount = 5, out_asset = 0,
     out_merkle_root = hash_note tag_hash demo_note\<rparr>"

definition agg_sanctions_out :: sanctions_public_outputs where
  "agg_sanctions_out = \<lparr>out_recipient_commitment = recipient_commitment_of tag_hash 1,
     out_sanctions_root = 172, out_is_clean = True, out_proof_timestamp = 9\<rparr>"

definition agg_sdk :: recursion where
  "agg_sdk = \<lparr>verify_sp1_proof = (\<lambda>vk d. True),
     parse_transfer = (\<lambda>bs. if bs = [1] then Some agg_transfer_out else None),
     parse_sanctions = (\<lambda>bs. if bs = [2] then Some agg_sanctions_out else None)\<rparr>"

definition agg_input :: combined_stdin where
  "agg_input = \<lparr>transfer_pv_bytes = [1], transfer_vk_hash = [7], sanctions_pv_bytes = [2], sanctions_vk_hash = [8]\<rparr>"

definition agg_host :: "(unit, unit, byte) prover_sdk" where
  "agg_host = \<lparr>read_elf = (\<lambda>_. Some []), setup_keys = (\<lambda>_. Some ((), ())),
     run_compressed = (\<lambda>_ _. Some 1), run_groth16 = (\<lambda>_ _. Some 3), public_values = (\<lambda>p. [p]),
     hash_u32 = (\<lambda>_. [7]), transfer_witness_bytes = (\<lambda>_. []), sanctions_witness_bytes = (\<lambda>_. []),
     proof_bytes = (\<lambda>p. Some [p])\<rparr>"

lemma agg_transfer_accepted: "transfer_main tag_hash agg_transfer = Inr agg_transfer_out"
  by (simp add: transfer_main_Inr_iff check_inclusions_Inr_iff agg_transfer_def agg_transfer_out_def)
    (simp add: demo_note_def)

lemma agg_sanctions_accepted: "sanctions_main tag_hash tag_witness = Inr agg_sanctions_out"
  by (simp add: sanctions_main_Inr_iff tag_witness_def agg_sanctions_out_def)

lemma agg_accepted:
  "combined_main tag_hash agg_sdk agg_input = Inr (combined_outputs agg_transfer_out agg_sanctions_out agg_input)"
  by (simp add: combined_main_Inr_iff agg_sdk_def agg_input_def)
    (simp add: agg_transfer_out_def agg_sanctions_out_def)





theorem combined_proof_complete_witness:
  "combined_main tag_hash agg_sdk (agg_input\<lparr>sanctions_vk_hash := [7]\<rparr>) =
     Inr (combined_outputs agg_transfer_out agg_sanctions_out (agg_input\<lparr>sanctions_vk_hash := [7]\<rparr>))"
  using combined_proof_complete [OF agg_transfer_accepted _ agg_sanctions_accepted,
      of agg_sdk agg_host 1 2 "()" "()" "agg_input\<lparr>sanctions_vk_hash := [7]\<rparr>"]
  by (simp add: read_agg_stdin agg_host_def agg_sdk_def agg_input_def tag_witness_def)

lemma combined_halves_unlinked_example:
  "is_ok (combined_main tag_hash agg_sdk
     (agg_input\<lparr>sanctions_pv_bytes := sanctions_pv_bytes (agg_input\<lparr>transfer_vk_hash := [9]\<rparr>),
                sanctions_vk_hash := sanctions_vk_hash (agg_input\<lparr>transfer_vk_hash := [9]\<rparr>)\<rparr>))"
proof -
  have "combined_main tag_hash agg_sdk (agg_input\<lparr>transfer_vk_hash := [9]\<rparr>) =
      Inr (combined_outputs agg_transfer_out agg_sanctions_out (agg_input\<lparr>transfer_vk_hash := [9]\<rparr>))"
    by (simp add: combined_main_Inr_iff agg_sdk_def agg_input_def)
      (simp add: agg_transfer_out_def agg_sanctions_out_def)
  from combined_halves_unlinked [OF agg_accepted this] show ?thesis by simp
qed

end
