(* ===== verification/Sanctions_Server.thy ===== *)
theory Sanctions_Server
  imports Guest_Sanctions
begin

text \<open>
  The programs around the sanctions tree: \<open>crates/sanctions-oracle/src/server.rs\<close> (the HTTP
  oracle) and \<open>src/main.rs\<close> (its command line). A request handler maps the shared state to a
  response and a state; a panic of a handler is a response of its own and leaves the state alone.
  The source of the list, a file or the download, is an argument of each request, as is the clock.
  The refresh handler takes the lock three times, but what it reads under the first two (the secret
  and the path) never changes, so its effect is that of one step.
\<close>

section \<open>State and messages\<close>

record oracle_state =
  tree :: sanctions_tree
  updated_at :: u64
  address_count :: nat
  sdn_path :: "string option"
  refresh_secret :: "string option"

datatype oracle_request =
    GetHealth | GetRoot | GetWitness string | CheckAddress string | PostRefresh "string option"

datatype addr_error = WrongLength | InvalidHex

datatype oracle_response =
    HealthOk
  | RootResponse string u32 nat u64
  | WitnessResponse non_membership_witness
  | CheckResponse string bool
  | RefreshResponse string nat u64
  | BadRequest addr_error
  | Forbidden oracle_error
  | MissingSecret
  | InvalidSecret
  | InternalServerError
  | HandlerPanic

datatype load_error = SourceUnavailable | LoadPanic

section \<open>Loading the list\<close>

type_synonym sdn_source = "string option \<Rightarrow> string option"

definition load_addresses ::
    "crates \<Rightarrow> sdn_source \<Rightarrow> string option \<Rightarrow> load_error + bytes32 list \<times> string" where
  "load_addresses cr source path =
     (case source path of
        None \<Rightarrow> Inl SourceUnavailable
      | Some xml \<Rightarrow>
          (case extract_eth_addresses_from_xml xml of
             None \<Rightarrow> Inl LoadPanic
           | Some raw \<Rightarrow> Inr (parse_eth_addresses cr raw, xml)))"

definition build_tree :: "crates \<Rightarrow> bytes32 list \<Rightarrow> load_error + sanctions_tree" where
  "build_tree cr addresses =
     (case build (sha256 cr) addresses of None \<Rightarrow> Inl LoadPanic | Some t \<Rightarrow> Inr t)"

definition oracle_state_build ::
    "crates \<Rightarrow> sdn_source \<Rightarrow> u64 \<Rightarrow> string option \<Rightarrow> string option \<Rightarrow> load_error + oracle_state" where
  "oracle_state_build cr source now path secret =
     rbind (load_addresses cr source path) (\<lambda>(addresses, xml).
     rbind (build_tree cr addresses) (\<lambda>t.
     Inr \<lparr>tree = t, updated_at = now, address_count = length addresses,
          sdn_path = path, refresh_secret = secret\<rparr>))"

section \<open>Handlers\<close>

definition parse_addr :: "crates \<Rightarrow> string \<Rightarrow> addr_error + bytes32" where
  "parse_addr cr raw =
     (let s = (case strip_prefix ''0x'' (trim raw) of Some t \<Rightarrow> t | None \<Rightarrow> trim raw)
      in if length s \<noteq> 40 then Inl WrongLength
         else case hex_decode cr s of
                None \<Rightarrow> Inl InvalidHex
              | Some bs \<Rightarrow> if length bs \<noteq> 20 then Inl InvalidHex else Inr (pad_eth_address (array20 bs)))"

definition root_hex :: "crates \<Rightarrow> sanctions_tree \<Rightarrow> string" where
  "root_hex cr t = ''0x'' @ hex_encode cr (b32 (root t))"

definition get_root :: "crates \<Rightarrow> oracle_state \<Rightarrow> oracle_response" where
  "get_root cr s = RootResponse (root_hex cr (tree s)) (of_nat (depth (tree s))) (address_count s) (updated_at s)"

definition get_witness :: "crates \<Rightarrow> u64 \<Rightarrow> string \<Rightarrow> oracle_state \<Rightarrow> oracle_response" where
  "get_witness cr now addr s =
     (case parse_addr cr addr of
        Inl e \<Rightarrow> BadRequest e
      | Inr addr_bytes \<Rightarrow>
          (case non_membership_witness (sha256 cr) (tree s) addr_bytes now of
             Inr w \<Rightarrow> WitnessResponse w
           | Inl e \<Rightarrow> if e = OraclePanic then HandlerPanic else Forbidden e))"

definition check_address :: "crates \<Rightarrow> string \<Rightarrow> oracle_state \<Rightarrow> oracle_response" where
  "check_address cr addr s =
     (case parse_addr cr addr of
        Inl e \<Rightarrow> BadRequest e
      | Inr addr_bytes \<Rightarrow> CheckResponse addr (is_sanctioned (sha256 cr) (tree s) addr_bytes))"

definition check_secret :: "oracle_state \<Rightarrow> string option \<Rightarrow> oracle_response option" where
  "check_secret s secret =
     (case refresh_secret s of
        None \<Rightarrow> None
      | Some expected \<Rightarrow>
          (case secret of
             None \<Rightarrow> Some MissingSecret
           | Some provided \<Rightarrow> if provided \<noteq> expected then Some InvalidSecret else None))"

definition refresh ::
    "crates \<Rightarrow> sdn_source \<Rightarrow> u64 \<Rightarrow> string option \<Rightarrow> oracle_state \<Rightarrow> oracle_response \<times> oracle_state" where
  "refresh cr source now secret s =
     (case check_secret s secret of
        Some r \<Rightarrow> (r, s)
      | None \<Rightarrow>
          (case load_addresses cr source (sdn_path s) of
             Inl SourceUnavailable \<Rightarrow> (InternalServerError, s)
           | Inl LoadPanic \<Rightarrow> (HandlerPanic, s)
           | Inr (addresses, xml) \<Rightarrow>
               (case build_tree cr addresses of
                  Inl e \<Rightarrow> (HandlerPanic, s)
                | Inr t \<Rightarrow>
                    (RefreshResponse (root_hex cr t) (length addresses) now,
                     s\<lparr>tree := t, address_count := length addresses, updated_at := now\<rparr>))))"

fun serve_request ::
    "crates \<Rightarrow> sdn_source \<Rightarrow> u64 \<Rightarrow> oracle_request \<Rightarrow> oracle_state \<Rightarrow> oracle_response \<times> oracle_state" where
  "serve_request cr source now GetHealth s = (HealthOk, s)"
| "serve_request cr source now GetRoot s = (get_root cr s, s)"
| "serve_request cr source now (GetWitness addr) s = (get_witness cr now addr s, s)"
| "serve_request cr source now (CheckAddress addr) s = (check_address cr addr s, s)"
| "serve_request cr source now (PostRefresh secret) s = refresh cr source now secret s"

text \<open>The server's life: a list of requests, each with the list's source and the time it meets.\<close>

fun serve :: "crates \<Rightarrow> (sdn_source \<times> u64 \<times> oracle_request) list \<Rightarrow> oracle_state \<Rightarrow> oracle_state" where
  "serve cr [] s = s"
| "serve cr ((source, now, r) # rs) s = serve cr rs (snd (serve_request cr source now r s))"

section \<open>The command line\<close>

datatype cli_command = RootCmd | WitnessCmd string | CheckCmd string

datatype cli_outcome =
    PrintedRoot string nat nat
  | PrintedWitness non_membership_witness
  | CannotWitness oracle_error
  | PrintedSanctioned
  | PrintedClean
  | CliError
  | CliPanic

definition parse_single_address :: "crates \<Rightarrow> string \<Rightarrow> bytes32 option" where
  "parse_single_address cr raw =
     (let s = (case strip_prefix ''0x'' (trim raw) of Some t \<Rightarrow> t | None \<Rightarrow> trim raw)
      in if length s \<noteq> 40 then None
         else case hex_decode cr s of
                None \<Rightarrow> None
              | Some bs \<Rightarrow> if length bs \<noteq> 20 then None else Some (pad_eth_address (array20 bs)))"

definition cli_main :: "crates \<Rightarrow> sdn_source \<Rightarrow> u64 \<Rightarrow> string option \<Rightarrow> cli_command \<Rightarrow> cli_outcome" where
  "cli_main cr source now sdn_file command =
     (case load_addresses cr source sdn_file of
        Inl SourceUnavailable \<Rightarrow> CliError
      | Inl LoadPanic \<Rightarrow> CliPanic
      | Inr (addresses, xml) \<Rightarrow>
          (case build (sha256 cr) addresses of
             None \<Rightarrow> CliPanic
           | Some t \<Rightarrow>
               (case command of
                  RootCmd \<Rightarrow> PrintedRoot (root_hex cr t) (depth t) (length (sorted_addr_hashes t))
                | WitnessCmd address \<Rightarrow>
                    (case parse_single_address cr address of
                       None \<Rightarrow> CliError
                     | Some addr_bytes \<Rightarrow>
                         (case non_membership_witness (sha256 cr) t addr_bytes now of
                            Inr w \<Rightarrow> PrintedWitness w
                          | Inl e \<Rightarrow> if e = OraclePanic then CliPanic else CannotWitness e))
                | CheckCmd address \<Rightarrow>
                    (case parse_single_address cr address of
                       None \<Rightarrow> CliError
                     | Some addr_bytes \<Rightarrow>
                         if is_sanctioned (sha256 cr) t addr_bytes then PrintedSanctioned else PrintedClean))))"

section \<open>Lemmas\<close>

text \<open>The three address parsers agree.\<close>

lemma parsers_agree:
  "parse_single_address = parse_eth_address"
  "parse_addr cr raw = Inr a \<longleftrightarrow> parse_eth_address cr raw = Some a"
  by (simp_all add: fun_eq_iff parse_single_address_def parse_eth_address_def parse_addr_def Let_def
      split: option.splits)

lemma build_tree_Inr_iff [simp]: "build_tree cr addresses = Inr t \<longleftrightarrow> build (sha256 cr) addresses = Some t"
  by (simp add: build_tree_def split: option.splits)

lemma build_tree_never_panics: "build_tree cr addresses \<noteq> Inl e"
  using build_spec [of "sha256 cr" addresses] by (auto simp: build_tree_def)

text \<open>The invariant of the served state: its tree is the tree of a list of the recorded length.\<close>

definition oracle_inv :: "crates \<Rightarrow> oracle_state \<Rightarrow> bool" where
  "oracle_inv cr s \<longleftrightarrow>
     (\<exists>addresses. build (sha256 cr) addresses = Some (tree s) \<and> address_count s = length addresses)"

lemma oracle_inv_build: "oracle_state_build cr source now path secret = Inr s \<Longrightarrow> oracle_inv cr s"
  by (auto simp: oracle_state_build_def oracle_inv_def)

lemma refresh_cases:
  "refresh cr source now secret s = (r, s') \<Longrightarrow>
     s' = s \<or> (\<exists>addresses xml. check_secret s secret = None \<and>
       load_addresses cr source (sdn_path s) = Inr (addresses, xml) \<and>
       build (sha256 cr) addresses = Some (tree s') \<and>
       s' = s\<lparr>tree := tree s', address_count := length addresses, updated_at := now\<rparr>)"
  by (auto simp: refresh_def build_tree_def split: option.splits sum.splits load_error.splits prod.splits)

lemma serve_request_cases:
  "serve_request cr source now req s = (r, s') \<Longrightarrow>
     s' = s \<or> (\<exists>secret addresses xml. req = PostRefresh secret \<and> check_secret s secret = None \<and>
       load_addresses cr source (sdn_path s) = Inr (addresses, xml) \<and>
       build (sha256 cr) addresses = Some (tree s') \<and>
       s' = s\<lparr>tree := tree s', address_count := length addresses, updated_at := now\<rparr>)"
  by (cases req) (auto dest!: refresh_cases)

lemma oracle_inv_serve: "oracle_inv cr s \<Longrightarrow> oracle_inv cr (serve cr rs s)"
proof (induction rs arbitrary: s)
  case (Cons x rs)
  obtain source now req where x: "x = (source, now, req)" by (cases x)
  obtain r s' where r: "serve_request cr source now req s = (r, s')" by fastforce
  from serve_request_cases [OF r] Cons.prems have "oracle_inv cr s'"
  proof (elim disjE exE conjE)
    fix addresses
    assume "build (sha256 cr) addresses = Some (tree s')"
      "s' = s\<lparr>tree := tree s', address_count := length addresses, updated_at := now\<rparr>"
    then have "address_count s' = length addresses" by (metis select_convs(3) surjective update_convs(1-3))
    with \<open>build (sha256 cr) addresses = Some (tree s')\<close> show ?thesis
      unfolding oracle_inv_def by blast
  qed simp
  with Cons.IH [of s'] x r show ?case by simp
qed simp

section \<open>Properties\<close>

text \<open>Property C24. At any time of the server's life the answers of /root, /check and /witness agree. An
  address that cannot be parsed is refused by /check and /witness with the same error. For every
  other one /check reports a sanctioned address exactly when /witness refuses, and a witness that is
  handed out is accepted by the sanctions circuit against the root that /root publishes, with the
  address's commitment. In particular these three handlers do not panic, as long as the list has less
  than 2 ^ 32 addresses; /refresh is not among them, it panics when the list it loads makes the
  parser panic.\<close>

theorem oracle_answers_agree:
  assumes "oracle_state_build cr source now path secret = Inr s0" "s = serve cr rs s0" "address_count s < 2 ^ 32"
  shows "case parse_addr cr addr of
      Inl e \<Rightarrow> check_address cr addr s = BadRequest e \<and> get_witness cr ts addr s = BadRequest e
    | Inr a \<Rightarrow> check_address cr addr s = CheckResponse addr (get_witness cr ts addr s = Forbidden AddressSanctioned) \<and>
        (get_witness cr ts addr s = Forbidden AddressSanctioned \<or>
         (\<exists>nw out. get_witness cr ts addr s = WitnessResponse nw \<and>
            sanctions_main (sha256 cr) (complete_witness nw a ts) = Inr out \<and>
            get_root cr s = RootResponse (''0x'' @ hex_encode cr (b32 (out_sanctions_root out)))
              (w_tree_depth nw) (address_count s) (updated_at s) \<and>
            out_recipient_commitment out = recipient_commitment_of (sha256 cr) a))"
proof (cases "parse_addr cr addr")
  case (Inl e)
  then show ?thesis by (simp add: check_address_def get_witness_def)
next
  case parsed: (Inr a)
  let ?t = "tree s"
  from oracle_inv_serve [OF oracle_inv_build [OF assms(1)]] assms(2)
  obtain addresses where t: "build (sha256 cr) addresses = Some ?t" "address_count s = length addresses"
    by (auto simp: oracle_inv_def)
  show ?thesis
  proof (cases "is_sanctioned (sha256 cr) ?t a")
    case True
    with oracle_refuses [OF t(1) True, of ts] show ?thesis
      by (simp add: check_address_def get_witness_def parsed)
  next
    case False
    with oracle_witness_accepted [OF t(1) _ False, of ts] assms(3) t(2)
    obtain nw where nw: "non_membership_witness (sha256 cr) ?t a ts = Inr nw"
      "sanctions_main (sha256 cr) (complete_witness nw a ts) =
         Inr \<lparr>out_recipient_commitment = recipient_commitment_of (sha256 cr) a,
              out_sanctions_root = root ?t, out_is_clean = True, out_proof_timestamp = ts\<rparr>" by auto
    from nw(1) have "w_tree_depth nw = of_nat (depth ?t)"
      by (auto simp: non_membership_witness_def Let_def split: if_splits option.splits)
    with nw False show ?thesis
      by (simp add: check_address_def get_witness_def get_root_def root_hex_def parsed)
  qed
qed

text \<open>Property C12. Only an authorised refresh changes the server: a request that changes the state is
  a refresh, with the configured secret if one is configured (without one anybody may refresh); it
  replaces the tree by the tree of the list just loaded, records its length and the time, and leaves
  the path and the secret alone.\<close>

theorem oracle_changes_authorised:
  assumes "serve_request cr source now req s = (r, s')" "s' \<noteq> s"
  shows "\<exists>secret addresses xml. req = PostRefresh secret \<and>
    (refresh_secret s = None \<or> secret = refresh_secret s) \<and>
    load_addresses cr source (sdn_path s) = Inr (addresses, xml) \<and>
    build (sha256 cr) addresses = Some (tree s') \<and> address_count s' = length addresses \<and>
    updated_at s' = now \<and> sdn_path s' = sdn_path s \<and> refresh_secret s' = refresh_secret s"
proof -
  from serve_request_cases [OF assms(1)] assms(2) obtain secret addresses xml where
    *: "req = PostRefresh secret" "check_secret s secret = None"
      "load_addresses cr source (sdn_path s) = Inr (addresses, xml)" "build (sha256 cr) addresses = Some (tree s')"
      "s' = s\<lparr>tree := tree s', address_count := length addresses, updated_at := now\<rparr>" by blast
  from *(2) have "refresh_secret s = None \<or> secret = refresh_secret s"
    by (auto simp: check_secret_def split: option.splits if_splits)
  moreover from *(5) have "address_count s' = length addresses" "updated_at s' = now"
    "sdn_path s' = sdn_path s" "refresh_secret s' = refresh_secret s"
    by (metis select_convs surjective update_convs)+
  ultimately show ?thesis using * by blast
qed

section \<open>Witnesses\<close>

text \<open>A list with one address, under the hash of the circuit's demonstration.\<close>

definition tag_crates :: crates where
  "tag_crates = sample_crates\<lparr>sha256 := tag_hash\<rparr>"

definition demo_xml :: string where
  "demo_xml = ''<f FeatureTypeID=\"345\"><VersionDetail>0x0000000000000000000000000000000000000005</VersionDetail>''"

definition demo_source :: sdn_source where
  "demo_source path = Some demo_xml"

definition demo_oracle :: oracle_state where
  "demo_oracle = \<lparr>tree = tag_tree, updated_at = 3, address_count = 1, sdn_path = None, refresh_secret = Some ''key''\<rparr>"

lemma demo_trim:
  "trim ''0x0000000000000000000000000000000000000005'' = ''0x0000000000000000000000000000000000000005''"
  "trim ''0x0000000000000000000000000000000000000001'' = ''0x0000000000000000000000000000000000000001''"
  by (rule trim_id, simp add: white_space_eval)+

lemma demo_extract:
  "extract_eth_addresses_from_xml demo_xml = Some [''0x0000000000000000000000000000000000000005'']"
proof -
  have "find_str ''FeatureTypeID=\"345\"'' demo_xml = Some 3" by (simp add: demo_xml_def)
  moreover have "version_detail (drop 22 demo_xml) = Some ''0x0000000000000000000000000000000000000005''"
    by (simp add: version_detail_def demo_xml_def Let_def demo_trim)
  moreover have "extract_loop (drop 22 demo_xml) xs = Some xs" for xs
    by (subst extract_loop.simps) (simp add: demo_xml_def)
  moreover have "length (drop 22 demo_xml) = 74" by (simp add: demo_xml_def)
  ultimately show ?thesis
    unfolding extract_eth_addresses_from_xml_def
    by (subst extract_loop.simps) (simp add: Let_def is_char_boundary_def)
qed

lemma demo_decode:
  "sample_decode ''0000000000000000000000000000000000000005'' = Some [0, 0, 0, 0, 0, 0, 0, 0, 0, 0, 0, 0, 0, 0, 0, 0, 0, 0, 0, 5]"
  "sample_decode ''0000000000000000000000000000000000000001'' = Some [0, 0, 0, 0, 0, 0, 0, 0, 0, 0, 0, 0, 0, 0, 0, 0, 0, 0, 0, 1]"
  by (simp_all only: sample_decode.simps hex_digit_value_eval option.case prod.case) simp_all

lemma demo_arrays:
  "pad_eth_address (array20 [0, 0, 0, 0, 0, 0, 0, 0, 0, 0, 0, 0, 0, 0, 0, 0, 0, 0, 0, 5]) = 5"
  "pad_eth_address (array20 [0, 0, 0, 0, 0, 0, 0, 0, 0, 0, 0, 0, 0, 0, 0, 0, 0, 0, 0, 1]) = 1"
  by code_simp+

lemma demo_parse_eth:
  "parse_eth_address tag_crates ''0x0000000000000000000000000000000000000005'' = Some 5"
  "parse_eth_address tag_crates ''0x0000000000000000000000000000000000000001'' = Some 1"
  by (simp_all add: parse_eth_address_def demo_trim strip_prefix_def tag_crates_def
      sample_crates_def demo_decode demo_arrays)

lemma demo_load: "load_addresses tag_crates demo_source None = Inr ([5], demo_xml)"
  by (simp add: load_addresses_def demo_source_def demo_extract parse_eth_addresses_def map_filter_simps
      demo_parse_eth)

lemma tag_crates_hash [simp]: "sha256 tag_crates = tag_hash"
  by (simp add: tag_crates_def)

lemma demo_oracle_build: "oracle_state_build tag_crates demo_source 3 None (Some ''key'') = Inr demo_oracle"
  by (simp add: oracle_state_build_def demo_load tag_build demo_oracle_def)

lemma demo_addr: "parse_addr tag_crates ''0x0000000000000000000000000000000000000001'' = Inr 1"
  by (simp add: parsers_agree demo_parse_eth)

theorem oracle_answers_agree_witness:
  "check_address tag_crates ''0x0000000000000000000000000000000000000001'' demo_oracle =
     CheckResponse ''0x0000000000000000000000000000000000000001''
       (get_witness tag_crates 9 ''0x0000000000000000000000000000000000000001'' demo_oracle =
          Forbidden AddressSanctioned)"
  using oracle_answers_agree [OF demo_oracle_build, of demo_oracle "[]" "''0x0000000000000000000000000000000000000001''" 9]
  by (simp add: demo_oracle_def demo_addr)

theorem oracle_changes_authorised_witness:
  "snd (serve_request tag_crates demo_source 8 (PostRefresh (Some ''key'')) demo_oracle) \<noteq> demo_oracle \<and>
   updated_at (snd (serve_request tag_crates demo_source 8 (PostRefresh (Some ''key'')) demo_oracle)) = 8"
proof -
  let ?s = "demo_oracle\<lparr>updated_at := 8\<rparr>"
  have step: "serve_request tag_crates demo_source 8 (PostRefresh (Some ''key'')) demo_oracle =
      (RefreshResponse (root_hex tag_crates tag_tree) 1 8, ?s)"
    by (simp add: refresh_def check_secret_def demo_oracle_def demo_load build_tree_def tag_build)
  have ne: "?s \<noteq> demo_oracle" by (simp add: demo_oracle_def)
  from oracle_changes_authorised [OF step ne] step ne show ?thesis by auto
qed

end
