(* ===== verification/Node_Discovery.thy ===== *)
theory Node_Discovery
  imports Rust_Str Requests
begin

text \<open>
  The node discovery service (\<open>crates/utils/node-discovery/src/main.rs\<close>): on every change of the
  cluster it writes the addresses of the leader and the followers into a Lua file that nginx
  loads, has nginx check its configuration, and reloads it. The database subscription that reports
  the changes, file writing and running a command belong to the outside: the history of an
  operation holds the files it wrote and the commands it ran.
\<close>

section \<open>The generated file\<close>

text \<open>\<open>ClusterInfo\<close> is a type of the SDK. The code reads the leader and, in the order of their
  node ids, the followers; of a node it prints the socket address.\<close>

record node_info =
  address :: string

record cluster_info =
  leader :: "node_info option"
  followers :: "node_info list"

definition default_cluster :: cluster_info where
  "default_cluster = \<lparr>leader = None, followers = []\<rparr>"

fun join :: "string \<Rightarrow> string list \<Rightarrow> string" where
  "join sep [] = ''''"
| "join sep [l] = l"
| "join sep (l # m # ls) = l @ sep @ join sep (m # ls)"

definition quote :: string where
  "quote = [CHR 34]"

definition newline :: string where
  "newline = [CHR 10]"

definition set_line :: "string \<Rightarrow> string \<Rightarrow> string" where
  "set_line key a = ''c:set('' @ quote @ key @ quote @ '', '' @ quote @ a @ quote @ '')''"

definition follower_lines :: "node_info list \<Rightarrow> string list" where
  "follower_lines ns =
     map (\<lambda>(i, n). set_line (''follower_'' @ show_nat (i + 1)) (address n)) (List.enumerate 0 ns)"

definition create_lua_backend_cache_content :: "cluster_info \<Rightarrow> string" where
  "create_lua_backend_cache_content c =
     join newline
      ([''local c = ngx.shared.backend_cache'', ''c:flush_all()''] @
       (case leader c of None \<Rightarrow> [] | Some n \<Rightarrow> [set_line ''leader'' (address n)]) @
       follower_lines (followers c))"

section \<open>Reloading nginx\<close>

record reload_nginx =
  nginx_binary :: string
  config_path :: string

datatype host_request =
    WriteFile string string
  | RunCommand string "string list"

datatype discovery_error =
    NotWritten
  | NotExecuted string
  | CommandFailed string

text \<open>What the operating system does: whether the write of a history's last request succeeds, and
  whether its last command could be executed and ended with status zero.\<close>

record host =
  write_ok :: "host_request list \<Rightarrow> bool"
  command_status :: "host_request list \<Rightarrow> bool option"

type_synonym 'a host_act = "(discovery_error, host_request, 'a) act"

definition write_to_file_atomically :: "host \<Rightarrow> string \<Rightarrow> string \<Rightarrow> unit host_act" where
  "write_to_file_atomically os path content =
     ask (\<lambda>h. if write_ok os h then Inr () else Inl NotWritten) (WriteFile path content)"

definition write_config :: "host \<Rightarrow> reload_nginx \<Rightarrow> cluster_info \<Rightarrow> unit host_act" where
  "write_config os n c =
     write_to_file_atomically os (config_path n) (create_lua_backend_cache_content c)"

definition run_command :: "host \<Rightarrow> reload_nginx \<Rightarrow> string list \<Rightarrow> string \<Rightarrow> unit host_act" where
  "run_command os n args action =
     ask (\<lambda>h. case command_status os h of
                None \<Rightarrow> Inl (NotExecuted action)
              | Some ok \<Rightarrow> if ok then Inr () else Inl (CommandFailed action))
       (RunCommand (nginx_binary n) args)"

definition validate_config :: "host \<Rightarrow> reload_nginx \<Rightarrow> unit host_act" where
  "validate_config os n = run_command os n [''-t''] ''validate nginx config''"

definition reload :: "host \<Rightarrow> reload_nginx \<Rightarrow> unit host_act" where
  "reload os n = run_command os n [''-s'', ''reload''] ''reload nginx''"

definition on_cluster_update :: "host \<Rightarrow> reload_nginx \<Rightarrow> cluster_info \<Rightarrow> unit host_act" where
  "on_cluster_update os n c =
     io_bind (write_config os n c) (\<lambda>_.
     io_bind (validate_config os n) (\<lambda>_.
     reload os n))"

section \<open>The service\<close>

text \<open>The command line, and \<open>main\<close> up to the subscription: the file of an empty cluster is written
  first. The service then calls the notifier for every change it sees; a failed notification is
  reported to the service and the next one is handled all the same.\<close>

record discovery_args =
  database_url :: string
  output_file :: string
  max_age_millis :: u64
  arg_nginx_binary :: string
  metrics_port :: u16

definition default_args :: "string \<Rightarrow> discovery_args" where
  "default_args url =
     \<lparr>database_url = url, output_file = ''/usr/local/openresty/nginx/conf/backends.generated.lua'',
      max_age_millis = 1000, arg_nginx_binary = ''/usr/local/openresty/nginx/sbin/nginx'',
      metrics_port = 8094\<rparr>"

definition discovery_startup :: "host \<Rightarrow> discovery_args \<Rightarrow> reload_nginx host_act" where
  "discovery_startup os a =
     io_bind (write_to_file_atomically os (output_file a) (create_lua_backend_cache_content default_cluster))
       (\<lambda>_. io_return \<lparr>nginx_binary = arg_nginx_binary a, config_path = output_file a\<rparr>)"

fun notify_all :: "host \<Rightarrow> reload_nginx \<Rightarrow> cluster_info list \<Rightarrow> host_request list \<Rightarrow> host_request list" where
  "notify_all os n [] h = h"
| "notify_all os n (c # cs) h = notify_all os n cs (snd (on_cluster_update os n c h))"

section \<open>What nginx sees\<close>

text \<open>The last content written to a file in a history.\<close>

fun content_of :: "string \<Rightarrow> host_request list \<Rightarrow> string option" where
  "content_of p [] = None"
| "content_of p (WriteFile q c # h) = (case content_of p h of None \<Rightarrow> if p = q then Some c else None | Some d \<Rightarrow> Some d)"
| "content_of p (RunCommand b args # h) = content_of p h"

lemma content_of_append:
  "content_of p (g @ h) = (case content_of p h of None \<Rightarrow> content_of p g | Some d \<Rightarrow> Some d)"
  by (induction p g rule: content_of.induct) (auto split: option.splits)

abbreviation validated :: "reload_nginx \<Rightarrow> host_request" where
  "validated n \<equiv> RunCommand (nginx_binary n) [''-t'']"

abbreviation reloaded :: "reload_nginx \<Rightarrow> host_request" where
  "reloaded n \<equiv> RunCommand (nginx_binary n) [''-s'', ''reload'']"

text \<open>The requests of one update: each step runs only after the one before it succeeded.\<close>

lemmas update_defs = on_cluster_update_def write_config_def validate_config_def reload_def
  write_to_file_atomically_def run_command_def io_bind_def ask_def

lemma update_trace:
  "snd (on_cluster_update os n c h) =
     (let w = h @ [WriteFile (config_path n) (create_lua_backend_cache_content c)];
          v = w @ [validated n]
      in if \<not> write_ok os w then w
         else if command_status os v \<noteq> Some True then v else v @ [reloaded n])"
  by (auto simp: update_defs Let_def split: option.split)

lemma update_ok_iff:
  "fst (on_cluster_update os n c h) = Inr () \<longleftrightarrow>
     (let w = h @ [WriteFile (config_path n) (create_lua_backend_cache_content c)];
          v = w @ [validated n]
      in write_ok os w \<and> command_status os v = Some True \<and>
         command_status os (v @ [reloaded n]) = Some True)"
  by (auto simp: update_defs Let_def split: option.split)

text \<open>A request to reload follows, without another request in between, a successful check of the
  configuration, which follows a successful write of the file for one of the clusters.\<close>

definition reload_checked :: "host \<Rightarrow> reload_nginx \<Rightarrow> cluster_info set \<Rightarrow> host_request list \<Rightarrow> host_request \<Rightarrow> bool" where
  "reload_checked os n cs h q \<longleftrightarrow>
     (q = reloaded n \<longrightarrow>
       (\<exists>g. \<exists>c \<in> cs. let w = g @ [WriteFile (config_path n) (create_lua_backend_cache_content c)]
          in h = w @ [validated n] \<and> write_ok os w \<and> command_status os h = Some True))"

lemma reload_checked_update:
  assumes "justified (reload_checked os n cs) h" "c \<in> cs"
  shows "justified (reload_checked os n cs) (snd (on_cluster_update os n c h))"
  using assms by (auto simp: update_trace Let_def reload_checked_def)

lemma reload_checked_notify:
  "justified (reload_checked os n ds) h \<Longrightarrow> set cs \<subseteq> ds \<Longrightarrow> justified (reload_checked os n ds) (notify_all os n cs h)"
  by (induction cs arbitrary: h) (simp_all add: reload_checked_update)

lemma startup_trace:
  "discovery_startup os a [] = (r, h) \<Longrightarrow>
     h = [WriteFile (output_file a) (create_lua_backend_cache_content default_cluster)]"
  by (auto simp: discovery_startup_def write_to_file_atomically_def io_bind_def ask_def split: if_splits)

section \<open>The file determines the cluster\<close>

fun split_lines :: "string \<Rightarrow> string list" where
  "split_lines [] = [[]]"
| "split_lines (c # s) =
     (if c = CHR 10 then [] # split_lines s
      else (case split_lines s of [] \<Rightarrow> [[c]] | l # ls \<Rightarrow> (c # l) # ls))"

lemma split_lines_nonempty: "split_lines s \<noteq> []"
  by (induction s) (auto split: list.split)

lemma split_lines_single: "CHR 10 \<notin> set l \<Longrightarrow> split_lines l = [l]"
  by (induction l) auto

lemma split_lines_append: "CHR 10 \<notin> set l \<Longrightarrow> split_lines (l @ newline @ s) = l # split_lines s"
  by (induction l) (auto simp: newline_def)

lemma split_lines_join:
  "\<forall>l \<in> set ls. CHR 10 \<notin> set l \<Longrightarrow> ls \<noteq> [] \<Longrightarrow> split_lines (join newline ls) = ls"
  by (induction newline ls rule: join.induct) (auto simp: split_lines_single split_lines_append)

text \<open>A socket address is printed on one line.\<close>

definition one_line :: "cluster_info \<Rightarrow> bool" where
  "one_line c \<longleftrightarrow> (\<forall>n \<in> set_option (leader c) \<union> set (followers c). CHR 10 \<notin> set (address n))"

lemma show_nat_one_line: "CHR 10 \<notin> set (show_nat n)"
proof (induction n rule: show_nat.induct)
  case (1 n)
  have "CHR 10 \<noteq> digit_char d" if "d < 10" for d
    using that by (auto dest!: arg_cong [where f = "of_char :: char \<Rightarrow> nat"] simp: of_char_digit_char)
  with 1 show ?case by (subst show_nat.simps) auto
qed

lemma set_line_inject [simp]: "set_line k a = set_line k b \<longleftrightarrow> a = b"
  by (simp add: set_line_def)

lemma set_line_one_line: "CHR 10 \<notin> set k \<Longrightarrow> CHR 10 \<notin> set a \<Longrightarrow> CHR 10 \<notin> set (set_line k a)"
  by (simp add: set_line_def quote_def)

lemma leader_not_follower [simp]: "set_line ''leader'' a \<noteq> set_line (''follower_'' @ k) b"
  by (simp add: set_line_def)

lemma follower_lines_inject: "follower_lines ns = follower_lines ms \<longleftrightarrow> map address ns = map address ms"
proof -
  have "map (\<lambda>(i, n). set_line (''follower_'' @ show_nat (i + 1)) (address n)) (List.enumerate k ns)
      = map (\<lambda>(i, n). set_line (''follower_'' @ show_nat (i + 1)) (address n)) (List.enumerate k ms)
      \<longleftrightarrow> map address ns = map address ms" for k
  proof (induction ns arbitrary: ms k)
    case Nil
    then show ?case by (cases ms) auto
  next
    case (Cons n ns)
    then show ?case by (cases ms) auto
  qed
  then show ?thesis unfolding follower_lines_def by blast
qed

lemma content_lines:
  assumes "one_line c"
  shows "split_lines (create_lua_backend_cache_content c) =
    [''local c = ngx.shared.backend_cache'', ''c:flush_all()''] @
       (case leader c of None \<Rightarrow> [] | Some n \<Rightarrow> [set_line ''leader'' (address n)]) @
       follower_lines (followers c)"
  unfolding create_lua_backend_cache_content_def
  by (rule split_lines_join)
    (use assms in \<open>auto simp: one_line_def follower_lines_def set_line_one_line show_nat_one_line
      in_set_enumerate_eq split: option.splits\<close>)

text \<open>
  The file tells any two clusters apart that differ in the leader's address or in the addresses
  of the followers or their order (addresses are one line of text).
\<close>

lemma backend_file_determines_cluster:
  assumes "one_line c" "one_line d"
    and "create_lua_backend_cache_content c = create_lua_backend_cache_content d"
  shows "map_option address (leader c) = map_option address (leader d) \<and>
    map address (followers c) = map address (followers d)"
proof -
  have lines: "(case leader c of None \<Rightarrow> [] | Some n \<Rightarrow> [set_line ''leader'' (address n)]) @ follower_lines (followers c)
      = (case leader d of None \<Rightarrow> [] | Some n \<Rightarrow> [set_line ''leader'' (address n)]) @ follower_lines (followers d)"
    using assms(3) content_lines [OF assms(1)] content_lines [OF assms(2)] by simp
  have hd: "follower_lines ns \<noteq> set_line ''leader'' a # ls" for ns a ls
    by (cases ns) (simp_all add: follower_lines_def set_line_def)
  from lines hd hd [symmetric] show ?thesis
    by (auto simp: follower_lines_inject split: option.splits)
qed


definition demo_cluster :: "string list \<Rightarrow> cluster_info" where
  "demo_cluster fs = \<lparr>leader = Some \<lparr>address = ''h:1''\<rparr>, followers = map (\<lambda>a. \<lparr>address = a\<rparr>) fs\<rparr>"

lemma backend_file_determines_cluster_example:
  "create_lua_backend_cache_content (demo_cluster [''h:2'', ''h:3'']) \<noteq>
   create_lua_backend_cache_content (demo_cluster [''h:3'', ''h:2''])"
proof
  assume eq: "create_lua_backend_cache_content (demo_cluster [''h:2'', ''h:3'']) =
    create_lua_backend_cache_content (demo_cluster [''h:3'', ''h:2''])"
  have "one_line (demo_cluster [''h:2'', ''h:3''])" "one_line (demo_cluster [''h:3'', ''h:2''])"
    by (simp_all add: one_line_def demo_cluster_def)
  from backend_file_determines_cluster [OF this eq] show False by (simp add: demo_cluster_def)
qed

text \<open>Property C40. However writing and running commands turn out, nginx is told to reload only directly after a
  successful check of its configuration, which directly follows the successful write of the file
  for one of the clusters reported so far.
\<close>

theorem reloads_follow_validation:
  "justified (reload_checked os n (set cs)) (notify_all os n cs (snd (discovery_startup os a [])))"
proof -
  obtain r h where start: "discovery_startup os a [] = (r, h)" by (cases "discovery_startup os a []")
  have "justified (reload_checked os n (set cs)) ([] @ [WriteFile (output_file a) (create_lua_backend_cache_content default_cluster)])"
    unfolding justified_snoc by (simp add: reload_checked_def)
  with startup_trace [OF start] start show ?thesis by (simp add: reload_checked_notify)
qed

end
