(* ===== verification/Host_Files.thy ===== *)
theory Host_Files
  imports Prelude "HOL-Library.Sublist"
begin

text \<open>
  The part of \<open>std::fs\<close> and \<open>std::path\<close> the tools of the repository use, on a file system that is
  a list of paths with their nodes. A path is the list of its names from the root; there are no
  symbolic links and no \<open>..\<close>, so \<open>canonicalize\<close> only asks whether the path exists. Errors of the
  device and of permissions are left out.
\<close>

section \<open>Paths\<close>

type_synonym path = "string list"

datatype pathbuf = Absolute path | Relative path

fun path_join :: "pathbuf \<Rightarrow> pathbuf \<Rightarrow> pathbuf" where
  "path_join p (Absolute q) = Absolute q"
| "path_join (Absolute p) (Relative q) = Absolute (p @ q)"
| "path_join (Relative p) (Relative q) = Relative (p @ q)"

fun is_absolute :: "pathbuf \<Rightarrow> bool" where
  "is_absolute (Absolute p) = True"
| "is_absolute (Relative p) = False"

definition path_parent :: "path \<Rightarrow> path option" where
  "path_parent p = (if p = [] then None else Some (butlast p))"

section \<open>The file system\<close>

datatype node = Dir | File string

type_synonym fs = "(path \<times> node) list"

datatype fs_error = NotFound | NotADirectory | IsADirectory | AlreadyExists

definition node_at :: "path \<Rightarrow> fs \<Rightarrow> node option" where
  "node_at p fs = map_of fs p"

definition is_file :: "path \<Rightarrow> fs \<Rightarrow> bool" where
  "is_file p fs = (case node_at p fs of Some (File c) \<Rightarrow> True | _ \<Rightarrow> False)"

definition exists_at :: "path \<Rightarrow> fs \<Rightarrow> bool" where
  "exists_at p fs = (node_at p fs \<noteq> None)"

text \<open>What looking for a path that is not there reports.\<close>

definition missing :: "path \<Rightarrow> fs \<Rightarrow> fs_error" where
  "missing p fs = (if list_ex (\<lambda>q. is_file q fs) (prefixes p) then NotADirectory else NotFound)"

definition metadata :: "path \<Rightarrow> fs \<Rightarrow> fs_error + node" where
  "metadata p fs = (case node_at p fs of None \<Rightarrow> Inl (missing p fs) | Some n \<Rightarrow> Inr n)"

definition put :: "path \<Rightarrow> node \<Rightarrow> fs \<Rightarrow> fs" where
  "put p n fs = (p, n) # filter (\<lambda>e. fst e \<noteq> p) fs"

definition cut :: "(path \<Rightarrow> bool) \<Rightarrow> fs \<Rightarrow> fs" where
  "cut P fs = filter (\<lambda>e. \<not> P (fst e)) fs"

definition read_to_string :: "path \<Rightarrow> fs \<Rightarrow> fs_error + string" where
  "read_to_string p fs =
     (case node_at p fs of
        None \<Rightarrow> Inl (missing p fs) | Some Dir \<Rightarrow> Inl IsADirectory | Some (File c) \<Rightarrow> Inr c)"

text \<open>Writing creates the file; its directory must exist.\<close>

definition write_file :: "path \<Rightarrow> string \<Rightarrow> fs \<Rightarrow> fs_error + fs" where
  "write_file p c fs =
     (if node_at p fs = Some Dir then Inl IsADirectory
      else if node_at (butlast p) fs = Some Dir then Inr (put p (File c) fs)
      else Inl (missing p fs))"

definition create_dir_all :: "path \<Rightarrow> fs \<Rightarrow> fs_error + fs" where
  "create_dir_all p fs =
     (if is_file p fs then Inl AlreadyExists
      else if list_ex (\<lambda>q. is_file q fs) (prefixes p) then Inl NotADirectory
      else Inr (fold (\<lambda>q fs. if exists_at q fs then fs else put q Dir fs) (prefixes p) fs))"

definition remove_file :: "path \<Rightarrow> fs \<Rightarrow> fs_error + fs" where
  "remove_file p fs =
     (case node_at p fs of
        None \<Rightarrow> Inl (missing p fs)
      | Some Dir \<Rightarrow> Inl IsADirectory
      | Some (File c) \<Rightarrow> Inr (cut (\<lambda>q. q = p) fs))"

definition remove_dir_all :: "path \<Rightarrow> fs \<Rightarrow> fs_error + fs" where
  "remove_dir_all p fs =
     (case node_at p fs of
        None \<Rightarrow> Inl (missing p fs)
      | Some (File c) \<Rightarrow> Inl NotADirectory
      | Some Dir \<Rightarrow> Inr (cut (prefix p) fs))"

definition child_of :: "path \<Rightarrow> path \<Rightarrow> bool" where
  "child_of p q = (q \<noteq> [] \<and> butlast q = p)"

definition read_dir :: "path \<Rightarrow> fs \<Rightarrow> fs_error + (path \<times> node) list" where
  "read_dir p fs =
     (case node_at p fs of
        None \<Rightarrow> Inl (missing p fs)
      | Some (File c) \<Rightarrow> Inl NotADirectory
      | Some Dir \<Rightarrow> Inr (filter (\<lambda>e. child_of p (fst e)) fs))"

definition copy_file :: "path \<Rightarrow> path \<Rightarrow> fs \<Rightarrow> fs_error + fs" where
  "copy_file p q fs = rbind (read_to_string p fs) (\<lambda>c. write_file q c fs)"

text \<open>Renaming a file; the code renames nothing else.\<close>

definition rename_file :: "path \<Rightarrow> path \<Rightarrow> fs \<Rightarrow> fs_error + fs" where
  "rename_file p q fs =
     rbind (read_to_string p fs) (\<lambda>c.
     rbind (write_file q c fs) (\<lambda>fs'.
     Inr (if p = q then fs' else cut (\<lambda>r. r = p) fs')))"

definition canonicalize :: "path \<Rightarrow> fs \<Rightarrow> fs_error + path" where
  "canonicalize p fs = (if exists_at p fs then Inr p else Inl (missing p fs))"

section \<open>Looking up after an operation\<close>

lemma node_at_put [simp]: "node_at q (put p n fs) = (if q = p then Some n else node_at q fs)"
proof -
  have "map_of (filter (\<lambda>e. fst e \<noteq> p) fs) q = (if q = p then None else map_of fs q)"
    by (induction fs) auto
  then show ?thesis by (auto simp: node_at_def put_def)
qed

lemma node_at_cut [simp]: "node_at q (cut P fs) = (if P q then None else node_at q fs)"
proof -
  have "map_of (filter (\<lambda>e. \<not> P (fst e)) fs) q = (if P q then None else map_of fs q)"
    by (induction fs) auto
  then show ?thesis by (simp add: node_at_def cut_def)
qed

lemma node_at_Nil [simp]: "node_at q [] = None"
  by (simp add: node_at_def)

lemma is_file_iff: "is_file p fs \<longleftrightarrow> (\<exists>c. node_at p fs = Some (File c))"
  by (auto simp: is_file_def split: option.splits node.splits)

lemma node_at_mkdirs:
  "node_at q (fold (\<lambda>q fs. if exists_at q fs then fs else put q Dir fs) ps fs) =
     (case node_at q fs of None \<Rightarrow> if q \<in> set ps then Some Dir else None | Some n \<Rightarrow> Some n)"
proof (induction ps arbitrary: fs)
  case (Cons p ps)
  then show ?case by (auto simp: exists_at_def split: option.splits)
qed (auto split: option.splits)

section \<open>Well-formed file systems\<close>

text \<open>One entry per path, and every entry but the root lies in a directory.\<close>

definition wf_fs :: "fs \<Rightarrow> bool" where
  "wf_fs fs \<longleftrightarrow> distinct (map fst fs) \<and> node_at [] fs = Some Dir \<and>
     (\<forall>p. p \<noteq> [] \<longrightarrow> node_at p fs \<noteq> None \<longrightarrow> node_at (butlast p) fs = Some Dir)"

lemma wf_parent: "wf_fs fs \<Longrightarrow> node_at p fs = Some n \<Longrightarrow> p \<noteq> [] \<Longrightarrow> node_at (butlast p) fs = Some Dir"
  by (simp add: wf_fs_def)

lemma distinct_put: "distinct (map fst fs) \<Longrightarrow> distinct (map fst (put p n fs))"
  by (induction fs) (auto simp: put_def)

lemma distinct_cut: "distinct (map fst fs) \<Longrightarrow> distinct (map fst (cut P fs))"
  by (simp add: cut_def distinct_map_filter)

text \<open>Everything above an existing entry is a directory.\<close>

lemma wf_ancestor:
  assumes "wf_fs fs" "strict_prefix p q" "node_at q fs = Some n"
  shows "node_at p fs = Some Dir"
  using assms(2,3)
proof (induction q arbitrary: n rule: rev_induct)
  case (snoc x q)
  have parent: "node_at q fs = Some Dir" using wf_parent [OF assms(1) snoc.prems(2)] by simp
  show ?case
  proof (cases "p = q")
    case False
    with snoc.prems(1) have "strict_prefix p q" by (auto simp: strict_prefix_def)
    then show ?thesis using snoc.IH parent by blast
  qed (simp add: parent)
qed simp

lemma wf_no_child_of_file:
  "wf_fs fs \<Longrightarrow> node_at p fs = Some (File c) \<Longrightarrow> strict_prefix p q \<Longrightarrow> node_at q fs = None"
  using wf_ancestor by (cases "node_at q fs") fastforce+

lemma wf_below_missing:
  "wf_fs fs \<Longrightarrow> node_at p fs = None \<Longrightarrow> prefix p q \<Longrightarrow> node_at q fs = None"
  using wf_ancestor by (cases "node_at q fs"; cases "p = q") (fastforce simp: strict_prefix_def)+

lemma wf_put:
  assumes "wf_fs fs" "p \<noteq> []" "node_at (butlast p) fs = Some Dir" "n = Dir \<or> node_at p fs \<noteq> Some Dir"
  shows "wf_fs (put p n fs)"
proof -
  have below: "node_at q fs = None" if "q \<noteq> []" "butlast q = p" "n \<noteq> Dir" for q
  proof (cases "node_at q fs")
    case (Some m)
    with wf_parent [OF assms(1) Some that(1)] that assms(4) show ?thesis by simp
  qed
  have ne: "butlast p \<noteq> p" using assms(2) by (metis append_butlast_last_id append_self_conv not_Cons_self2)
  show ?thesis
    using assms below ne unfolding wf_fs_def by (auto simp: distinct_put)
qed

lemma wf_mkdirs:
  assumes "wf_fs fs" "\<And>q. prefix q p \<Longrightarrow> \<not> is_file q fs"
  shows "wf_fs (fold (\<lambda>q fs. if exists_at q fs then fs else put q Dir fs) (prefixes p) fs)"
  using assms
proof (induction p rule: rev_induct)
  case (snoc x p)
  let ?mk = "fold (\<lambda>q fs. if exists_at q fs then fs else put q Dir fs)"
  have IH: "wf_fs (?mk (prefixes p) fs)" by (rule snoc.IH) (use snoc.prems in auto)
  have "\<not> is_file p fs" by (rule snoc.prems(2)) simp
  then have dir: "node_at p (?mk (prefixes p) fs) = Some Dir"
    by (auto simp: node_at_mkdirs is_file_iff split: option.split intro: node.exhaust)
  show ?case
    using IH wf_put [OF IH, of "p @ [x]" Dir] dir by (simp add: prefixes_snoc)
qed (simp add: wf_fs_def exists_at_def)

lemma wf_cut_below: "wf_fs fs \<Longrightarrow> p \<noteq> [] \<Longrightarrow> wf_fs (cut (prefix p) fs)"
  unfolding wf_fs_def by (auto simp: distinct_cut) (metis prefix_order.trans prefixeq_butlast)

lemma wf_cut_file:
  assumes "wf_fs fs" "node_at p fs = Some (File c)"
  shows "wf_fs (cut (\<lambda>q. q = p) fs)"
  using assms unfolding wf_fs_def by (auto simp: distinct_cut)

lemma wf_root [simp]: "wf_fs [([], Dir)]"
  by (auto simp: wf_fs_def node_at_def)

end
