(* ===== verification/Acceptance_Build.thy ===== *)
theory Acceptance_Build
  imports Host_Files Rust_Str
begin

text \<open>
  The build script of the acceptance test (\<open>scripts/acceptance-test/build.rs\<close>): the ABI and the
  bytecode of the test contract are checked in beside its source together with the hash of the
  source they were made from; when they are missing or stale, \<open>solc\<close> makes them again. SHA-256 with
  its hexadecimal form and the effect of \<open>solc\<close> on the file system are parameters. Every error is a
  panic.
\<close>

section \<open>The script\<close>

datatype build_error = NotRead fs_error | NoSolc | SolcNotRun | SolcFailed | HashNotWritten | NoOutDir | NotCopied fs_error

datatype solc_result = SolcMissing | SolcError | SolcExited bool

record build_tools =
  sha256_hex :: "string \<Rightarrow> string"
  run_solc :: "path \<Rightarrow> path \<Rightarrow> fs \<Rightarrow> solc_result \<times> fs"

definition source_hash :: "build_tools \<Rightarrow> path \<Rightarrow> fs \<Rightarrow> build_error + string" where
  "source_hash t p fs = rbind (map_err NotRead (read_to_string p fs)) (\<lambda>c. Inr (sha256_hex t c))"

definition artifacts_are_fresh :: "path \<Rightarrow> path \<Rightarrow> path \<Rightarrow> string \<Rightarrow> fs \<Rightarrow> bool" where
  "artifacts_are_fresh abi bin hash expected fs \<longleftrightarrow>
     exists_at abi fs \<and> exists_at bin fs \<and>
     (case read_to_string hash fs of Inr h \<Rightarrow> trim h = expected | Inl e \<Rightarrow> False)"

definition regenerate_artifacts :: "build_tools \<Rightarrow> path \<Rightarrow> path \<Rightarrow> path \<Rightarrow> string \<Rightarrow> fs \<Rightarrow> build_error + fs" where
  "regenerate_artifacts t contract dir hash expected fs =
     (case run_solc t contract dir fs of
        (SolcMissing, fs') \<Rightarrow> Inl NoSolc
      | (SolcError, fs') \<Rightarrow> Inl SolcNotRun
      | (SolcExited success, fs') \<Rightarrow>
          if \<not> success then Inl SolcFailed
          else map_err (\<lambda>e. HashNotWritten) (write_file hash (expected @ [CHR 10]) fs'))"

definition copy_artifact :: "path \<Rightarrow> path \<Rightarrow> fs \<Rightarrow> build_error + fs" where
  "copy_artifact src dst fs = map_err NotCopied (copy_file src dst fs)"

definition contracts_dir :: "path \<Rightarrow> path" where
  "contracts_dir manifest = manifest @ [''evm-contracts'']"

definition contract_path :: "path \<Rightarrow> path" where
  "contract_path manifest = contracts_dir manifest @ [''StateConsistencyTester.sol'']"

definition abi_path :: "path \<Rightarrow> path" where
  "abi_path manifest = contracts_dir manifest @ [''StateConsistencyTester.abi'']"

definition bin_path :: "path \<Rightarrow> path" where
  "bin_path manifest = contracts_dir manifest @ [''StateConsistencyTester.bin'']"

definition hash_path :: "path \<Rightarrow> path" where
  "hash_path manifest = contracts_dir manifest @ [''StateConsistencyTester.sol.sha256'']"

text \<open>\<open>CARGO_MANIFEST_DIR\<close> and \<open>OUT_DIR\<close> are arguments; the former is always set by cargo.\<close>

definition build_main :: "build_tools \<Rightarrow> path \<Rightarrow> path option \<Rightarrow> fs \<Rightarrow> build_error + fs" where
  "build_main t manifest out_dir fs =
     rbind (source_hash t (contract_path manifest) fs) (\<lambda>expected.
     rbind (if artifacts_are_fresh (abi_path manifest) (bin_path manifest) (hash_path manifest) expected fs then Inr fs
            else regenerate_artifacts t (contract_path manifest) (contracts_dir manifest) (hash_path manifest) expected fs) (\<lambda>fs.
     case out_dir of
       None \<Rightarrow> Inl NoOutDir
     | Some out \<Rightarrow>
         rbind (map_err NotRead (create_dir_all out fs)) (\<lambda>fs.
         rbind (copy_artifact (abi_path manifest) (out @ [''StateConsistencyTester.abi'']) fs) (\<lambda>fs.
         copy_artifact (bin_path manifest) (out @ [''StateConsistencyTester.bin'']) fs))))"

section \<open>Hashes in files\<close>

definition hex_chars :: string where
  "hex_chars = ''0123456789abcdef''"

lemma white_space_not_hex: "list_all (\<lambda>w. hd w \<notin> set hex_chars \<and> last w \<notin> set hex_chars) white_space"
  by code_simp

lemma trim_hash_line:
  assumes "s \<noteq> []" "set s \<subseteq> set hex_chars"
  shows "trim (s @ [CHR 10]) = s"
proof -
  have no: "\<not> starts_with w (s @ t)" "\<not> starts_with (rev w) (rev s)" if "w \<in> set white_space" for w t
  proof -
    from that white_space_nonempty white_space_not_hex
    have w: "w \<noteq> []" "hd w \<notin> set hex_chars" "last w \<notin> set hex_chars" by (auto simp: list_all_iff)
    have "hd s \<in> set hex_chars" "last s \<in> set hex_chars" using assms by auto
    with w assms(1) show "\<not> starts_with w (s @ t)" "\<not> starts_with (rev w) (rev s)"
      by (auto simp: starts_with_iff) (metis hd_append2 append_is_Nil_conv, metis hd_append2 hd_rev rev_is_Nil_conv append_is_Nil_conv)
  qed
  have start: "trim_start (s @ [CHR 10]) = s @ [CHR 10]"
    using no(1) by (subst trim_start.simps) (auto simp: find_Some_iff split: option.split)
  have stop: "trim_end s = s"
    using no(2) by (subst trim_end.simps) (auto simp: find_Some_iff split: option.split)
  have "find (\<lambda>w. starts_with (rev w) (rev (s @ [CHR 10]))) white_space = Some [CHR 10]"
    by (simp add: white_space_code starts_with_iff)
  then have "trim_end (s @ [CHR 10]) = trim_end s"
    by (subst trim_end.simps) simp
  with start stop show ?thesis by (simp add: trim_def)
qed

section \<open>After a build\<close>

lemma read_Inr_iff: "read_to_string p fs = Inr c \<longleftrightarrow> node_at p fs = Some (File c)"
  by (auto simp: read_to_string_def split: option.splits node.splits)

lemma node_at_write: "write_file p c fs = Inr fs' \<Longrightarrow> node_at q fs' = (if q = p then Some (File c) else node_at q fs)"
  by (auto simp: write_file_def split: if_splits)

lemma create_dirs_keeps_files:
  "create_dir_all p fs = Inr fs' \<Longrightarrow> node_at q fs = Some n \<Longrightarrow> node_at q fs' = Some n"
  by (auto simp: create_dir_all_def node_at_mkdirs split: if_splits)

lemma create_dirs_no_new_files:
  "create_dir_all p fs = Inr fs' \<Longrightarrow> node_at q fs' = Some (File c) \<Longrightarrow> node_at q fs = Some (File c)"
  by (auto simp: create_dir_all_def node_at_mkdirs split: if_splits option.splits)

lemma regenerate_spec:
  assumes "regenerate_artifacts t contract dir hash h fs = Inr fs'" "hash \<noteq> contract"
    and "node_at contract (snd (run_solc t contract dir fs)) = node_at contract fs"
  shows "node_at hash fs' = Some (File (h @ [CHR 10]))" "node_at contract fs' = node_at contract fs"
  using assms
  by (auto simp: regenerate_artifacts_def node_at_write split: prod.splits solc_result.splits if_splits)

definition hashes_in_hex :: "build_tools \<Rightarrow> bool" where
  "hashes_in_hex t \<longleftrightarrow> (\<forall>c. sha256_hex t c \<noteq> [] \<and> set (sha256_hex t c) \<subseteq> set hex_chars)"

definition solc_keeps_source :: "build_tools \<Rightarrow> path \<Rightarrow> bool" where
  "solc_keeps_source t m \<longleftrightarrow>
     (\<forall>fs. node_at (contract_path m) (snd (run_solc t (contract_path m) (contracts_dir m) fs)) = node_at (contract_path m) fs)"

lemma artifact_paths [simp]:
  "contract_path m \<noteq> hash_path m" "hash_path m \<noteq> contract_path m"
  by (simp_all add: contract_path_def hash_path_def)

text \<open>What the first two steps leave: the source as it was, and the hash of it in the hash file.\<close>

lemma refreshed:
  assumes "source_hash t (contract_path m) fs = Inr h" "hashes_in_hex t" "solc_keeps_source t m"
    and "(if artifacts_are_fresh (abi_path m) (bin_path m) (hash_path m) h fs then Inr fs
          else regenerate_artifacts t (contract_path m) (contracts_dir m) (hash_path m) h fs) = Inr fs'"
  shows "node_at (contract_path m) fs' = node_at (contract_path m) fs"
    and "\<exists>x. node_at (hash_path m) fs' = Some (File x) \<and> trim x = h"
proof -
  from assms(1,2) have "trim (h @ [CHR 10]) = h"
    by (auto simp: source_hash_def hashes_in_hex_def intro: trim_hash_line)
  with assms(3,4) show "node_at (contract_path m) fs' = node_at (contract_path m) fs"
    "\<exists>x. node_at (hash_path m) fs' = Some (File x) \<and> trim x = h"
    by (auto simp: artifacts_are_fresh_def solc_keeps_source_def read_Inr_iff regenerate_spec
        split: if_splits sum.splits)
qed

text \<open>After a build the checked-in artifacts are fresh: the hash file holds the hash of the source,
  so that the next build does not need \<open>solc\<close>, and the copies in the output directory are the
  artifacts. Hashes are hexadecimal numbers, \<open>solc\<close> does not write its input, and the output
  directory is not the directory of the contracts.\<close>

lemma artifacts_fresh_after_build:
  assumes "build_main t m (Some out) fs = Inr fs'" "hashes_in_hex t" "solc_keeps_source t m" "out \<noteq> contracts_dir m"
  shows "\<exists>h. source_hash t (contract_path m) fs = Inr h \<and> source_hash t (contract_path m) fs' = Inr h \<and>
    artifacts_are_fresh (abi_path m) (bin_path m) (hash_path m) h fs' \<and>
    node_at (out @ [''StateConsistencyTester.abi'']) fs' = node_at (abi_path m) fs' \<and>
    node_at (out @ [''StateConsistencyTester.bin'']) fs' = node_at (bin_path m) fs'"
proof -
  let ?abi = "out @ [''StateConsistencyTester.abi'']" and ?bin = "out @ [''StateConsistencyTester.bin'']"
  from assms(1) obtain h fs1 fs2 fs3 a b where
    h: "source_hash t (contract_path m) fs = Inr h"
    and gen: "(if artifacts_are_fresh (abi_path m) (bin_path m) (hash_path m) h fs then Inr fs
       else regenerate_artifacts t (contract_path m) (contracts_dir m) (hash_path m) h fs) = Inr fs1"
    and dirs: "create_dir_all out fs1 = Inr fs2"
    and a: "node_at (abi_path m) fs2 = Some (File a)" "write_file ?abi a fs2 = Inr fs3"
    and b: "node_at (bin_path m) fs3 = Some (File b)" "write_file ?bin b fs3 = Inr fs'"
    by (auto simp: build_main_def copy_artifact_def copy_file_def read_Inr_iff)
  note same = refreshed [OF h assms(2,3) gen]
  have other: "node_at p fs' = node_at p fs2" if "butlast p = contracts_dir m" for p
    using that assms(4) by (auto simp: node_at_write [OF a(2)] node_at_write [OF b(2)])
  have at: "butlast (contract_path m) = contracts_dir m" "butlast (abi_path m) = contracts_dir m"
    "butlast (bin_path m) = contracts_dir m" "butlast (hash_path m) = contracts_dir m"
    by (simp_all add: contract_path_def abi_path_def bin_path_def hash_path_def)
  have "bin_path m \<noteq> ?abi" using at(3) assms(4) by auto
  then have bin: "node_at (bin_path m) fs2 = Some (File b)" using b(1) by (simp add: node_at_write [OF a(2)])
  from h obtain src where src: "node_at (contract_path m) fs = Some (File src)" "h = sha256_hex t src"
    by (auto simp: source_hash_def read_Inr_iff)
  have "node_at (contract_path m) fs' = Some (File src)"
    using other [OF at(1)] same(1) src(1) create_dirs_keeps_files [OF dirs] by simp
  then have "source_hash t (contract_path m) fs' = Inr h"
    using src(2) by (simp add: source_hash_def read_to_string_def)
  moreover obtain x where "node_at (hash_path m) fs' = Some (File x)" "trim x = h"
    using same(2) other [OF at(4)] create_dirs_keeps_files [OF dirs] by auto
  then have "artifacts_are_fresh (abi_path m) (bin_path m) (hash_path m) h fs'"
    using a(1) bin other [OF at(2)] other [OF at(3)]
    by (simp add: artifacts_are_fresh_def exists_at_def read_to_string_def)
  moreover have "node_at ?abi fs' = node_at (abi_path m) fs'" "node_at ?bin fs' = node_at (bin_path m) fs'"
    using a(1) bin other [OF at(2)] other [OF at(3)]
    by (simp_all add: node_at_write [OF a(2)] node_at_write [OF b(2)])
  ultimately show ?thesis using h by blast
qed

definition demo_build_tools :: build_tools where
  "demo_build_tools =
     \<lparr>sha256_hex = (\<lambda>c. ''ab''),
      run_solc = (\<lambda>c d fs. (SolcExited True,
        put (d @ [''StateConsistencyTester.abi'']) (File ''abi'') (put (d @ [''StateConsistencyTester.bin'']) (File ''bin'') fs)))\<rparr>"

definition demo_build_fs :: fs where
  "demo_build_fs = [([], Dir), ([''evm-contracts''], Dir), (contract_path [], File ''source'')]"

definition demo_build :: "fs option" where
  "demo_build = (case build_main demo_build_tools [] (Some [''out'']) demo_build_fs of Inl e \<Rightarrow> None | Inr fs \<Rightarrow> Some fs)"

lemma demo_build_ok: "map_option (node_at (hash_path [])) demo_build = Some (Some (File (''ab'' @ [CHR 10])))"
  by code_simp

lemma artifacts_fresh_after_build_example:
  "\<exists>fs'. demo_build = Some fs' \<and> artifacts_are_fresh (abi_path []) (bin_path []) (hash_path []) ''ab'' fs'"
proof -
  from demo_build_ok obtain fs' where fs': "demo_build = Some fs'" by auto
  then have run: "build_main demo_build_tools [] (Some [''out'']) demo_build_fs = Inr fs'"
    by (simp add: demo_build_def split: sum.splits)
  have "hashes_in_hex demo_build_tools"
    by (simp add: hashes_in_hex_def demo_build_tools_def hex_chars_def)
  moreover have "solc_keeps_source demo_build_tools []"
    by (simp add: solc_keeps_source_def demo_build_tools_def contract_path_def)
  moreover have "[''out''] \<noteq> contracts_dir []" by (simp add: contracts_dir_def)
  ultimately show ?thesis
    using artifacts_fresh_after_build [OF run] fs' by (auto simp: source_hash_def demo_build_tools_def)
qed

end
