(* ===== verification/Acceptance_Config.thy ===== *)
theory Acceptance_Config
  imports Host_Files
begin

text \<open>
  The settings and directories of the acceptance test (\<open>scripts/acceptance-test/src/config.rs\<close>, the
  type \<open>Directories\<close> of \<open>lib.rs\<close>, and the saving and restoring of the mock DA database in
  \<open>bin/setup.rs\<close> and \<open>main.rs\<close>). Command-line parsing belongs to clap.
\<close>

section \<open>Settings\<close>

datatype run_profile = Full | Short

fun subdir :: "run_profile \<Rightarrow> string" where
  "subdir Full = ''full''"
| "subdir Short = ''short''"

datatype existing_rollup_state = Clobber | Error | Ignore

record common_args =
  short :: bool
  arg_acceptance_data_dir :: "pathbuf option"
  arg_acceptance_throughput_dir :: "pathbuf option"
  arg_rollup_state_dir :: "pathbuf option"
  arg_on_existing_rollup_state :: existing_rollup_state
  arg_postgres_docker_container_name :: "string option"
  arg_binary_cache_dir :: "pathbuf option"

record run_settings =
  profile :: run_profile
  blocks_per_version :: u64
  full_slot_save_interval :: u64
  acceptance_data_dir :: "pathbuf option"
  acceptance_throughput_dir :: "pathbuf option"
  rollup_state_dir :: "pathbuf option"
  on_existing_rollup_state :: existing_rollup_state
  postgres_docker_container_name :: string
  binary_cache_dir :: "pathbuf option"

definition from_common_args :: "common_args \<Rightarrow> run_settings" where
  "from_common_args a =
     (let p = (if short a then Short else Full);
          (blocks, interval) = (case p of Full \<Rightarrow> (1000, 25) | Short \<Rightarrow> (30, 5))
      in \<lparr>profile = p, blocks_per_version = blocks, full_slot_save_interval = interval,
          acceptance_data_dir = arg_acceptance_data_dir a,
          acceptance_throughput_dir = arg_acceptance_throughput_dir a,
          rollup_state_dir = arg_rollup_state_dir a,
          on_existing_rollup_state = arg_on_existing_rollup_state a,
          postgres_docker_container_name =
            unwrap_or (arg_postgres_docker_container_name a) ''postgres-acceptance-test'',
          binary_cache_dir = arg_binary_cache_dir a\<rparr>)"

definition cleanup_rollup_state_on_success :: "run_settings \<Rightarrow> bool" where
  "cleanup_rollup_state_on_success s = (rollup_state_dir s = None)"

section \<open>The rollup state directory\<close>

datatype config_error = Io fs_error | NotADir | NotEmpty | NoTestDir | Panic

definition io_result :: "fs_error + 'a \<Rightarrow> config_error + 'a" where
  "io_result = map_err Io"

definition clear_directory :: "path \<Rightarrow> fs \<Rightarrow> config_error + fs" where
  "clear_directory p fs =
     rbind (io_result (read_dir p fs)) (\<lambda>entries.
     rfold (\<lambda>(q, n) fs. io_result (if n = Dir then remove_dir_all q fs else remove_file q fs)) entries fs)"

definition ensure_directory_empty :: "path \<Rightarrow> fs \<Rightarrow> config_error + unit" where
  "ensure_directory_empty p fs =
     rbind (io_result (read_dir p fs)) (\<lambda>entries. ensure (entries = []) NotEmpty)"

definition prepare_rollup_state_dir :: "path \<Rightarrow> existing_rollup_state \<Rightarrow> fs \<Rightarrow> config_error + fs" where
  "prepare_rollup_state_dir p policy fs =
     (case metadata p fs of
        Inr n \<Rightarrow>
          rbind (ensure (n = Dir) NotADir) (\<lambda>_.
          rbind (case policy of
                   Clobber \<Rightarrow> clear_directory p fs
                 | Error \<Rightarrow> rbind (ensure_directory_empty p fs) (\<lambda>_. Inr fs)
                 | Ignore \<Rightarrow> Inr fs) (\<lambda>fs.
          io_result (create_dir_all p fs)))
      | Inl e \<Rightarrow> if e = NotFound then io_result (create_dir_all p fs) else Inl (Io e))"

definition cleanup_rollup_state_dir :: "path \<Rightarrow> fs \<Rightarrow> config_error + fs" where
  "cleanup_rollup_state_dir p fs =
     (case metadata p fs of
        Inr n \<Rightarrow> rbind (ensure (n = Dir) NotADir) (\<lambda>_. clear_directory p fs)
      | Inl e \<Rightarrow> if e = NotFound then Inr fs else Inl (Io e))"

section \<open>Directories\<close>

record directories =
  rollup_root :: path
  acceptance_test_dir :: path
  rollup_build_cache_dir :: path
  manager_build_dir :: path
  output_dir :: path
  rollup_data_path :: path
  snapshots_dir :: path
  throughput_dir :: path

text \<open>\<open>cwd\<close> is the current directory, an absolute path.\<close>

fun absolutize_from_cwd :: "pathbuf \<Rightarrow> path \<Rightarrow> path" where
  "absolutize_from_cwd (Absolute p) cwd = p"
| "absolutize_from_cwd (Relative p) cwd = cwd @ p"

definition dir_or :: "pathbuf option \<Rightarrow> path \<Rightarrow> path \<Rightarrow> path" where
  "dir_or o' cwd d = (case o' of None \<Rightarrow> d | Some p \<Rightarrow> absolutize_from_cwd p cwd)"

definition from_settings_with_acceptance_dir_and_cwd ::
    "run_settings \<Rightarrow> pathbuf \<Rightarrow> path \<Rightarrow> fs \<Rightarrow> config_error + directories \<times> fs" where
  "from_settings_with_acceptance_dir_and_cwd s atd cwd fs =
     (let test_dir = absolutize_from_cwd atd cwd
      in rbind (map_err (\<lambda>_. NoTestDir) (metadata test_dir fs)) (\<lambda>n.
         rbind (ensure (n = Dir) NotADir) (\<lambda>_.
         rbind (case Option.bind (path_parent test_dir) path_parent of
                  None \<Rightarrow> Inl Panic | Some r \<Rightarrow> Inr r) (\<lambda>root.
         let cache = dir_or (binary_cache_dir s) cwd (test_dir @ [''rollup-build-cache''])
         in rbind (io_result (create_dir_all cache fs)) (\<lambda>fs.
         let output_root = dir_or (acceptance_data_dir s) cwd (test_dir @ [''acceptance-test-data'']);
             output = output_root @ [subdir (profile s)]
         in rbind (io_result (create_dir_all output fs)) (\<lambda>fs.
         let data = dir_or (rollup_state_dir s) cwd (output @ [''rollup-starter-data'']);
             snapshots = output @ [''snapshots'']
         in rbind (io_result (create_dir_all snapshots fs)) (\<lambda>fs.
         let throughput_root = dir_or (acceptance_throughput_dir s) cwd (test_dir @ [''acceptance-throughput'']);
             throughput = throughput_root @ [subdir (profile s)]
         in rbind (io_result (create_dir_all throughput fs)) (\<lambda>fs.
         Inr (\<lparr>rollup_root = root, acceptance_test_dir = test_dir, rollup_build_cache_dir = cache,
               manager_build_dir = test_dir @ [''rollup-manager-build''], output_dir = output,
               rollup_data_path = data, snapshots_dir = snapshots, throughput_dir = throughput\<rparr>, fs)))))))))"

text \<open>\<open>CARGO_MANIFEST_DIR\<close> is an argument.\<close>

definition from_settings :: "run_settings \<Rightarrow> pathbuf option \<Rightarrow> path \<Rightarrow> fs \<Rightarrow> config_error + directories \<times> fs" where
  "from_settings s manifest_dir cwd fs =
     from_settings_with_acceptance_dir_and_cwd s
       (unwrap_or manifest_dir (Relative [])) cwd fs"

section \<open>Saving and restoring the mock DA database\<close>

definition db_suffixes :: "string list" where
  "db_suffixes = ['''', ''-shm'', ''-wal'']"

definition mock_da :: "directories \<Rightarrow> string \<Rightarrow> path" where
  "mock_da d sfx = output_dir d @ [''mock_da.sqlite'' @ sfx]"

definition persistent_mock_da :: "directories \<Rightarrow> string \<Rightarrow> path" where
  "persistent_mock_da d sfx = output_dir d @ [''persistent_mock_da.sqlite'' @ sfx]"

text \<open>\<open>bin/setup.rs\<close> renames the files away after the setup run; only the base file has to exist.\<close>

definition save_mock_data :: "directories \<Rightarrow> fs \<Rightarrow> config_error + fs" where
  "save_mock_data d =
     rfold (\<lambda>sfx fs.
       case rename_file (mock_da d sfx) (persistent_mock_da d sfx) fs of
         Inr fs' \<Rightarrow> Inr fs'
       | Inl e \<Rightarrow> if sfx = '''' then Inl (Io e) else Inr fs) db_suffixes"

fun ignore_file_not_found :: "fs \<Rightarrow> fs_error + fs \<Rightarrow> config_error + fs" where
  "ignore_file_not_found fs (Inl e) = (if e = NotFound then Inr fs else Inl (Io e))"
| "ignore_file_not_found fs (Inr fs') = Inr fs'"

text \<open>\<open>main.rs\<close> copies them back before a test run.\<close>

definition copy_persistent_mock_data :: "directories \<Rightarrow> fs \<Rightarrow> config_error + fs" where
  "copy_persistent_mock_data d fs =
     rbind (rfold (\<lambda>sfx fs. ignore_file_not_found fs (remove_file (mock_da d sfx) fs)) db_suffixes fs) (\<lambda>fs.
     rbind (io_result (copy_file (persistent_mock_da d '''') (mock_da d '''') fs)) (\<lambda>fs.
     rfold (\<lambda>sfx fs. ignore_file_not_found fs (copy_file (persistent_mock_da d sfx) (mock_da d sfx) fs))
       [''-shm'', ''-wal''] fs))"

section \<open>Clearing a directory\<close>

lemma io_result_simps [simp]: "io_result (Inr x) = Inr x" "io_result (Inl e) = Inl (Io e)"
  by (simp_all add: io_result_def)

lemma child_of_iff: "child_of p q \<longleftrightarrow> (\<exists>x. q = p @ [x])"
  by (auto simp: child_of_def dest: append_butlast_last_id) (metis append_butlast_last_id)

text \<open>The body of the loop removes the entry with all below it.\<close>

definition remove_entry :: "path \<times> node \<Rightarrow> fs \<Rightarrow> config_error + fs" where
  "remove_entry e fs = io_result (if snd e = Dir then remove_dir_all (fst e) fs else remove_file (fst e) fs)"

lemma remove_entry_fun:
  "(\<lambda>(q, n) fs. io_result (if n = Dir then remove_dir_all q fs else remove_file q fs)) = remove_entry"
  by (auto simp: fun_eq_iff remove_entry_def)

lemma remove_entry_spec:
  assumes "wf_fs fs" "node_at (fst e) fs = Some (snd e)" "fst e \<noteq> []"
  shows "\<exists>fs'. remove_entry e fs = Inr fs' \<and> wf_fs fs' \<and>
    (\<forall>q. node_at q fs' = (if prefix (fst e) q then None else node_at q fs))"
proof (cases "snd e")
  case Dir
  with assms wf_cut_below [OF assms(1,3)] show ?thesis
    by (simp add: remove_entry_def remove_dir_all_def)
next
  case (File c)
  with assms have plain: "node_at (fst e) fs = Some (File c)" by simp
  have "node_at q fs = None" if "prefix (fst e) q" "q \<noteq> fst e" for q
    using wf_no_child_of_file [OF assms(1) plain] that by (simp add: strict_prefix_def)
  with File plain wf_cut_file [OF assms(1) plain] show ?thesis
    by (auto simp: remove_entry_def remove_file_def)
qed

lemma remove_entries_spec:
  assumes "wf_fs fs" "distinct (map fst es)"
    and "\<And>e. e \<in> set es \<Longrightarrow> child_of p (fst e) \<and> node_at (fst e) fs = Some (snd e)"
  shows "\<exists>fs'. rfold remove_entry es fs = Inr fs' \<and> wf_fs fs' \<and>
    (\<forall>q. node_at q fs' = (if \<exists>e \<in> set es. prefix (fst e) q then None else node_at q fs))"
  using assms
proof (induction es arbitrary: fs)
  case (Cons e es)
  have e: "child_of p (fst e)" "node_at (fst e) fs = Some (snd e)" using Cons.prems(3) by simp_all
  then have "fst e \<noteq> []" by (auto simp: child_of_def)
  from remove_entry_spec [OF Cons.prems(1) e(2) this] obtain fs1 where
    fs1: "remove_entry e fs = Inr fs1" "wf_fs fs1"
      "\<And>q. node_at q fs1 = (if prefix (fst e) q then None else node_at q fs)" by blast
  have rest: "child_of p (fst f) \<and> node_at (fst f) fs1 = Some (snd f)" if f: "f \<in> set es" for f
  proof -
    have "fst e \<notin> fst ` set es" using Cons.prems(2) by simp
    with f have "fst f \<noteq> fst e" by (metis image_eqI)
    moreover from f Cons.prems(3) have "child_of p (fst f)" by simp
    ultimately have "\<not> prefix (fst e) (fst f)" using e(1) by (auto simp: child_of_iff)
    with f Cons.prems(3) fs1(3) show ?thesis by simp
  qed
  have "distinct (map fst es)" using Cons.prems(2) by simp
  from Cons.IH [OF fs1(2) this rest] obtain fs2 where
    fs2: "rfold remove_entry es fs1 = Inr fs2" "wf_fs fs2"
      "\<And>q. node_at q fs2 = (if \<exists>e \<in> set es. prefix (fst e) q then None else node_at q fs1)" by blast
  with fs1 show ?case by auto
qed simp

lemma read_dir_entries:
  assumes "wf_fs fs" "node_at p fs = Some Dir"
  shows "\<exists>es. read_dir p fs = Inr es \<and> distinct (map fst es) \<and>
    (\<forall>q n. (q, n) \<in> set es \<longleftrightarrow> child_of p q \<and> node_at q fs = Some n)"
proof -
  have "distinct (map fst fs)" using assms(1) by (simp add: wf_fs_def)
  then have "(q, n) \<in> set fs \<longleftrightarrow> node_at q fs = Some n" for q n
    by (simp add: node_at_def)
  with assms(2) \<open>distinct (map fst fs)\<close> show ?thesis
    by (auto simp: read_dir_def distinct_map_filter)
qed

text \<open>Every path strictly below a directory goes through one of its entries.\<close>

lemma below_child:
  assumes "wf_fs fs" "strict_prefix p q" "node_at q fs = Some n"
  obtains c m where "child_of p c" "prefix c q" "node_at c fs = Some m"
proof -
  from assms(2) obtain x t where q: "q = p @ x # t" by (auto elim: strict_prefixE')
  have "\<exists>m. node_at (p @ [x]) fs = Some m"
  proof (cases "t = []")
    case True
    with q assms(3) show ?thesis by simp
  next
    case False
    then have "strict_prefix (p @ [x]) q" using q by (auto simp: strict_prefix_def)
    then show ?thesis using wf_ancestor [OF assms(1) _ assms(3)] by blast
  qed
  then show ?thesis using that [of "p @ [x]"] q by (auto simp: child_of_iff)
qed

lemma clear_directory_spec:
  assumes "wf_fs fs" "node_at p fs = Some Dir"
  shows "\<exists>fs'. clear_directory p fs = Inr fs' \<and> wf_fs fs' \<and>
    (\<forall>q. node_at q fs' = (if strict_prefix p q then None else node_at q fs))"
proof -
  from read_dir_entries [OF assms] obtain es where
    es: "read_dir p fs = Inr es" "distinct (map fst es)"
      "\<And>q n. (q, n) \<in> set es \<longleftrightarrow> child_of p q \<and> node_at q fs = Some n" by blast
  have "child_of p (fst e) \<and> node_at (fst e) fs = Some (snd e)" if "e \<in> set es" for e
    using es(3) [of "fst e" "snd e"] that by simp
  from remove_entries_spec [OF assms(1) es(2) this] obtain fs' where
    fs': "rfold remove_entry es fs = Inr fs'" "wf_fs fs'"
      "\<And>q. node_at q fs' = (if \<exists>e \<in> set es. prefix (fst e) q then None else node_at q fs)" by blast
  have "node_at q fs' = (if strict_prefix p q then None else node_at q fs)" for q
  proof (cases "strict_prefix p q")
    case True
    have "node_at q fs = None \<or> (\<exists>e \<in> set es. prefix (fst e) q)"
    proof (cases "node_at q fs")
      case (Some n)
      from below_child [OF assms(1) True Some] obtain c m where
        "child_of p c" "prefix c q" "node_at c fs = Some m" by blast
      then show ?thesis using es(3) [of c m] by force
    qed simp
    with True fs'(3) show ?thesis by auto
  next
    case False
    have "\<not> prefix (fst e) q" if "e \<in> set es" for e
      using es(3) [of "fst e" "snd e"] that False by (auto simp: child_of_iff strict_prefix_def prefix_def)
    with False fs'(3) show ?thesis by auto
  qed
  moreover have "clear_directory p fs = rfold remove_entry es fs"
    using es(1) by (simp add: clear_directory_def remove_entry_fun)
  ultimately show ?thesis using fs'(1,2) by auto
qed

section \<open>Preparing the state directory\<close>

definition below_empty :: "path \<Rightarrow> fs \<Rightarrow> bool" where
  "below_empty p fs \<longleftrightarrow> (\<forall>q. strict_prefix p q \<longrightarrow> node_at q fs = None)"

lemma ensure_directory_empty_iff:
  assumes "wf_fs fs" "node_at p fs = Some Dir"
  shows "ensure_directory_empty p fs = (if below_empty p fs then Inr () else Inl NotEmpty)"
proof -
  from read_dir_entries [OF assms] obtain es where
    es: "read_dir p fs = Inr es" "\<And>q n. (q, n) \<in> set es \<longleftrightarrow> child_of p q \<and> node_at q fs = Some n"
    by blast
  have "es = [] \<longleftrightarrow> below_empty p fs"
  proof
    assume "es = []"
    then have none: "node_at c fs \<noteq> Some m" if "child_of p c" for c m using es(2) that by force
    show "below_empty p fs"
      unfolding below_empty_def
    proof (intro allI impI)
      fix q
      assume q: "strict_prefix p q"
      show "node_at q fs = None"
      proof (rule ccontr)
        assume "node_at q fs \<noteq> None"
        then obtain n where "node_at q fs = Some n" by blast
        from below_child [OF assms(1) q this] none show False by blast
      qed
    qed
  next
    assume empty: "below_empty p fs"
    have "e \<notin> set es" for e
      using es(2) [of "fst e" "snd e"] empty
      by (auto simp: below_empty_def child_of_iff strict_prefix_def)
    then show "es = []" by (cases es) auto
  qed
  with es(1) show ?thesis by (simp add: ensure_directory_empty_def ensure_def)
qed

lemma create_existing:
  assumes "wf_fs fs" "node_at p fs = Some Dir"
  shows "\<exists>fs'. create_dir_all p fs = Inr fs' \<and> wf_fs fs' \<and> (\<forall>q. node_at q fs' = node_at q fs)"
proof -
  have dir: "node_at q fs = Some Dir" if "prefix q p" for q
    using wf_ancestor [OF assms(1) _ assms(2)] assms(2) that by (cases "q = p") (auto simp: strict_prefix_def)
  then have "\<not> is_file q fs" if "prefix q p" for q using that by (simp add: is_file_iff)
  with wf_mkdirs [OF assms(1), of p] dir show ?thesis
    by (auto simp: create_dir_all_def list_ex_iff node_at_mkdirs split: option.split)
qed

lemma create_missing:
  assumes "wf_fs fs" "node_at p fs = None" "\<And>q. prefix q p \<Longrightarrow> \<not> is_file q fs"
  shows "\<exists>fs'. create_dir_all p fs = Inr fs' \<and> wf_fs fs' \<and>
    (\<forall>q. node_at q fs' = (if prefix q p then Some Dir else node_at q fs))"
proof -
  have "node_at q fs = None \<or> node_at q fs = Some Dir" if "prefix q p" for q
    using assms(3) [OF that] by (cases "node_at q fs") (auto simp: is_file_iff intro: node.exhaust)
  with wf_mkdirs [OF assms(1,3)] assms(3) show ?thesis
    by (fastforce simp: create_dir_all_def list_ex_iff node_at_mkdirs split: option.split)
qed

lemma missing_eq: "missing p fs = (if \<exists>q. prefix q p \<and> is_file q fs then NotADirectory else NotFound)"
  by (auto simp: missing_def list_ex_iff)

text \<open>
  Preparing the state directory fails exactly if a file is in the way, or if the policy is to
  refuse a non-empty directory and there is one; otherwise the directory exists afterwards, with
  nothing below it under the clobber policy, and nothing outside it has changed.
\<close>

lemma prepare_rollup_state_dir_spec:
  assumes "wf_fs fs"
  shows "case prepare_rollup_state_dir p policy fs of
      Inl e \<Rightarrow> (\<exists>q. prefix q p \<and> is_file q fs) \<or> policy = Error \<and> \<not> below_empty p fs
    | Inr fs' \<Rightarrow>
        \<not> (\<exists>q. prefix q p \<and> is_file q fs) \<and> (policy = Error \<longrightarrow> below_empty p fs) \<and> wf_fs fs' \<and>
        (\<forall>q. node_at q fs' =
           (if prefix q p then Some Dir
            else if policy = Clobber \<and> strict_prefix p q then None else node_at q fs))"
proof (cases "node_at p fs")
  case None
  show ?thesis
  proof (cases "\<exists>q. prefix q p \<and> is_file q fs")
    case True
    with None show ?thesis by (simp add: prepare_rollup_state_dir_def metadata_def missing_eq)
  next
    case False
    have below: "node_at q fs = None" if "prefix p q" for q
      using wf_below_missing [OF assms None that] .
    from create_missing [OF assms None] False obtain fs' where
      "create_dir_all p fs = Inr fs'" "wf_fs fs'"
      "\<And>q. node_at q fs' = (if prefix q p then Some Dir else node_at q fs)" by blast
    with None False below show ?thesis
      by (auto simp: prepare_rollup_state_dir_def metadata_def missing_eq below_empty_def strict_prefix_def)
  qed
next
  case (Some n)
  show ?thesis
  proof (cases n)
    case (File c)
    with Some show ?thesis by (auto simp: prepare_rollup_state_dir_def metadata_def is_file_iff)
  next
    case Dir
    with Some have dir: "node_at p fs = Some Dir" by simp
    have up: "node_at q fs = Some Dir" if "prefix q p" for q
      using wf_ancestor [OF assms _ dir] dir that by (cases "q = p") (auto simp: strict_prefix_def)
    then have nofile: "\<not> (\<exists>q. prefix q p \<and> is_file q fs)" by (auto simp: is_file_iff)
    show ?thesis
    proof (cases policy)
      case Clobber
      from clear_directory_spec [OF assms dir] obtain fs1 where
        fs1: "clear_directory p fs = Inr fs1" "wf_fs fs1"
          "\<And>q. node_at q fs1 = (if strict_prefix p q then None else node_at q fs)" by blast
      then have "node_at p fs1 = Some Dir" using dir by simp
      from create_existing [OF fs1(2) this] obtain fs2 where
        "create_dir_all p fs1 = Inr fs2" "wf_fs fs2" "\<And>q. node_at q fs2 = node_at q fs1" by blast
      with fs1 dir up nofile Clobber show ?thesis
        by (auto simp: prepare_rollup_state_dir_def metadata_def strict_prefix_def)
    next
      case Error
      from create_existing [OF assms dir] obtain fs2 where
        "create_dir_all p fs = Inr fs2" "wf_fs fs2" "\<And>q. node_at q fs2 = node_at q fs" by blast
      with dir up nofile Error ensure_directory_empty_iff [OF assms dir] show ?thesis
        by (auto simp: prepare_rollup_state_dir_def metadata_def)
    next
      case Ignore
      from create_existing [OF assms dir] obtain fs2 where
        "create_dir_all p fs = Inr fs2" "wf_fs fs2" "\<And>q. node_at q fs2 = node_at q fs" by blast
      with dir up nofile Ignore show ?thesis
        by (auto simp: prepare_rollup_state_dir_def metadata_def)
    qed
  qed
qed

definition demo_fs :: fs where
  "demo_fs = [([], Dir), ([''state''], Dir), ([''state'', ''old''], File ''x''), ([''keep''], File ''y'')]"

lemma demo_fs_wf: "wf_fs demo_fs"
proof -
  have "node_at (butlast q) demo_fs = Some Dir" if "q \<noteq> []" "node_at q demo_fs \<noteq> None" for q
    using that by (auto simp: demo_fs_def node_at_def split: if_splits)
  then show ?thesis by (auto simp: wf_fs_def) (simp_all add: demo_fs_def node_at_def)
qed

lemma prepare_rollup_state_dir_spec_example:
  "\<exists>fs'. prepare_rollup_state_dir [''state''] Clobber demo_fs = Inr fs' \<and>
     node_at [''state'', ''old''] fs' = None \<and> node_at [''keep''] fs' = Some (File ''y'')"
proof -
  have "\<not> is_file q demo_fs" if "prefix q [''state'']" for q
    using that by (auto simp: prefix_Cons is_file_iff demo_fs_def node_at_def)
  with prepare_rollup_state_dir_spec [OF demo_fs_wf, of "[''state'']" Clobber] show ?thesis
    by (auto simp: strict_prefix_def demo_fs_def node_at_def split: sum.splits)
qed

text \<open>Cleaning up leaves the directory empty, or missing, and everything else as it was.\<close>

lemma cleanup_rollup_state_dir_spec:
  assumes "wf_fs fs" "cleanup_rollup_state_dir p fs = Inr fs'"
  shows "node_at q fs' = (if strict_prefix p q then None else node_at q fs)"
proof (cases "node_at p fs")
  case None
  with assms(2) have "fs' = fs"
    by (auto simp: cleanup_rollup_state_dir_def metadata_def split: if_splits)
  with None wf_below_missing [OF assms(1) None, of q] show ?thesis by (auto simp: strict_prefix_def)
next
  case (Some n)
  with assms(2) have "n = Dir" "clear_directory p fs = Inr fs'"
    by (auto simp: cleanup_rollup_state_dir_def metadata_def)
  with Some clear_directory_spec [OF assms(1), of p] show ?thesis by auto
qed

section \<open>The directories of a run\<close>

lemma from_settings_dirs:
  assumes "from_settings_with_acceptance_dir_and_cwd s atd cwd fs = Inr (d, fs')"
  shows "output_dir d = dir_or (acceptance_data_dir s) cwd
      (absolutize_from_cwd atd cwd @ [''acceptance-test-data'']) @ [subdir (profile s)]"
    and "snapshots_dir d = output_dir d @ [''snapshots'']"
    and "throughput_dir d = dir_or (acceptance_throughput_dir s) cwd
      (absolutize_from_cwd atd cwd @ [''acceptance-throughput'']) @ [subdir (profile s)]"
    and "rollup_data_path d = dir_or (rollup_state_dir s) cwd (output_dir d @ [''rollup-starter-data''])"
  using assms by (auto simp: from_settings_with_acceptance_dir_and_cwd_def Let_def)

text \<open>Runs of the two profiles with the same command line otherwise share no output directory.\<close>

lemma profiles_do_not_share:
  assumes "from_settings_with_acceptance_dir_and_cwd s atd cwd fs = Inr (d, fs1)" "profile s = Full"
    and "from_settings_with_acceptance_dir_and_cwd (s\<lparr>profile := Short\<rparr>) atd cwd fs1 = Inr (e, fs2)"
  shows "output_dir d \<parallel> output_dir e" "throughput_dir d \<parallel> throughput_dir e"
    "snapshots_dir d \<parallel> snapshots_dir e"
  using from_settings_dirs [OF assms(1)] from_settings_dirs [OF assms(3)] assms(2)
  by (auto simp: parallel_def prefix_def)

text \<open>The directories that are written to exist.\<close>

lemma node_not_file: "\<forall>c. n \<noteq> File c \<Longrightarrow> n = Dir"
  by (cases n) auto

lemma create_dir_all_Some:
  assumes "create_dir_all p fs = Inr fs'"
  shows "node_at p fs' = Some Dir" "node_at q fs = Some n \<Longrightarrow> node_at q fs' = Some n"
proof -
  have "\<not> is_file p fs" using assms by (auto simp: create_dir_all_def split: if_splits)
  with assms show "node_at p fs' = Some Dir"
    by (cases "node_at p fs") (auto simp: create_dir_all_def node_at_mkdirs is_file_iff
        split: if_splits option.splits dest: node_not_file)
  show "node_at q fs' = Some n" if "node_at q fs = Some n"
    using assms that by (auto simp: create_dir_all_def node_at_mkdirs split: if_splits)
qed

lemma from_settings_create:
  assumes "from_settings_with_acceptance_dir_and_cwd s atd cwd fs = Inr (d, fs')"
  shows "node_at (output_dir d) fs' = Some Dir" "node_at (snapshots_dir d) fs' = Some Dir"
    "node_at (throughput_dir d) fs' = Some Dir" "node_at (rollup_build_cache_dir d) fs' = Some Dir"
proof -
  from assms obtain f1 f2 f3 where
    c: "create_dir_all (rollup_build_cache_dir d) fs = Inr f1" "create_dir_all (output_dir d) f1 = Inr f2"
      "create_dir_all (snapshots_dir d) f2 = Inr f3" "create_dir_all (throughput_dir d) f3 = Inr fs'"
    by (auto simp: from_settings_with_acceptance_dir_and_cwd_def Let_def io_result_def)
  note made = c [THEN create_dir_all_Some(1)] and kept = c [THEN create_dir_all_Some(2)]
  show "node_at (throughput_dir d) fs' = Some Dir" by (rule made)
  show "node_at (snapshots_dir d) fs' = Some Dir" by (intro kept made)
  show "node_at (output_dir d) fs' = Some Dir" by (rule kept(4) kept(3) made)+
  show "node_at (rollup_build_cache_dir d) fs' = Some Dir" by (rule kept(4), rule kept(3), rule kept(2), rule made)
qed

lemma create_dir_all_wf: "wf_fs fs \<Longrightarrow> create_dir_all p fs = Inr fs' \<Longrightarrow> wf_fs fs'"
  by (auto simp: create_dir_all_def list_ex_iff intro!: wf_mkdirs split: if_splits)

lemma from_settings_wf:
  assumes "from_settings_with_acceptance_dir_and_cwd s atd cwd fs = Inr (d, fs')" "wf_fs fs"
  shows "wf_fs fs'" "node_at (acceptance_test_dir d) fs' = Some Dir"
proof -
  from assms(1) obtain f1 f2 f3 where
    c: "create_dir_all (rollup_build_cache_dir d) fs = Inr f1" "create_dir_all (output_dir d) f1 = Inr f2"
      "create_dir_all (snapshots_dir d) f2 = Inr f3" "create_dir_all (throughput_dir d) f3 = Inr fs'"
    and dir: "node_at (acceptance_test_dir d) fs = Some Dir"
    by (auto simp: from_settings_with_acceptance_dir_and_cwd_def Let_def io_result_def metadata_def ensure_def
        split: option.splits if_splits)
  show "wf_fs fs'" by (rule create_dir_all_wf [OF _ c(4)], rule create_dir_all_wf [OF _ c(3)],
      rule create_dir_all_wf [OF _ c(2)], rule create_dir_all_wf [OF assms(2) c(1)])
  show "node_at (acceptance_test_dir d) fs' = Some Dir"
    using dir c [THEN create_dir_all_Some(2)] by blast
qed

text \<open>Property C39. Setting up the directories of a run and then preparing the rollup state directory keeps
  the file system well formed (one entry per path, every entry in a directory), and afterwards the
  test directory, the build cache, the output, snapshot and throughput directories and the state
  directory all exist, except those that a user has placed below a state directory to be clobbered.\<close>

theorem run_directories_well_formed:
  assumes "wf_fs fs" "from_settings_with_acceptance_dir_and_cwd s atd cwd fs = Inr (d, fs1)"
    and "prepare_rollup_state_dir (rollup_data_path d) policy fs1 = Inr fs2"
  shows "wf_fs fs2 \<and> node_at (rollup_data_path d) fs2 = Some Dir \<and>
    (\<forall>p \<in> {acceptance_test_dir d, rollup_build_cache_dir d, output_dir d, snapshots_dir d, throughput_dir d}.
       node_at p fs2 =
         (if policy = Clobber \<and> strict_prefix (rollup_data_path d) p then None else Some Dir))"
proof -
  note made = from_settings_create [OF assms(2)] from_settings_wf(2) [OF assms(2,1)]
  have spec: "wf_fs fs2 \<and> (\<forall>q. node_at q fs2 =
       (if prefix q (rollup_data_path d) then Some Dir
        else if policy = Clobber \<and> strict_prefix (rollup_data_path d) q then None else node_at q fs1))"
    using prepare_rollup_state_dir_spec [OF from_settings_wf(1) [OF assms(2,1)], of "rollup_data_path d" policy] assms(3)
    by simp
  have "\<not> prefix p (rollup_data_path d)" if "strict_prefix (rollup_data_path d) p" for p
    using that by auto
  with spec made show ?thesis by auto
qed

definition demo_settings :: run_settings where
  "demo_settings = \<lparr>profile = Short, blocks_per_version = 30, full_slot_save_interval = 5, acceptance_data_dir = None,
     acceptance_throughput_dir = None, rollup_state_dir = None, on_existing_rollup_state = Clobber,
     postgres_docker_container_name = '''', binary_cache_dir = None\<rparr>"

definition demo_tree :: fs where
  "demo_tree = [([], Dir), ([''s''], Dir), ([''s'', ''t''], Dir)]"

definition demo_set_up :: "(directories \<times> fs \<times> fs) option" where
  "demo_set_up =
     (case from_settings_with_acceptance_dir_and_cwd demo_settings (Absolute [''s'', ''t'']) [] demo_tree of
        Inl e \<Rightarrow> None
      | Inr (d, fs1) \<Rightarrow>
          (case prepare_rollup_state_dir (rollup_data_path d) Clobber fs1 of
             Inl e \<Rightarrow> None | Inr fs2 \<Rightarrow> Some (d, fs1, fs2)))"

lemma demo_set_up_ok:
  "map_option (\<lambda>(d, fs1, fs2). (output_dir d, strict_prefix (rollup_data_path d) (output_dir d))) demo_set_up =
     Some ([''s'', ''t'', ''acceptance-test-data'', ''short''], False)"
  by code_simp

lemma demo_tree_wf: "wf_fs demo_tree"
proof -
  have "node_at (butlast q) demo_tree = Some Dir" if "q \<noteq> []" "node_at q demo_tree \<noteq> None" for q
    using that by (auto simp: demo_tree_def node_at_def split: if_splits)
  then show ?thesis by (auto simp: wf_fs_def) (simp_all add: demo_tree_def node_at_def)
qed

lemma run_directories_well_formed_witness:
  "\<exists>d fs1 fs2. demo_set_up = Some (d, fs1, fs2) \<and> wf_fs fs2 \<and>
     node_at [''s'', ''t'', ''acceptance-test-data'', ''short''] fs2 = Some Dir"
proof -
  from demo_set_up_ok obtain d fs1 fs2 where r: "demo_set_up = Some (d, fs1, fs2)"
      "output_dir d = [''s'', ''t'', ''acceptance-test-data'', ''short'']"
      "\<not> strict_prefix (rollup_data_path d) (output_dir d)" by auto
  then have ok: "from_settings_with_acceptance_dir_and_cwd demo_settings (Absolute [''s'', ''t'']) [] demo_tree = Inr (d, fs1)"
    "prepare_rollup_state_dir (rollup_data_path d) Clobber fs1 = Inr fs2"
    by (auto simp: demo_set_up_def split: sum.splits)
  from run_directories_well_formed [OF demo_tree_wf ok] r show ?thesis by auto
qed

section \<open>The database survives a test run\<close>

lemma write_file_spec:
  assumes "write_file p c fs = Inr fs'"
  shows "node_at q fs' = (if q = p then Some (File c) else node_at q fs)"
  using assms by (auto simp: write_file_def split: if_splits)

lemma read_file_iff: "read_to_string p fs = Inr c \<longleftrightarrow> node_at p fs = Some (File c)"
  by (auto simp: read_to_string_def split: option.splits node.splits)

lemma rename_file_spec:
  assumes "rename_file p q fs = Inr fs'" "p \<noteq> q"
  shows "\<exists>c. node_at p fs = Some (File c) \<and>
    (\<forall>r. node_at r fs' = (if r = q then Some (File c) else if r = p then None else node_at r fs))"
  using assms by (auto simp: rename_file_def read_file_iff write_file_spec)

lemma copy_file_spec:
  assumes "copy_file p q fs = Inr fs'"
  shows "\<exists>c. node_at p fs = Some (File c) \<and>
    (\<forall>r. node_at r fs' = (if r = q then Some (File c) else node_at r fs))"
  using assms by (auto simp: copy_file_def read_file_iff write_file_spec)


lemma mock_da_distinct [simp]:
  "mock_da d a = mock_da d b \<longleftrightarrow> a = b" "persistent_mock_da d a = persistent_mock_da d b \<longleftrightarrow> a = b"
  "mock_da d a \<noteq> persistent_mock_da d b" "persistent_mock_da d b \<noteq> mock_da d a"
  by (auto simp: mock_da_def persistent_mock_da_def)

lemma mock_da_parent [simp]:
  "butlast (mock_da d x) = output_dir d" "butlast (persistent_mock_da d x) = output_dir d"
  "mock_da d x \<noteq> []" "persistent_mock_da d x \<noteq> []"
  "mock_da d x \<noteq> output_dir d" "persistent_mock_da d x \<noteq> output_dir d"
  "output_dir d \<noteq> mock_da d x" "output_dir d \<noteq> persistent_mock_da d x"
  by (simp_all add: mock_da_def persistent_mock_da_def)

text \<open>One step of saving, and of restoring, in a directory that exists.\<close>

definition save_step :: "directories \<Rightarrow> string \<Rightarrow> fs \<Rightarrow> config_error + fs" where
  "save_step d sfx fs =
     (case rename_file (mock_da d sfx) (persistent_mock_da d sfx) fs of
        Inr fs' \<Rightarrow> Inr fs' | Inl e \<Rightarrow> if sfx = '''' then Inl (Io e) else Inr fs)"

lemma save_mock_data_steps: "save_mock_data d = rfold (save_step d) db_suffixes"
  by (simp add: save_mock_data_def save_step_def [abs_def])

lemma save_step_spec:
  assumes "save_step d sfx fs = Inr fs'" "node_at (output_dir d) fs = Some Dir"
    and "node_at (persistent_mock_da d sfx) fs \<noteq> Some Dir" "node_at (mock_da d sfx) fs \<noteq> Some Dir"
  shows "node_at r fs' =
    (if node_at (mock_da d sfx) fs = None then node_at r fs
     else if r = persistent_mock_da d sfx then node_at (mock_da d sfx) fs
     else if r = mock_da d sfx then None else node_at r fs)"
proof (cases "node_at (mock_da d sfx) fs")
  case None
  with assms(1) have "fs' = fs"
    by (auto simp: save_step_def rename_file_def read_to_string_def split: if_splits)
  with None show ?thesis by simp
next
  case (Some n)
  with assms(4) obtain c where c: "node_at (mock_da d sfx) fs = Some (File c)" by (cases n) auto
  with assms(2,3) have "write_file (persistent_mock_da d sfx) c fs = Inr (put (persistent_mock_da d sfx) (File c) fs)"
    by (simp add: write_file_def)
  with c assms(1) have "rename_file (mock_da d sfx) (persistent_mock_da d sfx) fs = Inr fs'"
    by (simp add: save_step_def rename_file_def read_to_string_def)
  from rename_file_spec [OF this] c show ?thesis by auto
qed

lemma remove_step_spec:
  assumes "ignore_file_not_found fs (remove_file p fs) = Inr fs'"
  shows "node_at r fs' = (if r = p then None else node_at r fs)"
  using assms by (auto simp: remove_file_def split: option.splits node.splits if_splits)

lemma restore_step_spec:
  assumes "ignore_file_not_found fs (copy_file (persistent_mock_da d sfx) (mock_da d sfx) fs) = Inr fs'"
    and "node_at (output_dir d) fs = Some Dir"
  shows "node_at r fs' =
    (if r = mock_da d sfx \<and> node_at (persistent_mock_da d sfx) fs \<noteq> None
     then node_at (persistent_mock_da d sfx) fs else node_at r fs)"
  using assms
  by (auto simp: copy_file_def read_to_string_def write_file_def missing_def
      split: option.splits node.splits if_splits)

lemma save_mock_data_spec:
  assumes "save_mock_data d fs = Inr fs1" "node_at (output_dir d) fs = Some Dir"
    and "\<forall>x \<in> set db_suffixes. node_at (mock_da d x) fs \<noteq> Some Dir \<and>
      node_at (persistent_mock_da d x) fs \<noteq> Some Dir"
  shows "\<forall>x \<in> set db_suffixes. node_at (persistent_mock_da d x) fs1 =
    (if node_at (mock_da d x) fs = None then node_at (persistent_mock_da d x) fs else node_at (mock_da d x) fs)"
proof -
  from assms(1) obtain f1 f2 where
    s: "save_step d '''' fs = Inr f1" "save_step d ''-shm'' f1 = Inr f2" "save_step d ''-wal'' f2 = Inr fs1"
    by (auto simp: save_mock_data_steps db_suffixes_def)
  note n0 = save_step_spec [OF s(1) assms(2)]
  have n1: "node_at r f1 =
    (if node_at (mock_da d '''') fs = None then node_at r fs
     else if r = persistent_mock_da d '''' then node_at (mock_da d '''') fs
     else if r = mock_da d '''' then None else node_at r fs)" for r
    by (rule n0) (use assms(3) in \<open>simp_all add: db_suffixes_def\<close>)
  have n2: "node_at r f2 =
    (if node_at (mock_da d ''-shm'') f1 = None then node_at r f1
     else if r = persistent_mock_da d ''-shm'' then node_at (mock_da d ''-shm'') f1
     else if r = mock_da d ''-shm'' then None else node_at r f1)" for r
    by (rule save_step_spec [OF s(2)]) (use assms(2,3) in \<open>simp_all add: n1 db_suffixes_def\<close>)
  have n3: "node_at r fs1 =
    (if node_at (mock_da d ''-wal'') f2 = None then node_at r f2
     else if r = persistent_mock_da d ''-wal'' then node_at (mock_da d ''-wal'') f2
     else if r = mock_da d ''-wal'' then None else node_at r f2)" for r
    by (rule save_step_spec [OF s(3)]) (use assms(2,3) in \<open>simp_all add: n1 n2 db_suffixes_def\<close>)
  show ?thesis by (simp add: db_suffixes_def n1 n2 n3)
qed

lemma copy_persistent_spec:
  assumes "copy_persistent_mock_data d fs = Inr fs'" "node_at (output_dir d) fs = Some Dir"
  shows "\<forall>x \<in> set db_suffixes. node_at (mock_da d x) fs' = node_at (persistent_mock_da d x) fs"
proof -
  let ?rm = "\<lambda>x f. ignore_file_not_found f (remove_file (mock_da d x) f)"
  let ?cp = "\<lambda>x f. ignore_file_not_found f (copy_file (persistent_mock_da d x) (mock_da d x) f)"
  from assms(1) obtain f1 f2 f3 f4 f5 where
    r: "?rm '''' fs = Inr f1" "?rm ''-shm'' f1 = Inr f2" "?rm ''-wal'' f2 = Inr f3"
    and c: "copy_file (persistent_mock_da d '''') (mock_da d '''') f3 = Inr f4"
      "?cp ''-shm'' f4 = Inr f5" "?cp ''-wal'' f5 = Inr fs'"
    by (auto simp: copy_persistent_mock_data_def db_suffixes_def io_result_def)
  note gone = r [THEN remove_step_spec]
  from copy_file_spec [OF c(1)] gone have n4: "node_at r f4 =
    (if r = mock_da d '''' then node_at (persistent_mock_da d '''') fs else node_at r f3)" for r
    by auto
  have n5: "node_at r f5 = (if r = mock_da d ''-shm'' \<and> node_at (persistent_mock_da d ''-shm'') f4 \<noteq> None
     then node_at (persistent_mock_da d ''-shm'') f4 else node_at r f4)" for r
    by (rule restore_step_spec [OF c(2)]) (use assms(2) in \<open>simp add: n4 gone\<close>)
  have n6: "node_at r fs' = (if r = mock_da d ''-wal'' \<and> node_at (persistent_mock_da d ''-wal'') f5 \<noteq> None
     then node_at (persistent_mock_da d ''-wal'') f5 else node_at r f5)" for r
    by (rule restore_step_spec [OF c(3)]) (use assms(2) in \<open>simp add: n5 n4 gone\<close>)
  show ?thesis by (simp add: db_suffixes_def n6 n5 n4 gone)
qed

text \<open>
  What the setup run saves of its database is what a later test run starts from, whatever
  happened to the working files in between: all three files are restored as they were, and a file
  the setup run did not have is missing again. The latter needs that no older run had saved one:
  saving does not remove a file that this run does not have (\<open>stale_database_restored\<close>).
\<close>

lemma mock_data_roundtrip:
  assumes "save_mock_data d fs = Inr fs1" "copy_persistent_mock_data d fs2 = Inr fs3"
    and "node_at (output_dir d) fs = Some Dir" "node_at (output_dir d) fs2 = Some Dir"
    and "\<forall>x \<in> set db_suffixes. node_at (mock_da d x) fs \<noteq> Some Dir \<and>
      node_at (persistent_mock_da d x) fs \<noteq> Some Dir"
    and "\<forall>x \<in> set db_suffixes. node_at (mock_da d x) fs = None \<longrightarrow> node_at (persistent_mock_da d x) fs = None"
    and "\<forall>x \<in> set db_suffixes. node_at (persistent_mock_da d x) fs2 = node_at (persistent_mock_da d x) fs1"
  shows "\<forall>x \<in> set db_suffixes. node_at (mock_da d x) fs3 = node_at (mock_da d x) fs"
  using save_mock_data_spec [OF assms(1,3,5)] copy_persistent_spec [OF assms(2,4)] assms(6,7) by auto

definition demo_dirs :: directories where
  "demo_dirs = \<lparr>rollup_root = [], acceptance_test_dir = [], rollup_build_cache_dir = [], manager_build_dir = [],
     output_dir = [''o''], rollup_data_path = [], snapshots_dir = [], throughput_dir = []\<rparr>"

definition demo_output :: "(string \<times> string) list \<Rightarrow> fs" where
  "demo_output files = [([], Dir), ([''o''], Dir)] @ map (\<lambda>(name, c). ([''o'', name], File c)) files"

lemma demo_saved:
  "save_mock_data demo_dirs (demo_output [(''mock_da.sqlite'', ''base''), (''mock_da.sqlite-wal'', ''log'')]) =
     Inr ([([''o'', ''persistent_mock_da.sqlite-wal''], File ''log''),
           ([''o'', ''persistent_mock_da.sqlite''], File ''base'')] @ demo_output [])"
  by code_simp

lemma demo_restored:
  "copy_persistent_mock_data demo_dirs
     (demo_output [(''persistent_mock_da.sqlite'', ''base''), (''persistent_mock_da.sqlite-wal'', ''log''),
       (''mock_da.sqlite'', ''grown'')]) =
     Inr ([([''o'', ''mock_da.sqlite-wal''], File ''log''), ([''o'', ''mock_da.sqlite''], File ''base'')] @
       demo_output [(''persistent_mock_da.sqlite'', ''base''), (''persistent_mock_da.sqlite-wal'', ''log'')])"
  by code_simp

lemma mock_data_roundtrip_example:
  "let fs = demo_output [(''mock_da.sqlite'', ''base''), (''mock_da.sqlite-wal'', ''log'')];
       fs3 = [([''o'', ''mock_da.sqlite-wal''], File ''log''), ([''o'', ''mock_da.sqlite''], File ''base'')] @
         demo_output [(''persistent_mock_da.sqlite'', ''base''), (''persistent_mock_da.sqlite-wal'', ''log'')]
   in (node_at (mock_da demo_dirs '''') fs3, node_at (mock_da demo_dirs ''-shm'') fs3, node_at (mock_da demo_dirs ''-wal'') fs3) =
      (node_at (mock_da demo_dirs '''') fs, node_at (mock_da demo_dirs ''-shm'') fs, node_at (mock_da demo_dirs ''-wal'') fs)"
proof -
  note defs = demo_output_def demo_dirs_def node_at_def mock_da_def persistent_mock_da_def db_suffixes_def
  from mock_data_roundtrip [OF demo_saved demo_restored] show ?thesis
    by (simp add: defs)
qed

text \<open>A \<open>-wal\<close> file an older run had saved comes back next to the new database.\<close>

lemma stale_database_restored:
  "rbind (save_mock_data demo_dirs
       (demo_output [(''mock_da.sqlite'', ''new''), (''persistent_mock_da.sqlite-wal'', ''old log'')]))
     (copy_persistent_mock_data demo_dirs) =
   Inr ([([''o'', ''mock_da.sqlite-wal''], File ''old log''), ([''o'', ''mock_da.sqlite''], File ''new''),
     ([''o'', ''persistent_mock_da.sqlite''], File ''new'')] @
     demo_output [(''persistent_mock_da.sqlite-wal'', ''old log'')])"
  by code_simp

end
