(* ===== verification/Acceptance_Plan.thy ===== *)
theory Acceptance_Plan
  imports Acceptance_Config Rust_Str
begin

text \<open>
  How the acceptance test plans a run over several versions of the rollup
  (\<open>scripts/acceptance-test/src/versioned_setup.rs\<close>): which versions there are, the binaries and the
  configuration of each, and the heights at which the rollup manager switches from one to the
  next. The YAML parser, the artifact builder of the SDK and the commands \<open>git\<close> and \<open>cargo\<close> are
  fields of the record \<open>tools\<close>; a command may change the file system.
\<close>

section \<open>Versions\<close>

datatype version_source = RemoteCommit string | LocalHead

record resolved_version =
  source :: version_source
  migration :: "pathbuf option"

record version_spec_entry =
  version_id :: string
  vars_file :: pathbuf
  spec_migration :: "pathbuf option"

record command =
  program :: string
  args :: "string list"
  current_dir :: "path option"

record artifacts =
  art_rollup_binary :: path
  art_soak_binary :: "path option"

record tools =
  parse_version_spec :: "string \<Rightarrow> version_spec_entry list option"
  parse_version_vars :: "string \<Rightarrow> string option"
  run_tool :: "command \<Rightarrow> fs \<Rightarrow> bool option \<times> fs"
  prepare_artifacts :: "string list \<Rightarrow> fs \<Rightarrow> artifacts list option \<times> fs"
  read_text_file_at_commit :: "string \<Rightarrow> path \<Rightarrow> fs \<Rightarrow> string option"

datatype plan_error =
    PlanIo fs_error | BadVersionSpec | BadVars string | EmptyCommit string
  | NotSpawned string | ToolFailed string | RollupBinaryMissing | SoakBinaryMissing | ManagerBinaryMissing
  | ArtifactsNotBuilt | MissingArtifacts string | MissingSoakBinary string | NoTemplate string | NoStopHeight

abbreviation plan_io :: "fs_error + 'a \<Rightarrow> plan_error + 'a" where
  "plan_io \<equiv> map_err PlanIo"

definition resolve_against :: "path \<Rightarrow> pathbuf \<Rightarrow> path" where
  "resolve_against d p = absolutize_from_cwd p d"

definition load_entry :: "tools \<Rightarrow> path \<Rightarrow> fs \<Rightarrow> version_spec_entry \<Rightarrow> plan_error + resolved_version" where
  "load_entry t spec_dir fs e =
     rbind (plan_io (read_to_string (resolve_against spec_dir (vars_file e)) fs)) (\<lambda>contents.
     case parse_version_vars t contents of
       None \<Rightarrow> Inl (BadVars (version_id e))
     | Some commit \<Rightarrow>
         if trim commit = [] then Inl (EmptyCommit (version_id e))
         else Inr \<lparr>source = RemoteCommit commit, migration = spec_migration e\<rparr>)"

definition load_version_sources :: "tools \<Rightarrow> directories \<Rightarrow> fs \<Rightarrow> plan_error + resolved_version list" where
  "load_version_sources t d fs =
     (let spec_path = rollup_root d @ [''versions.yaml'']
      in if \<not> exists_at spec_path fs then Inr [\<lparr>source = LocalHead, migration = None\<rparr>]
         else rbind (plan_io (read_to_string spec_path fs)) (\<lambda>contents.
           case parse_version_spec t contents of
             None \<Rightarrow> Inl BadVersionSpec
           | Some entries \<Rightarrow>
               rbind (rmap (load_entry t (rollup_root d) fs) entries) (\<lambda>versions.
               if versions = [] then Inr [\<lparr>source = LocalHead, migration = None\<rparr>]
               else Inr (butlast versions @ [(last versions)\<lparr>source := LocalHead\<rparr>]))))"

section \<open>Building\<close>

definition run_checked :: "tools \<Rightarrow> command \<Rightarrow> string \<Rightarrow> fs \<Rightarrow> plan_error + fs" where
  "run_checked t c what fs =
     (case run_tool t c fs of
        (None, fs') \<Rightarrow> Inl (NotSpawned what)
      | (Some True, fs') \<Rightarrow> Inr fs'
      | (Some False, fs') \<Rightarrow> Inl (ToolFailed what))"

definition acceptance_test_feature_list :: string where
  "acceptance_test_feature_list = ''acceptance-testing,mock_da,mock_zkvm''"

definition cargo_build :: "path \<Rightarrow> string \<Rightarrow> string \<Rightarrow> command" where
  "cargo_build root package bin =
     \<lparr>program = ''cargo'',
      args = [''build'', ''--release'', ''--package'', package, ''--bin'', bin, ''--no-default-features'',
        ''--features'', acceptance_test_feature_list],
      current_dir = Some root\<rparr>"

definition build_local_head_binaries :: "tools \<Rightarrow> path \<Rightarrow> fs \<Rightarrow> plan_error + (path \<times> path) \<times> fs" where
  "build_local_head_binaries t root fs =
     rbind (run_checked t (cargo_build root ''rollup-starter'' ''rollup'') ''build local head rollup binary'' fs) (\<lambda>fs.
     rbind (run_checked t (cargo_build root ''rollup-starter-soak-test'' ''rollup-starter-soak-test'')
        ''build local head soak binary'' fs) (\<lambda>fs.
     let release = root @ [''target'', ''release''];
         rollup_bin = release @ [''rollup'']
     in if \<not> exists_at rollup_bin fs then Inl RollupBinaryMissing
        else rbind (if exists_at (release @ [''rollup-starter-soak-test'']) fs
                      then Inr (release @ [''rollup-starter-soak-test''])
                    else if exists_at (release @ [''subscriber'']) fs then Inr (release @ [''subscriber''])
                    else Inl SoakBinaryMissing) (\<lambda>soak_bin.
             rbind (plan_io (canonicalize rollup_bin fs)) (\<lambda>r.
             rbind (plan_io (canonicalize soak_bin fs)) (\<lambda>s.
             Inr ((r, s), fs))))))"

definition path_display :: "path \<Rightarrow> string" where
  "path_display p = (if p = [] then ''/'' else concat (map (\<lambda>n. ''/'' @ n) p))"

definition build_rollup_manager_binary :: "tools \<Rightarrow> path \<Rightarrow> fs \<Rightarrow> plan_error + path \<times> fs" where
  "build_rollup_manager_binary t root fs =
     rbind (if exists_at root fs then plan_io (remove_dir_all root fs) else Inr fs) (\<lambda>fs.
     rbind (plan_io (create_dir_all root fs)) (\<lambda>fs.
     let repo = root @ [''repo'']
     in rbind (run_checked t \<lparr>program = ''git'',
            args = [''clone'', ''--depth'', ''1'', ''--branch'', ''master'',
              ''https://github.com/Sovereign-Labs/sov-rollup-manager'', path_display repo],
            current_dir = None\<rparr> ''clone sov-rollup-manager'' fs) (\<lambda>fs.
        rbind (run_checked t \<lparr>program = ''cargo'', args = [''build'', ''--release'', ''--bin'', ''sov-rollup-manager''],
            current_dir = Some repo\<rparr> ''build sov-rollup-manager'' fs) (\<lambda>fs.
        let bin = repo @ [''target'', ''release'', ''sov-rollup-manager'']
        in if \<not> exists_at bin fs then Inl ManagerBinaryMissing
           else rbind (plan_io (canonicalize bin fs)) (\<lambda>b. Inr (b, fs))))))"

section \<open>Configuration files\<close>

text \<open>\<open>str::replace\<close> with a non-empty pattern.\<close>

function str_replace :: "string \<Rightarrow> string \<Rightarrow> string \<Rightarrow> string" where
  "str_replace p to [] = []"
| "str_replace p to (c # s) =
     (if p \<noteq> [] \<and> starts_with p (c # s) then to @ str_replace p to (drop (length p) (c # s))
      else c # str_replace p to s)"
  by pat_completeness auto
termination
  by (relation "measure (\<lambda>(p, to, s). length s)") (auto simp: starts_with_iff)

definition render_config_template :: "string \<Rightarrow> string \<Rightarrow> directories \<Rightarrow> string" where
  "render_config_template config_content password d =
     str_replace ''{rollup_data_path}'' (path_display (rollup_data_path d))
      (str_replace ''{sqlite_connection_string}''
        (''sqlite://'' @ path_display (output_dir d @ [''mock_da.sqlite'']) @ ''?mode=rwc'')
        (str_replace ''{password}'' password config_content))"

section \<open>The plan\<close>

record rollup_version =
  rollup_binary :: path
  version_config :: path
  migration_path :: "path option"
  start_height :: "u64 option"
  stop_height :: "u64 option"

record soak_plan =
  num_workers :: u32
  salt :: u32
  soak_versions :: "(path \<times> u64) list"
  safety_stop_blocks :: u64

record run_plan =
  manager_binary :: path
  manager_versions :: "rollup_version list"
  soak_config :: soak_plan

definition remote_commits :: "resolved_version list \<Rightarrow> string list" where
  "remote_commits vs =
     List.map_filter (\<lambda>v. case source v of RemoteCommit c \<Rightarrow> Some c | LocalHead \<Rightarrow> None) vs"

definition resolve_migration :: "directories \<Rightarrow> fs \<Rightarrow> pathbuf option \<Rightarrow> plan_error + path option" where
  "resolve_migration d fs m =
     (case m of
        None \<Rightarrow> Inr None
      | Some p \<Rightarrow> rbind (plan_io (canonicalize (resolve_against (rollup_root d) p) fs)) (\<lambda>q. Inr (Some q)))"

definition template_path :: path where
  "template_path = [''scripts'', ''acceptance-test'', ''rollup_config.toml'']"

text \<open>The binaries, the configuration template and the migration of one version; \<open>arts\<close> is what is
  left of the iterator over the remote artifacts (\<open>None\<close> when no version is remote).\<close>

definition version_inputs ::
    "tools \<Rightarrow> directories \<Rightarrow> path \<times> path \<Rightarrow> resolved_version \<Rightarrow> artifacts list option \<Rightarrow> fs \<Rightarrow>
     plan_error + (path \<times> path \<times> string \<times> path option) \<times> artifacts list option" where
  "version_inputs t d local v arts fs =
     (case source v of
        RemoteCommit commit \<Rightarrow>
          (case arts of
             None \<Rightarrow> Inl (MissingArtifacts commit)
           | Some [] \<Rightarrow> Inl (MissingArtifacts commit)
           | Some (a # rest) \<Rightarrow>
               (case art_soak_binary a of
                  None \<Rightarrow> Inl (MissingSoakBinary commit)
                | Some soak \<Rightarrow>
                    (case read_text_file_at_commit t commit template_path fs of
                       None \<Rightarrow> Inl (NoTemplate commit)
                     | Some template \<Rightarrow>
                         rbind (resolve_migration d fs (migration v)) (\<lambda>m.
                         rbind (plan_io (canonicalize (art_rollup_binary a) fs)) (\<lambda>r.
                         rbind (plan_io (canonicalize soak fs)) (\<lambda>s.
                         Inr ((r, s, template, m), Some rest)))))))
      | LocalHead \<Rightarrow>
          rbind (resolve_migration d fs (migration v)) (\<lambda>m.
          rbind (plan_io (read_to_string (acceptance_test_dir d @ [''rollup_config.toml'']) fs)) (\<lambda>template.
          Inr ((fst local, snd local, template, m), arts))))"

fun plan_versions ::
    "tools \<Rightarrow> directories \<Rightarrow> string \<Rightarrow> u64 \<Rightarrow> path \<times> path \<Rightarrow> nat \<Rightarrow> resolved_version list \<Rightarrow> artifacts list option \<Rightarrow> fs \<Rightarrow>
     plan_error + (rollup_version \<times> path \<times> u64) list \<times> fs" where
  "plan_versions t d password blocks local idx [] arts fs = Inr ([], fs)"
| "plan_versions t d password blocks local idx (v # vs) arts fs =
     (let stop = (of_nat idx + 1) * blocks;
          start = (if idx = 0 then None else Some (of_nat idx * blocks + 1))
      in rbind (version_inputs t d local v arts fs) (\<lambda>((rollup_bin, soak_bin, template, m), arts').
         let config = output_dir d @ [''versioned-configs''] @ [''config_'' @ show_nat idx @ ''.toml'']
         in rbind (plan_io (write_file config (render_config_template template password d) fs)) (\<lambda>fs'.
         rbind (plan_versions t d password blocks local (idx + 1) vs arts' fs') (\<lambda>(rest, fs'').
         Inr ((\<lparr>rollup_binary = rollup_bin, version_config = config, migration_path = m,
                start_height = start, stop_height = Some stop\<rparr>, soak_bin, stop) # rest, fs'')))))"

definition prepare_acceptance_run_plan ::
    "tools \<Rightarrow> directories \<Rightarrow> string \<Rightarrow> u64 \<Rightarrow> fs \<Rightarrow> plan_error + run_plan \<times> fs" where
  "prepare_acceptance_run_plan t d password blocks fs =
     rbind (plan_io (create_dir_all (rollup_build_cache_dir d) fs)) (\<lambda>fs.
     rbind (load_version_sources t d fs) (\<lambda>vs.
     rbind (if remote_commits vs = [] then Inr (None, fs)
            else (case prepare_artifacts t (remote_commits vs) fs of
                    (None, fs') \<Rightarrow> Inl ArtifactsNotBuilt
                  | (Some as, fs') \<Rightarrow> Inr (Some as, fs'))) (\<lambda>(arts, fs).
     rbind (build_local_head_binaries t (rollup_root d) fs) (\<lambda>(local, fs).
     rbind (plan_io (create_dir_all (output_dir d @ [''versioned-configs'']) fs)) (\<lambda>fs.
     rbind (plan_versions t d password blocks local 0 vs arts fs) (\<lambda>(planned, fs).
     rbind (build_rollup_manager_binary t (manager_build_dir d) fs) (\<lambda>(manager, fs).
     Inr (\<lparr>manager_binary = manager, manager_versions = map fst planned,
           soak_config = \<lparr>num_workers = 20, salt = 3, soak_versions = map snd planned, safety_stop_blocks = 5\<rparr>\<rparr>,
          fs))))))))"

text \<open>The test run goes on for another span of blocks with the last version; a version without a
  stop height is a panic.\<close>

definition extend_last_stop_height :: "rollup_version list \<Rightarrow> u64 \<Rightarrow> plan_error + rollup_version list" where
  "extend_last_stop_height vs extra =
     (if extra = 0 \<or> vs = [] then Inr vs
      else (case stop_height (last vs) of
              None \<Rightarrow> Inl NoStopHeight
            | Some stop \<Rightarrow> Inr (butlast vs @ [(last vs)\<lparr>stop_height := Some (stop + extra)\<rparr>])))"

definition write_manager_config ::
    "(rollup_version list \<Rightarrow> string) \<Rightarrow> path \<Rightarrow> rollup_version list \<Rightarrow> fs \<Rightarrow> plan_error + fs" where
  "write_manager_config to_json p vs fs =
     rbind (case path_parent p of None \<Rightarrow> Inr fs | Some q \<Rightarrow> plan_io (create_dir_all q fs)) (\<lambda>fs.
     plan_io (write_file p (to_json vs) fs))"

definition manager_command :: "path \<Rightarrow> path \<Rightarrow> directories \<Rightarrow> command" where
  "manager_command manager config d =
     \<lparr>program = path_display manager,
      args = [''-c'', path_display config, ''--no-checkpoint-file'', ''--'', ''--genesis-path'',
        path_display (acceptance_test_dir d @ [''genesis.json''])],
      current_dir = Some (rollup_root d)\<rparr>"

section \<open>What is planned\<close>

text \<open>The last version is the local one, all others name a commit.\<close>

lemma load_entry_remote: "load_entry t p fs e = Inr v \<Longrightarrow> \<exists>c. source v = RemoteCommit c \<and> trim c \<noteq> []"
  by (auto simp: load_entry_def split: option.splits if_splits)

lemma rmap_all:
  assumes "rmap f xs = Inr ys" "\<And>x y. f x = Inr y \<Longrightarrow> P y" "y \<in> set ys"
  shows "P y"
  using assms(1,3)
proof (induction xs arbitrary: ys)
  case (Cons x xs)
  with assms(2) show ?case by fastforce
qed simp

lemma load_version_sources_shape:
  assumes "load_version_sources t d fs = Inr vs"
  shows "vs \<noteq> []" "source (last vs) = LocalHead"
    "\<forall>v \<in> set (butlast vs). \<exists>c. source v = RemoteCommit c \<and> trim c \<noteq> []"
proof -
  have "vs \<noteq> [] \<and> source (last vs) = LocalHead \<and>
    (\<forall>v \<in> set (butlast vs). \<exists>c. source v = RemoteCommit c \<and> trim c \<noteq> [])"
  proof (cases "vs = [\<lparr>source = LocalHead, migration = None\<rparr>]")
    case False
    with assms obtain entries loaded where
      ld: "rmap (load_entry t (rollup_root d) fs) entries = Inr loaded" "loaded \<noteq> []"
        "vs = butlast loaded @ [(last loaded)\<lparr>source := LocalHead\<rparr>]"
      by (auto simp: load_version_sources_def Let_def split: if_splits option.splits)
    have "\<exists>c. source v = RemoteCommit c \<and> trim c \<noteq> []" if "v \<in> set loaded" for v
      by (rule rmap_all [OF ld(1) load_entry_remote that])
    with ld(2,3) show ?thesis by (auto dest: in_set_butlastD)
  qed simp
  then show "vs \<noteq> []" "source (last vs) = LocalHead"
    "\<forall>v \<in> set (butlast vs). \<exists>c. source v = RemoteCommit c \<and> trim c \<noteq> []" by blast+
qed

text \<open>Each version's place in the plan.\<close>

lemma plan_versions_nth:
  assumes "plan_versions t d password blocks local idx vs arts fs = Inr (ps, fs')"
  shows "length ps = length vs \<and>
    (\<forall>i < length vs.
       stop_height (fst (ps ! i)) = Some ((of_nat (idx + i) + 1) * blocks) \<and>
       start_height (fst (ps ! i)) = (if idx + i = 0 then None else Some (of_nat (idx + i) * blocks + 1)) \<and>
       snd (snd (ps ! i)) = (of_nat (idx + i) + 1) * blocks)"
  using assms
proof (induction vs arbitrary: idx arts fs ps fs')
  case (Cons v vs)
  from Cons.prems obtain inputs arts' fs1 rest r s m c where
    r: "plan_versions t d password blocks local (idx + 1) vs arts' fs1 = Inr (rest, fs')"
    and ps: "ps = (\<lparr>rollup_binary = r, version_config = c, migration_path = m,
        start_height = (if idx = 0 then None else Some (of_nat idx * blocks + 1)),
        stop_height = Some ((of_nat idx + 1) * blocks)\<rparr>, s, (of_nat idx + 1) * blocks) # rest"
    by (auto simp: Let_def split: prod.splits)
  from Cons.IH [OF r] have len: "length rest = length vs" and
    nth: "\<And>i. i < length vs \<Longrightarrow>
       stop_height (fst (rest ! i)) = Some ((of_nat (idx + 1 + i) + 1) * blocks) \<and>
       start_height (fst (rest ! i)) = (if idx + 1 + i = 0 then None else Some (of_nat (idx + 1 + i) * blocks + 1)) \<and>
       snd (snd (rest ! i)) = (of_nat (idx + 1 + i) + 1) * blocks" by blast+
  show ?case
  proof (intro conjI allI impI)
    show "length ps = length (v # vs)" by (simp add: ps len)
  qed (case_tac i; use nth in \<open>simp add: ps add.assoc\<close>)+
qed simp

text \<open>Remote versions take the artifacts in order, the local version the local binaries.\<close>

lemma version_inputs_cases:
  assumes "version_inputs t d local v arts fs = Inr ((r, s, template, m), arts')"
  shows "source v = LocalHead \<Longrightarrow> r = fst local \<and> s = snd local"
    and "source v = RemoteCommit c \<Longrightarrow>
      \<exists>a rest. arts = Some (a # rest) \<and> arts' = Some rest \<and> r = art_rollup_binary a \<and> art_soak_binary a = Some s"
  using assms
  by (auto simp: version_inputs_def canonicalize_def split: version_source.splits option.splits list.splits if_splits)

lemma plan_versions_local:
  assumes "plan_versions t d password blocks local idx vs arts fs = Inr (ps, fs')"
    and "i < length vs" "source (vs ! i) = LocalHead"
  shows "rollup_binary (fst (ps ! i)) = fst local \<and> fst (snd (ps ! i)) = snd local"
  using assms
proof (induction vs arbitrary: idx arts fs ps fs' i)
  case (Cons v vs)
  then show ?case
    by (cases i) (auto simp: Let_def dest: version_inputs_cases(1) split: prod.splits)
qed simp

lemma plan_versions_remote:
  assumes "plan_versions t d password blocks local idx vs (Some arts) fs = Inr (ps, fs')"
    and "i < length vs" "\<forall>j \<le> i. source (vs ! j) \<noteq> LocalHead"
  shows "i < length arts \<and> rollup_binary (fst (ps ! i)) = art_rollup_binary (arts ! i) \<and>
    art_soak_binary (arts ! i) = Some (fst (snd (ps ! i)))"
  using assms
proof (induction vs arbitrary: idx arts fs ps fs' i)
  case (Cons v vs)
  from Cons.prems(3) have "source v \<noteq> LocalHead" by force
  then obtain c where c: "source v = RemoteCommit c" by (cases "source v") auto
  from Cons.prems(1) obtain r s m template arts' fs1 rest x where
    inputs: "version_inputs t d local v (Some arts) fs = Inr ((r, s, template, m), arts')"
    and rest: "plan_versions t d password blocks local (idx + 1) vs arts' fs1 = Inr (rest, fs')"
    and ps: "ps = x # rest" "rollup_binary (fst x) = r" "fst (snd x) = s"
    by (auto simp: Let_def split: prod.splits)
  from version_inputs_cases(2) [OF inputs c] obtain a arts2 where
    a: "arts = a # arts2" "arts' = Some arts2" "r = art_rollup_binary a" "art_soak_binary a = Some s" by auto
  show ?case
  proof (cases i)
    case 0
    with a ps show ?thesis by simp
  next
    case (Suc k)
    have "\<forall>j \<le> k. source (vs ! j) \<noteq> LocalHead" using Cons.prems(3) Suc by force
    with Cons.IH [OF rest [unfolded a(2)]] Cons.prems(2) Suc a(1) ps show ?thesis by simp
  qed
qed simp

text \<open>The versions that were loaded from the files, and where the binaries of the plan come from: the
  commits of all but the last one, in their order, are what the artifacts were requested for, and
  version \<open>i\<close> runs the two binaries of the \<open>i\<close>-th artifact that came back.\<close>

definition remote_spec ::
    "tools \<Rightarrow> fs \<Rightarrow> resolved_version list \<Rightarrow> rollup_version list \<Rightarrow> (path \<times> u64) list \<Rightarrow> bool" where
  "remote_spec t fs srcs mvs svs \<longleftrightarrow>
     (\<exists>commits arts fs'. prepare_artifacts t commits fs = (Some arts, fs') \<and>
        map source (butlast srcs) = map RemoteCommit commits \<and>
        (\<forall>i < length mvs - 1. trim (commits ! i) \<noteq> [] \<and> i < length arts \<and>
           rollup_binary (mvs ! i) = art_rollup_binary (arts ! i) \<and>
           art_soak_binary (arts ! i) = Some (fst (svs ! i))))"

lemma remote_commits_shape:
  assumes "vs \<noteq> []" "source (last vs) = LocalHead" "\<forall>v \<in> set (butlast vs). \<exists>c. source v = RemoteCommit c \<and> trim c \<noteq> []"
  shows "map source (butlast vs) = map RemoteCommit (remote_commits vs)" "\<forall>c \<in> set (remote_commits vs). trim c \<noteq> []"
proof -
  let ?pick = "\<lambda>v. case source v of RemoteCommit c \<Rightarrow> Some c | LocalHead \<Rightarrow> None"
  have front: "map source us = map RemoteCommit (List.map_filter ?pick us) \<and> (\<forall>c \<in> set (List.map_filter ?pick us). trim c \<noteq> [])"
    if "\<forall>v \<in> set us. \<exists>c. source v = RemoteCommit c \<and> trim c \<noteq> []" for us
    using that by (induction us) (auto simp: map_filter_simps)
  have snoc: "List.map_filter ?pick (us @ [v]) = List.map_filter ?pick us" if "source v = LocalHead" for us v
    using that by (induction us) (auto simp: map_filter_simps split: option.split)
  have "remote_commits vs = List.map_filter ?pick (butlast vs)"
    using snoc [OF assms(2), of "butlast vs"] assms(1) by (simp add: remote_commits_def)
  with front [OF assms(3)] show "map source (butlast vs) = map RemoteCommit (remote_commits vs)"
    "\<forall>c \<in> set (remote_commits vs). trim c \<noteq> []"
    by simp_all
qed

lemma word_product_exact:
  assumes "n * unat b < 2 ^ 64"
  shows "unat (of_nat n * (b :: u64)) = n * unat b"
proof -
  have eq: "of_nat n * b = of_nat (n * unat b)" by simp
  show ?thesis unfolding eq by (rule unat_of_nat_small) (use assms in simp)
qed

lemma local_head_binary:
  assumes "build_local_head_binaries t root fs = Inr (local, fs')"
  shows "fst local = root @ [''target'', ''release'', ''rollup'']"
  using assms by (auto simp: build_local_head_binaries_def canonicalize_def Let_def split: if_splits)

lemma plan_parts:
  assumes "prepare_acceptance_run_plan t d password blocks fs = Inr (plan, fs')"
  obtains vs arts local ps fs1 fs2 fs3 fs4 fs5 where
    "create_dir_all (rollup_build_cache_dir d) fs = Inr fs1" "load_version_sources t d fs1 = Inr vs"
    "remote_commits vs \<noteq> [] \<longrightarrow> (\<exists>as. prepare_artifacts t (remote_commits vs) fs1 = (Some as, fs2) \<and> arts = Some as)"
    "build_local_head_binaries t (rollup_root d) fs2 = Inr (local, fs3)"
    "plan_versions t d password blocks local 0 vs arts fs4 = Inr (ps, fs5)"
    "manager_versions plan = map fst ps" "soak_versions (soak_config plan) = map snd ps"
  using assms
  by (auto simp: prepare_acceptance_run_plan_def split: if_splits option.splits prod.splits) metis+

lemma remote_artifacts:
  assumes srcs: "load_version_sources t d fs1 = Inr srcs" and more: "1 < length srcs"
    and arts: "remote_commits srcs \<noteq> [] \<longrightarrow>
      (\<exists>as. prepare_artifacts t (remote_commits srcs) fs1 = (Some as, fs2) \<and> arts = Some as)"
    and ps: "plan_versions t d password blocks local 0 srcs arts fs4 = Inr (ps, fs5)"
  shows "remote_spec t fs1 srcs (map fst ps) (map snd ps)"
proof -
  note shape = load_version_sources_shape [OF srcs]
  note commits = remote_commits_shape [OF shape]
  have len: "length ps = length srcs" using plan_versions_nth [OF ps] by blast
  have count: "length (remote_commits srcs) = length srcs - 1" using arg_cong [OF commits(1), of length] by simp
  with more have "remote_commits srcs \<noteq> []" by auto
  with arts obtain as where
    as: "prepare_artifacts t (remote_commits srcs) fs1 = (Some as, fs2)" "arts = Some as" by blast
  have "i < length as \<and> rollup_binary (fst (ps ! i)) = art_rollup_binary (as ! i) \<and>
    art_soak_binary (as ! i) = Some (fst (snd (ps ! i)))" if "i < length srcs - 1" for i
  proof (rule plan_versions_remote [OF ps [unfolded as(2)]])
    show "\<forall>j \<le> i. source (srcs ! j) \<noteq> LocalHead"
      using shape(3) that by (metis in_set_conv_nth length_butlast nth_butlast le_less_trans version_source.distinct(1))
  qed (use that in simp)
  with as(1) commits count len show ?thesis unfolding remote_spec_def by (intro exI conjI) auto
qed

text \<open>Property C37. In a successful plan the versions cover the heights without gap or overlap: the first starts
  at genesis, version i stops at height (i + 1) * blocks, the next one starts one block later, and
  the soak test runs each version's own worker up to the same height (the last height must be below
  2 ^ 64). The versions are those that are loaded from the versions file, in that order. The last one is
  the rollup built from the working copy; for the others the artifacts are requested for the commits
  of their entries, in that order, and version i runs both binaries of the i-th artifact that the
  builder returns.\<close>

theorem acceptance_plan_tiles_heights:
  assumes "prepare_acceptance_run_plan t d password blocks fs = Inr (plan, fs')"
    and "length (manager_versions plan) * unat blocks < 2 ^ 64"
  shows "let vs = manager_versions plan; ws = soak_versions (soak_config plan) in
    vs \<noteq> [] \<and> length ws = length vs \<and> start_height (hd vs) = None \<and>
    (\<forall>i < length vs. \<exists>stop. stop_height (vs ! i) = Some stop \<and> unat stop = (i + 1) * unat blocks \<and>
       snd (ws ! i) = stop \<and> (i + 1 < length vs \<longrightarrow> start_height (vs ! (i + 1)) = Some (stop + 1))) \<and>
    rollup_binary (last vs) = rollup_root d @ [''target'', ''release'', ''rollup''] \<and>
    (\<exists>fs1 srcs. create_dir_all (rollup_build_cache_dir d) fs = Inr fs1 \<and> load_version_sources t d fs1 = Inr srcs \<and>
       length srcs = length vs \<and> source (last srcs) = LocalHead \<and>
       (1 < length vs \<longrightarrow> remote_spec t fs1 srcs vs ws))"
proof -
  obtain srcs arts local ps fs1 fs2 fs3 fs4 fs5 where
    cache: "create_dir_all (rollup_build_cache_dir d) fs = Inr fs1" and srcs: "load_version_sources t d fs1 = Inr srcs"
    and arts: "remote_commits srcs \<noteq> [] \<longrightarrow>
      (\<exists>as. prepare_artifacts t (remote_commits srcs) fs1 = (Some as, fs2) \<and> arts = Some as)"
    and local: "build_local_head_binaries t (rollup_root d) fs2 = Inr (local, fs3)"
    and ps: "plan_versions t d password blocks local 0 srcs arts fs4 = Inr (ps, fs5)"
    and plan: "manager_versions plan = map fst ps" "soak_versions (soak_config plan) = map snd ps"
    by (rule plan_parts [OF assms(1)])
  note shape = load_version_sources_shape [OF srcs]
  from plan_versions_nth [OF ps] have len: "length ps = length srcs" and
    nth: "\<And>i. i < length srcs \<Longrightarrow>
       stop_height (fst (ps ! i)) = Some ((of_nat i + 1) * blocks) \<and>
       start_height (fst (ps ! i)) = (if i = 0 then None else Some (of_nat i * blocks + 1)) \<and>
       snd (snd (ps ! i)) = (of_nat i + 1) * blocks" by auto
  have ne: "ps \<noteq> []" using len shape(1) by auto
  have stop: "unat ((of_nat i + 1) * blocks) = (i + 1) * unat blocks" if "i < length srcs" for i
  proof -
    have "(i + 1) * unat blocks \<le> length srcs * unat blocks" using that by (intro mult_le_mono1) simp
    with assms(2) plan len have "(i + 1) * unat blocks < 2 ^ 64" by simp
    from word_product_exact [OF this] show ?thesis by (simp add: add.commute)
  qed
  have last: "rollup_binary (fst (last ps)) = fst local"
    using plan_versions_local [OF ps, of "length srcs - 1"] shape(1,2) len
    by (simp add: last_conv_nth ne)
  have first: "start_height (fst (hd ps)) = None"
    using nth [of 0] ne len shape(1) by (simp add: hd_conv_nth)
  have heights: "\<forall>i < length (map fst ps). \<exists>stop. stop_height (map fst ps ! i) = Some stop \<and> unat stop = (i + 1) * unat blocks \<and>
       snd (map snd ps ! i) = stop \<and> (i + 1 < length (map fst ps) \<longrightarrow> start_height (map fst ps ! (i + 1)) = Some (stop + 1))"
    using len nth stop by (auto simp: add.commute)
  have origin: "\<exists>fs1 srcs. create_dir_all (rollup_build_cache_dir d) fs = Inr fs1 \<and> load_version_sources t d fs1 = Inr srcs \<and>
       length srcs = length (map fst ps) \<and> source (last srcs) = LocalHead \<and>
       (1 < length (map fst ps) \<longrightarrow> remote_spec t fs1 srcs (map fst ps) (map snd ps))"
    using cache srcs len shape(2) remote_artifacts [OF srcs _ arts ps] by auto
  show ?thesis
    unfolding Let_def plan
    using ne first last local_head_binary [OF local] heights origin by (simp add: hd_map last_map)
qed

definition demo_plan_dirs :: directories where
  "demo_plan_dirs = \<lparr>rollup_root = [], acceptance_test_dir = [''t''], rollup_build_cache_dir = [''c''],
     manager_build_dir = [''m''], output_dir = [''o''], rollup_data_path = [''d''], snapshots_dir = [''s''],
     throughput_dir = [''p'']\<rparr>"

definition demo_tools :: tools where
  "demo_tools =
     \<lparr>parse_version_spec = (\<lambda>s. Some
        [\<lparr>version_id = ''v0'', vars_file = Relative [''vars''], spec_migration = None\<rparr>,
         \<lparr>version_id = ''v1'', vars_file = Absolute [''vars''], spec_migration = Some (Relative [''vars''])\<rparr>]),
      parse_version_vars = Some,
      run_tool = (\<lambda>c fs. (Some True,
        if current_dir c = Some [''m'', ''repo'']
        then put [''m'', ''repo'', ''target'', ''release'', ''sov-rollup-manager''] (File ''bin'') fs else fs)),
      prepare_artifacts = (\<lambda>cs fs. (Some (map (\<lambda>c. \<lparr>art_rollup_binary = [''vars''], art_soak_binary = Some [''vars'']\<rparr>) cs), fs)),
      read_text_file_at_commit = (\<lambda>c p fs. Some ''db={password}'')\<rparr>"

definition demo_plan_fs :: fs where
  "demo_plan_fs =
     [([], Dir), ([''versions.yaml''], File ''''), ([''vars''], File ''c0''), ([''o''], Dir), ([''t''], Dir),
      ([''t'', ''rollup_config.toml''], File ''db={password}''),
      ([''target'', ''release'', ''rollup''], File ''''), ([''target'', ''release'', ''subscriber''], File '''')]"

definition demo_plan :: "(run_plan \<times> fs) option" where
  "demo_plan = (case prepare_acceptance_run_plan demo_tools demo_plan_dirs ''pw'' 30 demo_plan_fs of
     Inl e \<Rightarrow> None | Inr r \<Rightarrow> Some r)"

lemma demo_plan_versions: "map_option (\<lambda>r. map (\<lambda>v. (start_height v, stop_height v)) (manager_versions (fst r))) demo_plan =
    Some [(None, Some 30), (Some 31, Some 60)]"
  by code_simp

lemma acceptance_plan_tiles_heights_witness:
  "\<exists>r vs fs1 srcs. demo_plan = Some r \<and> vs = manager_versions (fst r) \<and> length vs = 2 \<and>
     rollup_binary (last vs) = [''target'', ''release'', ''rollup''] \<and>
     remote_spec demo_tools fs1 srcs vs (soak_versions (soak_config (fst r)))"
proof -
  from demo_plan_versions obtain plan fs' where
    p: "demo_plan = Some (plan, fs')"
      "map (\<lambda>v. (start_height v, stop_height v)) (manager_versions plan) = [(None, Some 30), (Some 31, Some 60)]"
    by auto
  then have ok: "prepare_acceptance_run_plan demo_tools demo_plan_dirs ''pw'' 30 demo_plan_fs = Inr (plan, fs')"
    by (simp add: demo_plan_def split: sum.splits)
  from arg_cong [OF p(2), of length] have len: "length (manager_versions plan) = 2" by simp
  with acceptance_plan_tiles_heights [OF ok] obtain fs1 srcs where
    "remote_spec demo_tools fs1 srcs (manager_versions plan) (soak_versions (soak_config plan))"
    "rollup_binary (last (manager_versions plan)) = [''target'', ''release'', ''rollup'']"
    by (auto simp: Let_def demo_plan_dirs_def)
  with p(1) len show ?thesis
    by (intro exI [of _ "(plan, fs')"] exI [of _ "manager_versions plan"] exI [of _ fs1] exI [of _ srcs]) simp
qed

section \<open>The test run after the setup run\<close>

text \<open>The test runs the last version for another span of blocks; the heights before are unchanged.\<close>

lemma extend_last_stop_height_spec:
  assumes "extend_last_stop_height vs extra = Inr ws" "vs \<noteq> []" "stop_height (last vs) = Some stop"
  shows "butlast ws = butlast vs" "stop_height (last ws) = Some (stop + extra)"
    "start_height (last ws) = start_height (last vs)" "rollup_binary (last ws) = rollup_binary (last vs)"
  using assms by (auto simp: extend_last_stop_height_def split: if_splits)

section \<open>Templates\<close>

text \<open>A placeholder is replaced wherever it occurs; text without an opening brace stays.\<close>

lemma str_replace_plain: "CHR ''{'' \<notin> set s \<Longrightarrow> str_replace (CHR ''{'' # p) to s = s"
  by (induction s) auto

lemma str_replace_first:
  assumes "CHR ''{'' \<notin> set s"
  shows "str_replace (CHR ''{'' # p) to (s @ (CHR ''{'' # p) @ r) = s @ to @ str_replace (CHR ''{'' # p) to r"
  using assms by (induction s) auto

end
