(* ===== verification/Acceptance_Slots.thy ===== *)
theory Acceptance_Slots
  imports Acceptance_Config Http_Client
begin

text \<open>
  How the acceptance test checks the ledger of the node: the comparison of slots from several
  sources and with snapshots on disk (\<open>scripts/acceptance-test/src/fetch_and_compare.rs\<close>), and the
  loop of \<open>main.rs\<close> that compares a resynced node with all snapshots of the setup run. \<open>Slot\<close> and
  \<open>LedgerBatch\<close> are types of the SDK; the records hold the fields the code reads, the contents of
  the others enter their JSON form only. The serializer is a field of \<open>codec\<close>; a JSON object has
  its keys in order. A failed assertion and an \<open>unwrap\<close> of nothing are \<open>Panicked\<close>.
\<close>

section \<open>Slots and batches\<close>

record ledger_batch =
  batch_number :: u64
  batch_hash :: string
  tx_range :: "u64 \<times> u64"
  txs :: "json list"
  batch_rest :: json

record ledger_slot =
  number :: u64
  slot_hash :: string
  batch_range :: "u64 \<times> u64"
  finality_status :: string
  slot_state_root :: string
  timestamp :: string
  slot_type :: string
  batches :: "ledger_batch list"

record codec =
  slot_json :: "ledger_slot \<Rightarrow> json"
  parse_slot :: "json \<Rightarrow> ledger_slot option"
  pretty :: "json \<Rightarrow> string"
  parse_json :: "string \<Rightarrow> json option"

datatype fetch_error =
    Panicked | NoAnswer | OutOfSequence u64 u64 | JsonMismatch | MissingSnapshot fs_error
  | InvalidSnapshot | NotSaved fs_error | Shutdown

definition assert_slots_match_excluding_batches :: "ledger_slot \<Rightarrow> ledger_slot \<Rightarrow> fetch_error + unit" where
  "assert_slots_match_excluding_batches s t =
     ensure (batch_range s = batch_range t \<and> finality_status s = finality_status t \<and>
       slot_hash s = slot_hash t \<and> number s = number t \<and> slot_state_root s = slot_state_root t \<and>
       timestamp s = timestamp t \<and> slot_type s = slot_type t) Panicked"

fun remove_key :: "string \<Rightarrow> json \<Rightarrow> json" where
  "remove_key k (JObject m) = JObject (filter (\<lambda>e. fst e \<noteq> k) m)"
| "remove_key k v = v"

definition slot_to_json :: "codec \<Rightarrow> ledger_slot \<Rightarrow> bool \<Rightarrow> json" where
  "slot_to_json c s exclude_batches =
     (if exclude_batches then remove_key ''batches'' (slot_json c s) else slot_json c s)"

definition assert_slots_match_json_excluding_batches ::
    "codec \<Rightarrow> ledger_slot \<Rightarrow> ledger_slot \<Rightarrow> fetch_error + unit" where
  "assert_slots_match_json_excluding_batches c s t =
     ensure (slot_to_json c s True = slot_to_json c t True) JsonMismatch"

section \<open>Snapshots\<close>

definition compare_against_snapshot :: "codec \<Rightarrow> ledger_slot \<Rightarrow> json \<Rightarrow> bool \<Rightarrow> fetch_error + unit" where
  "compare_against_snapshot c s snapshot exclude_batches =
     ensure (slot_to_json c s exclude_batches = snapshot) InvalidSnapshot"

text \<open>\<open>{:04}\<close> pads with zeros to four characters.\<close>

definition pad4 :: "string \<Rightarrow> string" where
  "pad4 s = replicate (4 - length s) CHR ''0'' @ s"

definition snapshot_file :: "u64 \<Rightarrow> string" where
  "snapshot_file n = ''slot_'' @ pad4 (show_u64 n) @ ''_with_children.json''"

definition save_slot_snapshot :: "codec \<Rightarrow> ledger_slot \<Rightarrow> path \<Rightarrow> fs \<Rightarrow> fetch_error + fs" where
  "save_slot_snapshot c s out fs =
     map_err NotSaved (write_file (out @ [snapshot_file (number s)]) (pretty c (slot_to_json c s False)) fs)"

text \<open>A missing file is an error, a file that is not JSON a panic.\<close>

definition load_snapshot_json :: "codec \<Rightarrow> u64 \<Rightarrow> path \<Rightarrow> fs \<Rightarrow> fetch_error + (fs_error + json)" where
  "load_snapshot_json c n out fs =
     (case read_to_string (out @ [snapshot_file n]) fs of
        Inl e \<Rightarrow> Inr (Inl e)
      | Inr s \<Rightarrow> (case parse_json c s of None \<Rightarrow> Inl Panicked | Some j \<Rightarrow> Inr (Inr j)))"

definition validate_against_snapshot :: "codec \<Rightarrow> ledger_slot \<Rightarrow> path \<Rightarrow> fs \<Rightarrow> fetch_error + unit" where
  "validate_against_snapshot c s out fs =
     rbind (load_snapshot_json c (number s) out fs) (\<lambda>r.
     rbind (map_err MissingSnapshot r) (\<lambda>j.
     compare_against_snapshot c s j False))"

datatype item_behavior = SaveSnapshot | DoNothing | CheckAgainstSnapshot

definition handle_snapshot :: "codec \<Rightarrow> item_behavior \<Rightarrow> ledger_slot \<Rightarrow> path \<Rightarrow> fs \<Rightarrow> fetch_error + fs" where
  "handle_snapshot c b s out fs =
     (case b of
        SaveSnapshot \<Rightarrow> save_slot_snapshot c s out fs
      | CheckAgainstSnapshot \<Rightarrow> rbind (validate_against_snapshot c s out fs) (\<lambda>_. Inr fs)
      | DoNothing \<Rightarrow> Inr fs)"

section \<open>The slot monitor\<close>

record slot_monitor =
  prev_slot_with_children :: "ledger_slot option"
  expected_slot_number :: "u64 option"
  monitor_dir :: path

definition new_monitor :: "directories \<Rightarrow> slot_monitor" where
  "new_monitor d = \<lparr>prev_slot_with_children = None, expected_slot_number = None, monitor_dir = snapshots_dir d\<rparr>"

text \<open>What the four subscriptions deliver next; \<open>None\<close> is an error or the end of a stream.\<close>

record slot_news =
  next_slot :: "ledger_slot option"
  next_slot_with_children :: "ledger_slot option"
  finalized_slot :: "ledger_slot option"
  finalized_slot_with_children :: "ledger_slot option"

definition unwrap :: "'a option \<Rightarrow> fetch_error + 'a" where
  "unwrap x = (case x of None \<Rightarrow> Inl Panicked | Some a \<Rightarrow> Inr a)"

definition check_sequence :: "u64 option \<Rightarrow> u64 \<Rightarrow> fetch_error + unit" where
  "check_sequence expected n =
     (case expected of None \<Rightarrow> Inr () | Some e \<Rightarrow> ensure (n = e) (OutOfSequence e n))"

definition get_next_slot ::
    "codec \<Rightarrow> item_behavior \<Rightarrow> slot_news \<Rightarrow> slot_monitor \<Rightarrow> fs \<Rightarrow>
     fetch_error + (ledger_slot \<times> ledger_slot \<times> ledger_slot \<times> ledger_slot) \<times> slot_monitor \<times> fs" where
  "get_next_slot c b news m fs =
     rbind (unwrap (next_slot news)) (\<lambda>ns.
     rbind (unwrap (next_slot_with_children news)) (\<lambda>nc.
     rbind (unwrap (finalized_slot news)) (\<lambda>fn.
     rbind (unwrap (finalized_slot_with_children news)) (\<lambda>fc.
     rbind (check_sequence (expected_slot_number m) (number nc)) (\<lambda>_.
     rbind (assert_slots_match_excluding_batches ns nc) (\<lambda>_.
     rbind (assert_slots_match_json_excluding_batches c ns nc) (\<lambda>_.
     rbind (assert_slots_match_excluding_batches fn fc) (\<lambda>_.
     rbind (assert_slots_match_json_excluding_batches c fn fc) (\<lambda>_.
     rbind (if snd (batch_range fn) \<noteq> fst (batch_range fn)
            then (case prev_slot_with_children m of
                    None \<Rightarrow> Inr ()
                  | Some prev \<Rightarrow>
                      rbind (assert_slots_match_excluding_batches fn prev) (\<lambda>_.
                      ensure (batches fc = batches prev) Panicked))
            else Inr ()) (\<lambda>_.
     rbind (handle_snapshot c b nc (monitor_dir m) fs) (\<lambda>fs'.
     Inr ((ns, nc, fn, fc),
          m\<lparr>prev_slot_with_children := Some nc, expected_slot_number := Some (number nc + 1)\<rparr>, fs'))))))))))))"

text \<open>The monitor in a loop, as the setup run uses it; an error ends the run.\<close>

fun monitor_run ::
    "codec \<Rightarrow> item_behavior \<Rightarrow> slot_news list \<Rightarrow> slot_monitor \<Rightarrow> fs \<Rightarrow> fetch_error + ledger_slot list \<times> slot_monitor \<times> fs" where
  "monitor_run c b [] m fs = Inr ([], m, fs)"
| "monitor_run c b (news # rest) m fs =
     rbind (get_next_slot c b news m fs) (\<lambda>((ns, nc, fn, fc), m', fs').
     rbind (monitor_run c b rest m' fs') (\<lambda>(ss, m'', fs'').
     Inr (nc # ss, m'', fs'')))"

section \<open>The slot fetcher\<close>

datatype ledger_id = ById u64 | ByHash string

datatype ledger_request =
    GetSlot ledger_id "bool option"
  | GetBatch ledger_id "bool option"

text \<open>The node's answers to the last request of a history; \<open>None\<close> is an error response.\<close>

record ledger_node =
  slot_answer :: "ledger_request list \<Rightarrow> ledger_slot option"
  batch_answer :: "ledger_request list \<Rightarrow> ledger_batch option"

type_synonym 'a ledger_act = "(fetch_error, ledger_request, 'a) act"

definition get_slot_by_id :: "ledger_node \<Rightarrow> ledger_id \<Rightarrow> bool option \<Rightarrow> ledger_slot ledger_act" where
  "get_slot_by_id n i children =
     ask (\<lambda>h. case slot_answer n h of None \<Rightarrow> Inl NoAnswer | Some s \<Rightarrow> Inr s) (GetSlot i children)"

definition get_batch_by_id :: "ledger_node \<Rightarrow> ledger_id \<Rightarrow> bool option \<Rightarrow> ledger_batch ledger_act" where
  "get_batch_by_id n i children =
     ask (\<lambda>h. case batch_answer n h of None \<Rightarrow> Inl NoAnswer | Some b \<Rightarrow> Inr b) (GetBatch i children)"

definition fetch_batch_without_children :: "ledger_node \<Rightarrow> u64 \<Rightarrow> ledger_batch ledger_act" where
  "fetch_batch_without_children n i = get_batch_by_id n (ById i) None"

definition fetch_and_compare_batch :: "ledger_node \<Rightarrow> u64 \<Rightarrow> ledger_batch ledger_act" where
  "fetch_and_compare_batch n i =
     io_bind (fetch_batch_without_children n i) (\<lambda>b.
     io_bind (get_batch_by_id n (ByHash (batch_hash b)) (Some False)) (\<lambda>bh.
     io_bind (get_batch_by_id n (ById i) (Some True)) (\<lambda>bc.
     io_bind (get_batch_by_id n (ByHash (batch_hash b)) (Some True)) (\<lambda>bhc.
     io_bind (io_lift (ensure (b = bh) Panicked)) (\<lambda>_.
     io_bind (io_lift (ensure (bc = bhc) Panicked)) (\<lambda>_.
     io_bind (io_lift (ensure (bc\<lparr>txs := []\<rparr> = b) Panicked)) (\<lambda>_.
     io_return bhc)))))))"

definition compare_slot_variations ::
    "codec \<Rightarrow> ledger_slot \<Rightarrow> ledger_slot \<Rightarrow> ledger_slot \<Rightarrow> ledger_slot \<Rightarrow> fetch_error + unit" where
  "compare_slot_variations c sc s sh shc =
     rbind (assert_slots_match_excluding_batches sc shc) (\<lambda>_.
     rbind (ensure (batches shc = batches sc) Panicked) (\<lambda>_.
     rbind (assert_slots_match_excluding_batches s sh) (\<lambda>_.
     rbind (assert_slots_match_excluding_batches sc s) (\<lambda>_.
     rbind (assert_slots_match_json_excluding_batches c sc shc) (\<lambda>_.
     rbind (assert_slots_match_json_excluding_batches c s sh) (\<lambda>_.
     assert_slots_match_json_excluding_batches c sc s))))))"

fun compare_batches :: "ledger_node \<Rightarrow> ledger_batch list \<Rightarrow> unit ledger_act" where
  "compare_batches n [] = io_return ()"
| "compare_batches n (b # bs) =
     io_bind (fetch_and_compare_batch n (batch_number b)) (\<lambda>bh.
     io_bind (io_lift (ensure (b = bh) Panicked)) (\<lambda>_.
     compare_batches n bs))"

definition fetch_and_compare_slot ::
    "codec \<Rightarrow> ledger_node \<Rightarrow> path \<Rightarrow> u64 \<Rightarrow> item_behavior \<Rightarrow> fs \<Rightarrow> (ledger_slot \<times> fs) ledger_act" where
  "fetch_and_compare_slot c n out i b fs =
     io_bind (get_slot_by_id n (ById i) (Some True)) (\<lambda>sc.
     io_bind (get_slot_by_id n (ById i) (Some False)) (\<lambda>s.
     io_bind (get_slot_by_id n (ByHash (slot_hash sc)) None) (\<lambda>sh.
     io_bind (get_slot_by_id n (ByHash (slot_hash sc)) (Some True)) (\<lambda>shc.
     io_bind (compare_batches n (batches sc)) (\<lambda>_.
     io_bind (io_lift (compare_slot_variations c sc s sh shc)) (\<lambda>_.
     io_bind (io_lift (handle_snapshot c b sc out fs)) (\<lambda>fs'.
     io_return (sc, fs'))))))))"

section \<open>Comparing a resynced node with the snapshots\<close>

text \<open>The loop of \<open>run_test\<close>: \<open>Going\<close> continues with the next notification, \<open>Resynced\<close> leaves the
  outer loop at the first slot without a snapshot.\<close>

datatype resync = Going u64 | Resynced u64 u64

definition check_snapshot_slot ::
    "codec \<Rightarrow> ledger_node \<Rightarrow> path \<Rightarrow> fs \<Rightarrow> u64 \<Rightarrow> u64 \<Rightarrow> u64 \<Rightarrow> resync ledger_act" where
  "check_snapshot_slot c n out fs expected latest i =
     io_bind (io_lift (load_snapshot_json c i out fs)) (\<lambda>r.
     case r of
       Inl e \<Rightarrow>
         if i < 10 then io_return (Going latest)
         else if latest < expected then io_lift (Inl Panicked)
         else io_return (Resynced i latest)
     | Inr snapshot \<Rightarrow>
         io_bind (io_lift (unwrap (parse_slot c snapshot))) (\<lambda>t.
         io_bind (get_slot_by_id n (ById i) (if batches t = [] then None else Some True)) (\<lambda>s.
         io_bind (io_lift (compare_against_snapshot c s snapshot False)) (\<lambda>_.
         io_return (Going (saturating_sub64 (snd (batch_range t)) 1))))))"

fun check_snapshot_slots ::
    "codec \<Rightarrow> ledger_node \<Rightarrow> path \<Rightarrow> fs \<Rightarrow> u64 \<Rightarrow> u64 list \<Rightarrow> u64 \<Rightarrow> resync ledger_act" where
  "check_snapshot_slots c n out fs expected [] latest = io_return (Going latest)"
| "check_snapshot_slots c n out fs expected (i # is) latest =
     io_bind (check_snapshot_slot c n out fs expected latest i) (\<lambda>r.
     case r of
       Going latest' \<Rightarrow> check_snapshot_slots c n out fs expected is latest'
     | Resynced k l \<Rightarrow> io_return (Resynced k l))"

definition inclusive_range :: "u64 \<Rightarrow> u64 \<Rightarrow> u64 list" where
  "inclusive_range a b = map of_nat [unat a ..< unat b + 1]"

datatype notification = NewSlot ledger_slot | StreamFailed | StreamEnded | ShutdownRequested

text \<open>\<open>None\<close> as a result: all notifications so far are handled and the loop waits for the next.\<close>

fun resync_loop ::
    "codec \<Rightarrow> ledger_node \<Rightarrow> path \<Rightarrow> fs \<Rightarrow> u64 \<Rightarrow> notification list \<Rightarrow> u64 \<Rightarrow> u64 \<Rightarrow> (u64 \<times> u64) option ledger_act" where
  "resync_loop c n out fs expected [] checked latest = io_return None"
| "resync_loop c n out fs expected (ShutdownRequested # es) checked latest = io_lift (Inl Shutdown)"
| "resync_loop c n out fs expected (StreamFailed # es) checked latest = io_lift (Inl NoAnswer)"
| "resync_loop c n out fs expected (StreamEnded # es) checked latest = io_lift (Inl Panicked)"
| "resync_loop c n out fs expected (NewSlot s # es) checked latest =
     io_bind (check_snapshot_slots c n out fs expected (inclusive_range checked (number s)) latest) (\<lambda>r.
     case r of
       Going latest' \<Rightarrow> resync_loop c n out fs expected es (number s) latest'
     | Resynced k l \<Rightarrow> io_return (Some (k, l)))"

section \<open>Snapshot files\<close>

lemma dec_value_zeros: "dec_value (replicate k CHR ''0'' @ s) = dec_value s"
  by (induction k) (simp_all add: dec_value_def)

lemma pad4_show_inject [simp]: "pad4 (show_u64 a) = pad4 (show_u64 b) \<longleftrightarrow> a = b"
proof
  assume "pad4 (show_u64 a) = pad4 (show_u64 b)"
  then have "dec_value (pad4 (show_u64 a)) = dec_value (pad4 (show_u64 b))" by simp
  then show "a = b"
    by (simp add: pad4_def dec_value_zeros show_u64_def dec_value_show_nat word_unat_eq_iff)
qed simp

lemma snapshot_file_inject [simp]: "snapshot_file a = snapshot_file b \<longleftrightarrow> a = b"
  by (simp add: snapshot_file_def)

lemma validate_saved:
  assumes "parse_json c (pretty c (slot_json c s)) = Some (slot_json c s)" "save_slot_snapshot c s out fs = Inr fs'"
  shows "validate_against_snapshot c s out fs' = Inr ()"
  using assms
  by (simp add: save_slot_snapshot_def validate_against_snapshot_def load_snapshot_json_def
      read_to_string_def write_file_spec compare_against_snapshot_def slot_to_json_def)

text \<open>A validated slot stays valid while slots with other numbers are saved.\<close>

lemma validate_other:
  assumes "save_slot_snapshot c s out fs = Inr fs'" "number t \<noteq> number s"
    and "validate_against_snapshot c t out fs = Inr ()"
  shows "validate_against_snapshot c t out fs' = Inr ()"
proof -
  have eq: "node_at (out @ [snapshot_file (number t)]) fs' = node_at (out @ [snapshot_file (number t)]) fs"
    using assms(1,2) by (simp add: save_slot_snapshot_def write_file_spec)
  from assms(3) obtain x where x: "read_to_string (out @ [snapshot_file (number t)]) fs = Inr x"
    by (auto simp: validate_against_snapshot_def load_snapshot_json_def split: sum.splits)
  then have "read_to_string (out @ [snapshot_file (number t)]) fs' = Inr x"
    by (simp add: read_file_iff eq)
  with assms(3) x show ?thesis
    by (simp add: validate_against_snapshot_def load_snapshot_json_def)
qed

section \<open>A monitored run\<close>

lemma get_next_slot_step:
  assumes "get_next_slot c b news m fs = Inr ((ns, nc, fn, fc), m', fs')"
  shows "expected_slot_number m = None \<or> expected_slot_number m = Some (number nc)"
    "expected_slot_number m' = Some (number nc + 1)" "monitor_dir m' = monitor_dir m"
    "handle_snapshot c b nc (monitor_dir m) fs = Inr fs'"
    "prev_slot_with_children m' = Some nc"
  using assms by (auto simp: get_next_slot_def check_sequence_def split: option.splits)

lemma monitor_run_numbers:
  assumes "monitor_run c b news m fs = Inr (ss, m', fs')" "expected_slot_number m = Some e"
  shows "\<forall>i < length ss. number (ss ! i) = e + of_nat i"
  using assms
proof (induction news arbitrary: m fs ss e)
  case (Cons x news)
  from Cons.prems(1) obtain ns nc fn fc m1 fs1 ss1 where
    step: "get_next_slot c b x m fs = Inr ((ns, nc, fn, fc), m1, fs1)"
    and rest: "monitor_run c b news m1 fs1 = Inr (ss1, m', fs')" and ss: "ss = nc # ss1"
    by (auto split: prod.splits)
  note st = get_next_slot_step [OF step]
  from st(1) Cons.prems(2) have "number nc = e" by simp
  moreover from this st(2) have "expected_slot_number m1 = Some (e + 1)" by simp
  ultimately show ?case
    using Cons.IH [OF rest] ss by (auto simp: nth_Cons' add.assoc)
qed simp

lemma monitor_run_consecutive:
  assumes "monitor_run c b news m fs = Inr (ss, m', fs')"
  shows "\<forall>i < length ss. number (ss ! i) = number (ss ! 0) + of_nat i"
proof (cases news)
  case (Cons x rest)
  with assms obtain ns nc fn fc m1 fs1 ss1 where
    step: "get_next_slot c b x m fs = Inr ((ns, nc, fn, fc), m1, fs1)"
    and more: "monitor_run c b rest m1 fs1 = Inr (ss1, m', fs')" and ss: "ss = nc # ss1"
    by (auto split: prod.splits)
  from monitor_run_numbers [OF more get_next_slot_step(2) [OF step]] ss show ?thesis
    by (auto simp: nth_Cons' add.assoc)
qed (use assms in simp)

lemma monitor_run_distinct:
  assumes "monitor_run c b news m fs = Inr (ss, m', fs')" "length ss < 2 ^ 64"
  shows "distinct (map number ss)"
  unfolding distinct_conv_nth
proof (intro allI impI)
  fix i j
  assume ij: "i < length (map number ss)" "j < length (map number ss)" "i \<noteq> j"
  have "(of_nat i :: u64) \<noteq> of_nat j"
    using ij assms(2) by (simp add: of_nat_inverse word_of_nat_eq_iff take_bit_nat_eq_self)
  with monitor_run_consecutive [OF assms(1)] ij show "map number ss ! i \<noteq> map number ss ! j" by simp
qed

lemma monitor_run_saved:
  assumes "monitor_run c SaveSnapshot news m fs = Inr (ss, m', fs')" "distinct (map number ss)"
    and "\<forall>s \<in> set ss. parse_json c (pretty c (slot_json c s)) = Some (slot_json c s)"
  shows "(\<forall>s \<in> set ss. validate_against_snapshot c s (monitor_dir m) fs' = Inr ()) \<and>
    (\<forall>t. number t \<notin> number ` set ss \<longrightarrow> validate_against_snapshot c t (monitor_dir m) fs = Inr () \<longrightarrow>
       validate_against_snapshot c t (monitor_dir m) fs' = Inr ())"
  using assms
proof (induction news arbitrary: m fs ss)
  case (Cons x news)
  from Cons.prems(1) obtain ns nc fn fc m1 fs1 ss1 where
    step: "get_next_slot c SaveSnapshot x m fs = Inr ((ns, nc, fn, fc), m1, fs1)"
    and rest: "monitor_run c SaveSnapshot news m1 fs1 = Inr (ss1, m', fs')" and ss: "ss = nc # ss1"
    by (auto split: prod.splits)
  have dir: "monitor_dir m1 = monitor_dir m" using get_next_slot_step [OF step] by simp
  have save: "save_slot_snapshot c nc (monitor_dir m) fs = Inr fs1"
    using get_next_slot_step(4) [OF step] by (simp add: handle_snapshot_def)
  from Cons.prems(2) ss have "distinct (map number ss1)" and new: "number nc \<notin> number ` set ss1" by auto
  with Cons.IH [OF rest] Cons.prems(3) ss dir have
    IH: "\<forall>s \<in> set ss1. validate_against_snapshot c s (monitor_dir m) fs' = Inr ()"
      "\<And>t. number t \<notin> number ` set ss1 \<Longrightarrow> validate_against_snapshot c t (monitor_dir m) fs1 = Inr () \<Longrightarrow>
         validate_against_snapshot c t (monitor_dir m) fs' = Inr ()" by auto
  have "validate_against_snapshot c nc (monitor_dir m) fs' = Inr ()"
    by (rule IH(2) [OF new validate_saved [OF _ save]]) (use Cons.prems(3) ss in simp)
  with IH ss validate_other [OF save] show ?case by auto
qed simp

text \<open>Property C38. A run of the slot monitor that ends without an error has seen slots with consecutive numbers,
  and when it saves snapshots, every slot it saw can afterwards be validated against its own
  snapshot: the files do not overwrite each other (the run is shorter than 2^64 slots, and parsing
  inverts printing on the JSON of the slots).
\<close>

theorem monitored_slots_validate:
  assumes "monitor_run c SaveSnapshot news (new_monitor d) fs = Inr (ss, m', fs')"
    and "length ss < 2 ^ 64" "\<forall>s \<in> set ss. parse_json c (pretty c (slot_json c s)) = Some (slot_json c s)"
  shows "(\<forall>i < length ss. number (ss ! i) = number (ss ! 0) + of_nat i) \<and>
    (\<forall>s \<in> set ss. validate_against_snapshot c s (snapshots_dir d) fs' = Inr ())"
  using monitor_run_consecutive [OF assms(1)] monitor_run_saved [OF assms(1) monitor_run_distinct [OF assms(1,2)] assms(3)]
  by (simp add: new_monitor_def)

definition demo_slot :: "u64 \<Rightarrow> ledger_slot" where
  "demo_slot n = \<lparr>number = n, slot_hash = '''', batch_range = (0, 0), finality_status = '''', slot_state_root = '''',
     timestamp = '''', slot_type = '''', batches = []\<rparr>"

definition demo_codec :: codec where
  "demo_codec = \<lparr>slot_json = (\<lambda>s. JString (show_u64 (number s))),
     parse_slot = (\<lambda>j. Option.bind (as_str j) (\<lambda>t. map_option demo_slot (parse_u64 t))),
     pretty = (\<lambda>j. unwrap_or (as_str j) []), parse_json = (\<lambda>t. Some (JString t))\<rparr>"

definition demo_news :: "u64 \<Rightarrow> slot_news" where
  "demo_news n = \<lparr>next_slot = Some (demo_slot n), next_slot_with_children = Some (demo_slot n),
     finalized_slot = Some (demo_slot (n - 1)), finalized_slot_with_children = Some (demo_slot (n - 1))\<rparr>"

definition demo_snapshot_dirs :: directories where
  "demo_snapshot_dirs = \<lparr>rollup_root = [], acceptance_test_dir = [], rollup_build_cache_dir = [],
     manager_build_dir = [], output_dir = [], rollup_data_path = [], snapshots_dir = [], throughput_dir = []\<rparr>"

definition demo_monitored :: "fetch_error + ledger_slot list \<times> slot_monitor \<times> fs" where
  "demo_monitored = monitor_run demo_codec SaveSnapshot [demo_news 3, demo_news 4] (new_monitor demo_snapshot_dirs) [([], Dir)]"

lemma demo_monitored_slots:
  "(case demo_monitored of Inl e \<Rightarrow> None | Inr r \<Rightarrow> Some (fst r)) = Some [demo_slot 3, demo_slot 4]"
  by code_simp

lemma monitored_slots_validate_witness:
  "\<exists>m' fs'. demo_monitored = Inr ([demo_slot 3, demo_slot 4], m', fs') \<and>
     validate_against_snapshot demo_codec (demo_slot 3) [] fs' = Inr () \<and>
     validate_against_snapshot demo_codec (demo_slot 4) [] fs' = Inr ()"
proof -
  from demo_monitored_slots obtain m' fs' where run: "demo_monitored = Inr ([demo_slot 3, demo_slot 4], m', fs')"
    by (auto split: sum.splits)
  from monitored_slots_validate [OF run [unfolded demo_monitored_def]] run show ?thesis
    by (intro exI [of _ m'] exI [of _ fs']) (simp add: demo_codec_def demo_snapshot_dirs_def)
qed

section \<open>What the resync loop has checked\<close>

text \<open>At some point of the history the node answered a request for the slot with what its snapshot
  says.\<close>

definition confirmed :: "codec \<Rightarrow> ledger_node \<Rightarrow> path \<Rightarrow> fs \<Rightarrow> ledger_request list \<Rightarrow> u64 \<Rightarrow> bool" where
  "confirmed c n out fs h j \<longleftrightarrow>
     (\<exists>g x rest s snapshot. h = g @ [GetSlot (ById j) x] @ rest \<and>
        slot_answer n (g @ [GetSlot (ById j) x]) = Some s \<and>
        load_snapshot_json c j out fs = Inr (Inr snapshot) \<and> slot_json c s = snapshot)"

lemma confirmed_append: "confirmed c n out fs h j \<Longrightarrow> confirmed c n out fs (h @ t) j"
  unfolding confirmed_def by (metis append.assoc)

lemma check_snapshot_slot_going:
  assumes "check_snapshot_slot c n out fs expected latest i h = (Inr (Going latest'), h')"
  shows "(\<exists>t. h' = h @ t) \<and> (i < 10 \<or> confirmed c n out fs h' i)"
proof -
  from assms obtain r where r: "load_snapshot_json c i out fs = Inr r"
    by (auto simp: check_snapshot_slot_def io_bind_Inr_iff)
  show ?thesis
  proof (cases r)
    case (Inl e)
    with assms r show ?thesis
      by (auto simp: check_snapshot_slot_def io_bind_def split: if_splits)
  next
    case (Inr snapshot)
    with assms r obtain x s where
      "slot_answer n (h @ [GetSlot (ById i) x]) = Some s" "slot_json c s = snapshot"
      "h' = h @ [GetSlot (ById i) x]"
      by (auto simp: check_snapshot_slot_def io_bind_Inr_iff get_slot_by_id_def ask_def
          compare_against_snapshot_def slot_to_json_def split: option.splits)
    with r Inr show ?thesis unfolding confirmed_def by (metis append.right_neutral)
  qed
qed

lemma check_snapshot_slot_resynced:
  assumes "check_snapshot_slot c n out fs expected latest i h = (Inr (Resynced k l), h')"
  shows "k = i \<and> l = latest \<and> h' = h \<and> 10 \<le> i \<and> expected \<le> latest \<and> (\<exists>e. load_snapshot_json c i out fs = Inr (Inl e))"
  using assms
  by (auto simp: check_snapshot_slot_def io_bind_def get_slot_by_id_def ask_def split: sum.splits if_splits option.splits prod.splits)

abbreviation slot_checked :: "codec \<Rightarrow> ledger_node \<Rightarrow> path \<Rightarrow> fs \<Rightarrow> ledger_request list \<Rightarrow> u64 \<Rightarrow> bool" where
  "slot_checked c n out fs h j \<equiv> j < 10 \<or> confirmed c n out fs h j"

lemma check_snapshot_slots_going:
  assumes "check_snapshot_slots c n out fs expected is latest h = (Inr (Going latest'), h')"
  shows "(\<exists>t. h' = h @ t) \<and> (\<forall>i \<in> set is. slot_checked c n out fs h' i)"
  using assms
proof (induction "is" arbitrary: latest h)
  case (Cons i js)
  from Cons.prems obtain r h1 where r: "check_snapshot_slot c n out fs expected latest i h = (Inr r, h1)"
    by (auto simp: io_bind_Inr_iff)
  with Cons.prems obtain l1 where "r = Going l1" by (cases r) (auto simp: io_bind_def)
  with r Cons.prems have
    step: "check_snapshot_slot c n out fs expected latest i h = (Inr (Going l1), h1)"
    and rest: "check_snapshot_slots c n out fs expected js l1 h1 = (Inr (Going latest'), h')"
    by (simp_all add: io_bind_def)
  from check_snapshot_slot_going [OF step] Cons.IH [OF rest] confirmed_append [of c n out fs h1 i]
  show ?case by auto
qed auto

lemma check_snapshot_slots_resynced:
  assumes "check_snapshot_slots c n out fs expected is latest h = (Inr (Resynced k l), h')"
  shows "(\<exists>t. h' = h @ t) \<and> (\<exists>pre post. is = pre @ k # post \<and> (\<forall>i \<in> set pre. slot_checked c n out fs h' i)) \<and>
    10 \<le> k \<and> expected \<le> l \<and> (\<exists>e. load_snapshot_json c k out fs = Inr (Inl e))"
  using assms
proof (induction "is" arbitrary: latest h)
  case (Cons i js)
  from Cons.prems obtain r h1 where step: "check_snapshot_slot c n out fs expected latest i h = (Inr r, h1)"
    by (auto simp: io_bind_Inr_iff)
  show ?case
  proof (cases r)
    case (Going l1)
    with Cons.prems step have rest: "check_snapshot_slots c n out fs expected js l1 h1 = (Inr (Resynced k l), h')"
      by (simp add: io_bind_def)
    from Cons.IH [OF rest] obtain t pre post where
      IH: "h' = h1 @ t" "js = pre @ k # post" "\<forall>i \<in> set pre. slot_checked c n out fs h' i"
        "10 \<le> k \<and> expected \<le> l \<and> (\<exists>e. load_snapshot_json c k out fs = Inr (Inl e))" by blast
    from check_snapshot_slot_going [OF step [unfolded Going]] IH(1) confirmed_append [of c n out fs h1 i t]
    have "slot_checked c n out fs h' i" "\<exists>t. h' = h @ t" by auto
    moreover have "i # js = (i # pre) @ k # post" using IH(2) by simp
    ultimately show ?thesis using IH(3,4) by (metis set_ConsD)
  next
    case (Resynced k' l')
    with Cons.prems step have "k' = k" "l' = l" "h' = h1" by (simp_all add: io_bind_def)
    with check_snapshot_slot_resynced [OF step [unfolded Resynced]] show ?thesis
      by (metis append_Nil append.right_neutral empty_iff list.set(1))
  qed
qed simp

lemma in_inclusive_range: "j \<in> set (inclusive_range a b) \<longleftrightarrow> a \<le> j \<and> j \<le> b"
proof -
  have "j \<in> set (inclusive_range a b) \<longleftrightarrow> (\<exists>m. unat a \<le> m \<and> m \<le> unat b \<and> j = of_nat m)"
    by (auto simp: inclusive_range_def)
  also have "\<dots> \<longleftrightarrow> a \<le> j \<and> j \<le> b"
  proof safe
    fix m
    assume m: "unat a \<le> m" "m \<le> unat b"
    have "unat b < 2 ^ LENGTH(64)" by (rule unsigned_less)
    with m have "m < 2 ^ LENGTH(64)" by simp
    then have "unat (of_nat m :: u64) = m" by (rule unat_of_nat_small)
    with m show "a \<le> of_nat m" "of_nat m \<le> b" by (simp_all add: word_le_nat_alt)
  next
    assume "a \<le> j" "j \<le> b"
    then show "\<exists>m. unat a \<le> m \<and> m \<le> unat b \<and> j = of_nat m"
      by (intro exI [of _ "unat j"]) (simp add: word_le_nat_alt)
  qed
  finally show ?thesis .
qed

lemma inclusive_range_before:
  assumes "inclusive_range a b = pre @ k # post" "a \<le> j" "j < k"
  shows "j \<in> set pre"
proof -
  let ?m = "unat a + length pre"
  have len: "length pre < unat b + 1 - unat a"
    using arg_cong [OF assms(1), of length] by (simp add: inclusive_range_def del: upt_Suc)
  have nth: "(pre @ k # post) ! i = of_nat (unat a + i)" if "i \<le> length pre" for i
    using that len by (simp add: assms(1) [symmetric] inclusive_range_def del: upt_Suc)
  have "unat b < 2 ^ LENGTH(64)" by (rule unsigned_less)
  with len have "?m < 2 ^ LENGTH(64)" by simp
  then have "unat (of_nat ?m :: u64) = ?m" by (rule unat_of_nat_small)
  with nth [of "length pre"] assms(2,3) have j: "unat a \<le> unat j" "unat j < ?m"
    by (simp_all add: word_less_nat_alt word_le_nat_alt)
  then have "unat j - unat a < length pre" by simp
  with nth [of "unat j - unat a"] j have "pre ! (unat j - unat a) = j" by (simp add: nth_append)
  with \<open>unat j - unat a < length pre\<close> show ?thesis by (metis nth_mem)
qed

lemma resync_loop_checked:
  assumes "resync_loop c n out fs expected es checked latest h = (Inr (Some (k, l)), h')"
    and "\<forall>j < checked. slot_checked c n out fs h j"
  shows "(\<forall>j < k. slot_checked c n out fs h' j) \<and> 10 \<le> k \<and> expected \<le> l \<and>
    (\<exists>e. load_snapshot_json c k out fs = Inr (Inl e))"
  using assms
proof (induction es arbitrary: checked latest h)
  case (Cons e es)
  then obtain s where s: "e = NewSlot s" by (cases e) simp_all
  from Cons.prems(1) s obtain r h1 where
    step: "check_snapshot_slots c n out fs expected (inclusive_range checked (number s)) latest h = (Inr r, h1)"
    by (auto simp: io_bind_Inr_iff)
  show ?case
  proof (cases r)
    case (Going l1)
    with Cons.prems(1) s step have rest: "resync_loop c n out fs expected es (number s) l1 h1 = (Inr (Some (k, l)), h')"
      by (simp add: io_bind_def)
    from check_snapshot_slots_going [OF step [unfolded Going]] obtain t where
      t: "h1 = h @ t" "\<forall>i \<in> set (inclusive_range checked (number s)). slot_checked c n out fs h1 i" by blast
    have "slot_checked c n out fs h1 j" if "j < number s" for j
    proof (cases "j < checked")
      case True
      with Cons.prems(2) t(1) confirmed_append [of c n out fs h j t] show ?thesis by auto
    next
      case False
      with t(2) that show ?thesis by (simp add: in_inclusive_range not_less)
    qed
    with Cons.IH [OF rest] show ?thesis by blast
  next
    case (Resynced k' l')
    with Cons.prems(1) s step have eq: "k' = k" "l' = l" "h' = h1" by (simp_all add: io_bind_def)
    from check_snapshot_slots_resynced [OF step [unfolded Resynced eq]] obtain t pre post where
      t: "h1 = h @ t" "inclusive_range checked (number s) = pre @ k # post"
        "\<forall>i \<in> set pre. slot_checked c n out fs h1 i"
      and last: "10 \<le> k \<and> expected \<le> l \<and> (\<exists>e. load_snapshot_json c k out fs = Inr (Inl e))" by blast
    have "slot_checked c n out fs h1 j" if "j < k" for j
    proof (cases "j < checked")
      case True
      with Cons.prems(2) t(1) confirmed_append [of c n out fs h j t] show ?thesis by auto
    next
      case False
      with inclusive_range_before [OF t(2) _ that] t(3) show ?thesis by simp
    qed
    with last eq show ?thesis by simp
  qed
qed simp

text \<open>Property C35. When the test declares the node resynced, it stopped at the first slot k >= 10 that has no
  snapshot, it had seen at least the batches of the setup run, and for every slot number from 10 up
  to k the node had answered with exactly the slot the snapshot holds.
\<close>

theorem resync_compares_every_slot:
  assumes "resync_loop c n out fs expected es 0 0 [] = (Inr (Some (k, l)), h)"
  shows "10 \<le> k \<and> expected \<le> l \<and> (\<exists>e. load_snapshot_json c k out fs = Inr (Inl e)) \<and>
    (\<forall>j. 10 \<le> j \<longrightarrow> j < k \<longrightarrow> confirmed c n out fs h j)"
  using resync_loop_checked [OF assms] by auto

lemma check_snapshot_slots_early:
  "load_snapshot_json c i out fs = Inr (Inl e) \<Longrightarrow> i < 10 \<Longrightarrow>
     check_snapshot_slots c n out fs expected (i # is) latest h = check_snapshot_slots c n out fs expected is latest h"
  by (simp add: check_snapshot_slot_def io_bind_def)

definition demo_node :: ledger_node where
  "demo_node = \<lparr>slot_answer = (\<lambda>h. Some (demo_slot 10)), batch_answer = (\<lambda>h. None)\<rparr>"

definition demo_snapshots :: fs where
  "demo_snapshots = [([], Dir), ([snapshot_file 10], File ''10'')]"

lemma demo_load_snapshot:
  "load_snapshot_json demo_codec i [] demo_snapshots = Inr (if i = 10 then Inr (JString ''10'') else Inl NotFound)"
  by (simp add: load_snapshot_json_def read_to_string_def demo_snapshots_def node_at_def missing_def
      is_file_def demo_codec_def)

lemma demo_range:
  "inclusive_range 0 11 = [0, 1, 2, 3, 4, 5, 6, 7, 8, 9, 10, 11]"
  by (simp add: inclusive_range_def upt_conv_Cons)

lemma demo_show: "show_u64 10 = ''10''"
  by code_simp

lemma demo_parse_slot: "parse_slot demo_codec (JString ''10'') = Some (demo_slot 10)"
  using parse_show_u64 [of 10] by (simp add: demo_codec_def demo_show)

lemma demo_resync_eq:
  "resync_loop demo_codec demo_node [] demo_snapshots 0 [NewSlot (demo_slot 11)] 0 0 [] =
     (Inr (Some (11, 0)), [GetSlot (ById 10) None])"
proof -
  have ten: "check_snapshot_slot demo_codec demo_node [] demo_snapshots 0 0 10 [] =
    (Inr (Going 0), [GetSlot (ById 10) None])"
    by (simp add: check_snapshot_slot_def demo_load_snapshot demo_parse_slot io_bind_def unwrap_def
        get_slot_by_id_def ask_def demo_node_def compare_against_snapshot_def slot_to_json_def saturating_sub64_def)
      (simp add: demo_slot_def demo_codec_def demo_show)
  have eleven: "check_snapshot_slot demo_codec demo_node [] demo_snapshots 0 0 11 h = (Inr (Resynced 11 0), h)" for h
    by (simp add: check_snapshot_slot_def demo_load_snapshot io_bind_def)
  have last: "check_snapshot_slots demo_codec demo_node [] demo_snapshots 0 [10, 11] 0 [] =
    (Inr (Resynced 11 0), [GetSlot (ById 10) None])"
    by (simp add: io_bind_def ten eleven)
  have "number (demo_slot 11) = 11" by (simp add: demo_slot_def)
  then show ?thesis
    by (simp add: demo_range check_snapshot_slots_early demo_load_snapshot io_bind_def last
        del: check_snapshot_slots.simps)
qed

lemma resync_compares_every_slot_witness:
  "confirmed demo_codec demo_node [] demo_snapshots [GetSlot (ById 10) None] 10"
  using resync_compares_every_slot [OF demo_resync_eq] by simp

end
