(* ===== verification/Acceptance_State.thy ===== *)
theory Acceptance_State
  imports Acceptance_Slots
begin

text \<open>
  The state validation worker of the acceptance test
  (\<open>scripts/acceptance-test/src/state_consistency.rs\<close>): for every new slot it waits until the
  sequencer has started the next block, reads heights and state root from the node and submits a
  transaction that asserts them. Signing belongs to the SDK; sleeping is left out, and the counters
  of attempts that bound the waiting are kept.
\<close>

section \<open>Draining the slot stream\<close>

text \<open>What a subscription delivers: a slot, an error, or nothing for the moment. An asynchronous
  \<open>next\<close> waits through the latter, \<open>now_or_never\<close> does not. The end of the list closes the stream.\<close>

datatype stream_event = Item ledger_slot | Broken | Pending

datatype worker_error =
    Client client_error | TooManyErrors | TimedOut | NotSubmitted

fun first_slot :: "nat \<Rightarrow> stream_event list \<Rightarrow> worker_error + (ledger_slot \<times> stream_event list) option" where
  "first_slot errors [] = Inr None"
| "first_slot errors (Item s # es) = Inr (Some (s, es))"
| "first_slot errors (Pending # es) = first_slot errors es"
| "first_slot errors (Broken # es) =
     (if errors + 1 \<ge> 5 then Inl TooManyErrors else first_slot (errors + 1) es)"

text \<open>The event that ends the draining is consumed: an error there is lost.\<close>

fun drain_queued :: "ledger_slot \<Rightarrow> stream_event list \<Rightarrow> ledger_slot \<times> stream_event list" where
  "drain_queued latest (Item s # es) = drain_queued s es"
| "drain_queued latest (Broken # es) = (latest, es)"
| "drain_queued latest (Pending # es) = (latest, es)"
| "drain_queued latest [] = (latest, [])"

definition drain_slot_stream :: "stream_event list \<Rightarrow> worker_error + (ledger_slot \<times> stream_event list) option" where
  "drain_slot_stream es =
     rbind (first_slot 0 es) (\<lambda>r.
     Inr (map_option (\<lambda>(s, rest). drain_queued s rest) r))"

section \<open>Reading the node's state\<close>

definition api_url :: string where
  "api_url = ''http://127.0.0.1:12348''"

text \<open>The transaction the worker signs and sends.\<close>

record assert_block_state =
  expected_visible_slot_number :: u64
  expected_rollup_height :: u64
  expected_state_root :: bytes

type_synonym 'a worker_act = "(worker_error, assert_block_state request, 'a) act"

definition query_state_value ::
    "(json \<Rightarrow> 'a option) \<Rightarrow> assert_block_state env \<Rightarrow> string \<Rightarrow> 'a worker_act" where
  "query_state_value decode env url =
     io_map_err Client
      (io_bind (send env (HttpGet url)) (\<lambda>v.
       io_lift (case struct_fields [''value''] v of
                  Some [x] \<Rightarrow> (case decode x of None \<Rightarrow> Inl BadJson | Some a \<Rightarrow> Inr a)
                | _ \<Rightarrow> Inl BadJson)))"

fun pair_u64 :: "json \<Rightarrow> (u64 \<times> u64) option" where
  "pair_u64 (JArray [a, b]) =
     (case (as_u64 a, as_u64 b) of (Some x, Some y) \<Rightarrow> Some (x, y) | _ \<Rightarrow> None)"
| "pair_u64 v = None"

definition byte_of :: "json \<Rightarrow> byte option" where
  "byte_of v = (case as_u64 v of None \<Rightarrow> None | Some n \<Rightarrow> if n < 256 then Some (ucast n) else None)"

definition root_hashes :: "json \<Rightarrow> bytes option" where
  "root_hashes v =
     (case struct_fields [''root_hashes''] v of
        Some [x] \<Rightarrow> Option.bind (as_array x) (\<lambda>xs. those (map byte_of xs))
      | _ \<Rightarrow> None)"

definition true_slot_url :: string where
  "true_slot_url = api_url @ ''/modules/chain-state/state/true-slot-number/''"

definition current_heights_url :: string where
  "current_heights_url = api_url @ ''/modules/chain-state/state/current-heights/''"

definition state_root_url :: string where
  "state_root_url = api_url @ ''/modules/state-consistency/state/latest-state-root/''"

definition query_true_slot_number :: "assert_block_state env \<Rightarrow> u64 worker_act" where
  "query_true_slot_number env = query_state_value as_u64 env true_slot_url"

definition query_current_heights :: "assert_block_state env \<Rightarrow> (u64 \<times> u64) worker_act" where
  "query_current_heights env = query_state_value pair_u64 env current_heights_url"

definition query_state_root :: "assert_block_state env \<Rightarrow> bytes worker_act" where
  "query_state_root env = query_state_value root_hashes env state_root_url"

section \<open>Waiting for the next block\<close>

text \<open>\<open>tokio::join\<close> makes both requests before it looks at either result.\<close>

definition io_join :: "('e, 'q, 'a) act \<Rightarrow> ('e, 'q, 'b) act \<Rightarrow> ('e, 'q, 'a \<times> 'b) act" where
  "io_join m n h =
     (case m h of (r, h1) \<Rightarrow>
      case n h1 of (s, h2) \<Rightarrow> (rbind r (\<lambda>a. rbind s (\<lambda>b. Inr (a, b))), h2))"

text \<open>The first argument counts the attempts that are left.\<close>

fun wait_block_start :: "nat \<Rightarrow> assert_block_state env \<Rightarrow> u64 \<Rightarrow> (u64 \<times> u64) worker_act" where
  "wait_block_start 0 env n = io_lift (Inl TimedOut)"
| "wait_block_start (Suc k) env n =
     io_bind (io_join (query_true_slot_number env) (query_current_heights env)) (\<lambda>(true_slot, heights).
     if n \<le> true_slot then io_return heights else wait_block_start k env n)"

fun wait_height :: "nat \<Rightarrow> assert_block_state env \<Rightarrow> u64 \<Rightarrow> (u64 \<times> u64) worker_act" where
  "wait_height 0 env start = io_lift (Inl TimedOut)"
| "wait_height (Suc k) env start =
     io_bind (query_current_heights env) (\<lambda>heights.
     if fst heights > start \<or> k = 0 then io_return heights else wait_height k env start)"

definition poll_for_api_state_update :: "assert_block_state env \<Rightarrow> u64 \<Rightarrow> (u64 \<times> u64) worker_act" where
  "poll_for_api_state_update env n =
     io_bind (wait_block_start 600 env n) (\<lambda>at_start.
     wait_height 20 env (fst at_start))"

section \<open>Asserting\<close>

definition height_prefix :: string where
  "height_prefix = ''Block state assertion failed at rollup height ''"

definition is_ascii_digit :: "char \<Rightarrow> bool" where
  "is_ascii_digit c = (let n = (of_char c :: nat) in 48 \<le> n \<and> n < 58)"

definition extract_rollup_height_from_error :: "string \<Rightarrow> u64 option" where
  "extract_rollup_height_from_error s =
     (case find_str height_prefix s of
        None \<Rightarrow> None
      | Some i \<Rightarrow> parse_u64 (takeWhile is_ascii_digit (drop (i + length height_prefix) s)))"

text \<open>How the SDK client reports a rejected transaction: its text, and for an error response of
  the node the detail \<open>message\<close>.\<close>

record submit_error =
  error_text :: string
  error_message :: "json option"

definition is_too_late_error :: "submit_error \<Rightarrow> u64 \<Rightarrow> bool" where
  "is_too_late_error e expected =
     (case Option.bind (error_message e) as_str of
        None \<Rightarrow> False
      | Some s \<Rightarrow>
          (case extract_rollup_height_from_error s of
             None \<Rightarrow> False | Some actual \<Rightarrow> actual > expected))"

definition stop_height_marker :: string where
  "stop_height_marker = ''The preferred sequencer has reached the stop height''"

text \<open>\<open>submit\<close> is the answer of the SDK client to the transaction that ends a history.\<close>

definition send_assert_block_tx ::
    "(assert_block_state request list \<Rightarrow> submit_error option) \<Rightarrow> u64 \<Rightarrow> u64 \<Rightarrow> bytes \<Rightarrow> unit worker_act" where
  "send_assert_block_tx submit visible height root =
     ask (\<lambda>h. case submit h of
                None \<Rightarrow> Inr ()
              | Some e \<Rightarrow>
                  if contains_str stop_height_marker (error_text e) then Inr ()
                  else if is_too_late_error e height then Inr ()
                  else Inl NotSubmitted)
       (RpcPost api_url ''send_tx_to_sequencer''
         (Message \<lparr>expected_visible_slot_number = visible, expected_rollup_height = height,
           expected_state_root = root\<rparr>))"

lemma first_slot_shorter: "first_slot n es = Inr (Some (s, rest)) \<Longrightarrow> length rest < length es"
  by (induction n es rule: first_slot.induct) (auto split: if_splits)

lemma drain_queued_shorter: "length (snd (drain_queued s es)) \<le> length es"
  by (induction s es rule: drain_queued.induct) auto

lemma drain_shorter: "drain_slot_stream es = Inr (Some (s, rest)) \<Longrightarrow> length rest < length es"
  using drain_queued_shorter
  by (auto simp: drain_slot_stream_def dest!: first_slot_shorter split: prod.splits) (metis le_less_trans snd_conv)

text \<open>The body of the worker's loop for a new slot.\<close>

definition assert_slot ::
    "assert_block_state env \<Rightarrow> (assert_block_state request list \<Rightarrow> submit_error option) \<Rightarrow> u64 \<Rightarrow> unit worker_act" where
  "assert_slot env submit n =
     io_bind (poll_for_api_state_update env n) (\<lambda>heights.
     io_bind (query_state_root env) (\<lambda>root.
     send_assert_block_tx submit (snd heights) (fst heights) root))"

function state_validation_worker ::
    "assert_block_state env \<Rightarrow> (assert_block_state request list \<Rightarrow> submit_error option) \<Rightarrow> u64 \<Rightarrow>
     stream_event list \<Rightarrow> unit worker_act" where
  "state_validation_worker env submit stop es =
     (case drain_slot_stream es of
        Inl e \<Rightarrow> io_lift (Inl e)
      | Inr None \<Rightarrow> io_return ()
      | Inr (Some (s, rest)) \<Rightarrow>
          if number s \<ge> stop then io_return ()
          else io_bind (assert_slot env submit (number s)) (\<lambda>_.
               state_validation_worker env submit stop rest))"
  by pat_completeness auto
termination
  by (relation "measure (\<lambda>(env, submit, stop, es). length es)") (auto dest: drain_shorter)

declare state_validation_worker.simps [simp del]

section \<open>Error messages\<close>

lemma takeWhile_digits: "list_all is_ascii_digit s \<Longrightarrow> \<not> is_ascii_digit c \<Longrightarrow> takeWhile is_ascii_digit (s @ c # t) = s"
  by (induction s) auto

lemma show_nat_digits: "list_all is_ascii_digit (show_nat n)"
proof (induction n rule: show_nat.induct)
  case (1 n)
  have "is_ascii_digit (digit_char d)" if "d < 10" for d
    using that by (simp add: is_ascii_digit_def of_char_digit_char)
  with 1 show ?case by (subst show_nat.simps) auto
qed

lemma extract_rollup_height:
  assumes "CHR ''B'' \<notin> set s" "\<not> is_ascii_digit c"
  shows "extract_rollup_height_from_error (s @ height_prefix @ show_u64 h @ c # t) = Some h"
proof -
  obtain p where p: "height_prefix = CHR ''B'' # p" by (simp add: height_prefix_def)
  have "find_str height_prefix (s @ height_prefix @ show_u64 h @ c # t) = Some (length s)"
    unfolding p using find_str_first [OF assms(1), of p "show_u64 h @ c # t"] by simp
  moreover have "drop (length s + length height_prefix) (s @ height_prefix @ show_u64 h @ c # t) = show_u64 h @ c # t"
    by simp
  moreover have "takeWhile is_ascii_digit (show_u64 h @ c # t) = show_u64 h"
    using takeWhile_digits [OF show_nat_digits assms(2), of "unat h" t] by (simp add: show_u64_def)
  ultimately show ?thesis by (simp add: extract_rollup_height_from_error_def)
qed

text \<open>Of the assertions that fail, exactly those for a height the rollup has passed are forgiven.\<close>

lemma is_too_late_error_iff:
  assumes "error_message e = Some (JString (s @ height_prefix @ show_u64 actual @ c # t))"
    and "CHR ''B'' \<notin> set s" "\<not> is_ascii_digit c"
  shows "is_too_late_error e expected \<longleftrightarrow> expected < actual"
  using assms(1) extract_rollup_height [OF assms(2,3)] by (simp add: is_too_late_error_def)

section \<open>Waiting ends\<close>

text \<open>\<open>makes_at_most k P m\<close>: whatever the outside answers, \<open>m\<close> makes at most \<open>k\<close> requests, all of
  which satisfy \<open>P\<close>.\<close>

definition makes_at_most :: "nat \<Rightarrow> ('q \<Rightarrow> bool) \<Rightarrow> ('e, 'q, 'a) act \<Rightarrow> bool" where
  "makes_at_most k P m \<longleftrightarrow> (\<forall>h. \<exists>rs. snd (m h) = h @ rs \<and> length rs \<le> k \<and> list_all P rs)"

lemma makes_pure: "makes_at_most 0 P (io_lift r)" "makes_at_most 0 P (io_return x)"
  by (simp_all add: makes_at_most_def)

lemma makes_mono: "makes_at_most j P m \<Longrightarrow> j \<le> k \<Longrightarrow> makes_at_most k P m"
  unfolding makes_at_most_def by (meson order_trans)

lemma makes_none: "makes_at_most k P (\<lambda>h. (r, h))" "makes_at_most k P (io_return x)" "makes_at_most k P (Pair r)"
  by (simp_all add: makes_at_most_def)

lemma makes_bind:
  assumes "makes_at_most j P m" "\<And>x. makes_at_most k P (f x)"
  shows "makes_at_most (j + k) P (io_bind m f)"
  unfolding makes_at_most_def
proof
  fix h
  from assms(1) obtain rs where rs: "snd (m h) = h @ rs" "length rs \<le> j" "list_all P rs"
    unfolding makes_at_most_def by blast
  show "\<exists>rs. snd (io_bind m f h) = h @ rs \<and> length rs \<le> j + k \<and> list_all P rs"
  proof (cases "fst (m h)")
    case (Inl e)
    with rs show ?thesis by (auto simp: io_bind_def split: prod.splits sum.splits)
  next
    case (Inr x)
    from assms(2) [of x] obtain rs2 where "snd (f x (h @ rs)) = (h @ rs) @ rs2" "length rs2 \<le> k" "list_all P rs2"
      unfolding makes_at_most_def by blast
    with rs Inr show ?thesis
      by (intro exI [of _ "rs @ rs2"]) (auto simp: io_bind_def split: prod.splits)
  qed
qed

lemma makes_join:
  assumes "makes_at_most j P m" "makes_at_most k P n"
  shows "makes_at_most (j + k) P (io_join m n)"
  unfolding makes_at_most_def
proof
  fix h
  from assms(1) obtain rs where rs: "snd (m h) = h @ rs" "length rs \<le> j" "list_all P rs"
    unfolding makes_at_most_def by blast
  from assms(2) obtain rs2 where "snd (n (h @ rs)) = (h @ rs) @ rs2" "length rs2 \<le> k" "list_all P rs2"
    unfolding makes_at_most_def by blast
  with rs show "\<exists>rs. snd (io_join m n h) = h @ rs \<and> length rs \<le> j + k \<and> list_all P rs"
    by (intro exI [of _ "rs @ rs2"]) (auto simp: io_join_def split: prod.splits)
qed

abbreviation state_query :: "assert_block_state request \<Rightarrow> bool" where
  "state_query q \<equiv> q = HttpGet true_slot_url \<or> q = HttpGet current_heights_url"

lemma makes_query:
  assumes "P (HttpGet url)"
  shows "makes_at_most 1 P (query_state_value decode env url)"
  using assms
  by (auto simp: makes_at_most_def query_state_value_def io_map_err_def io_bind_def send_def split: option.splits)

lemma makes_wait_block_start: "makes_at_most (2 * k) state_query (wait_block_start k env n)"
proof (induction k)
  case (Suc k)
  have "makes_at_most (1 + 1) state_query (io_join (query_true_slot_number env) (query_current_heights env))"
    unfolding query_true_slot_number_def query_current_heights_def by (intro makes_join makes_query) simp_all
  moreover have "makes_at_most (2 * k) state_query (if n \<le> a then io_return b else wait_block_start k env n)" for a b
    by (simp add: Suc.IH makes_none)
  ultimately have "makes_at_most (1 + 1 + 2 * k) state_query (wait_block_start (Suc k) env n)"
    unfolding wait_block_start.simps by (intro makes_bind) (auto split: prod.split)
  then show ?case by simp
qed (simp add: makes_at_most_def)

lemma makes_wait_height: "makes_at_most k state_query (wait_height k env start)"
proof (induction k)
  case (Suc k)
  have "makes_at_most 1 state_query (query_current_heights env)"
    unfolding query_current_heights_def by (rule makes_query) simp
  moreover have "makes_at_most k state_query (if fst b > start \<or> k = 0 then io_return b else wait_height k env start)" for b
    by (simp add: Suc.IH makes_none)
  ultimately have "makes_at_most (1 + k) state_query (wait_height (Suc k) env start)"
    unfolding wait_height.simps by (intro makes_bind)
  then show ?case by simp
qed (simp add: makes_at_most_def)

text \<open>Waiting for the next block ends: whatever the node answers, it takes at most 1220
  requests, all of them for the slot number or the heights.
\<close>

lemma polling_ends:
  "\<exists>rs. snd (poll_for_api_state_update env n h) = h @ rs \<and> length rs \<le> 1220 \<and>
     list_all (\<lambda>q. q = HttpGet true_slot_url \<or> q = HttpGet current_heights_url) rs"
proof -
  have "makes_at_most (2 * 600 + 20) state_query (poll_for_api_state_update env n)"
    unfolding poll_for_api_state_update_def by (intro makes_bind makes_wait_block_start makes_wait_height)
  then show ?thesis unfolding makes_at_most_def by simp
qed

section \<open>Assertions rest on what the node said\<close>

definition observed :: "(json \<Rightarrow> 'a option) \<Rightarrow> assert_block_state env \<Rightarrow> string \<Rightarrow> assert_block_state request list \<Rightarrow> 'a \<Rightarrow> bool" where
  "observed decode env url h x \<longleftrightarrow>
     (\<exists>g v y. h = g @ [HttpGet url] \<and> env h = Some v \<and> struct_fields [''value''] v = Some [y] \<and> decode y = Some x)"

fun assertion_observed :: "assert_block_state env \<Rightarrow> assert_block_state request list \<Rightarrow> assert_block_state request \<Rightarrow> bool" where
  "assertion_observed env h (RpcPost url m (Message tx)) \<longleftrightarrow>
     (\<exists>g. h = g @ [HttpGet state_root_url] \<and>
        observed root_hashes env state_root_url h (expected_state_root tx) \<and>
        observed pair_u64 env current_heights_url g (expected_rollup_height tx, expected_visible_slot_number tx))"
| "assertion_observed env h q \<longleftrightarrow> True"

lemma query_Inr:
  assumes "query_state_value decode env url h = (Inr x, h')"
  shows "h' = h @ [HttpGet url]" "observed decode env url h' x"
  using assms
  by (auto simp: query_state_value_def io_map_err_def io_bind_def send_def observed_def
      split: prod.splits sum.splits option.splits list.splits)

lemma wait_height_Inr:
  "wait_height k env start h = (Inr x, h') \<Longrightarrow> observed pair_u64 env current_heights_url h' x"
proof (induction k arbitrary: h)
  case (Suc k)
  from Suc.prems obtain y h1 where q: "query_current_heights env h = (Inr y, h1)"
    and rest: "(if fst y > start \<or> k = 0 then io_return y else wait_height k env start) h1 = (Inr x, h')"
    unfolding wait_height.simps io_bind_Inr_iff by blast
  show ?case
  proof (cases "fst y > start \<or> k = 0")
    case True
    with rest have "y = x" "h1 = h'" by simp_all
    with query_Inr(2) [OF q [unfolded query_current_heights_def]] show ?thesis by simp
  next
    case False
    with rest Suc.IH show ?thesis by simp
  qed
qed simp

lemma justified_act:
  assumes "justified J h" "makes_at_most k P m" "\<And>g q. P q \<Longrightarrow> J g q"
  shows "justified J (snd (m h))"
proof -
  from assms(2) obtain rs where "snd (m h) = h @ rs" "list_all P rs" unfolding makes_at_most_def by blast
  with assms(1,3) show ?thesis by (auto intro!: justified_append elim: list.pred_mono_strong)
qed

lemma makes_poll: "makes_at_most 1220 state_query (poll_for_api_state_update env n)"
proof -
  have "makes_at_most (2 * 600 + 20) state_query (poll_for_api_state_update env n)"
    unfolding poll_for_api_state_update_def by (intro makes_bind makes_wait_block_start makes_wait_height)
  then show ?thesis by simp
qed

lemma state_query_observed: "state_query q \<Longrightarrow> assertion_observed env g q"
  by auto

lemma assert_slot_justified:
  assumes "justified (assertion_observed env) h"
  shows "justified (assertion_observed env) (snd (assert_slot env submit n h))"
proof -
  obtain r h1 where poll: "poll_for_api_state_update env n h = (r, h1)"
    by (cases "poll_for_api_state_update env n h")
  obtain r2 h2 where root: "query_state_root env h1 = (r2, h2)" by (cases "query_state_root env h1")
  have j1: "justified (assertion_observed env) h1"
    using justified_act [OF assms makes_poll state_query_observed, of env n] poll by simp
  have "makes_at_most 1 (\<lambda>q. q = HttpGet state_root_url) (query_state_root env)"
    unfolding query_state_root_def by (rule makes_query) simp
  from justified_act [OF j1 this] root have j2: "justified (assertion_observed env) h2" by auto
  show ?thesis
  proof (cases "\<exists>hv bs. r = Inr hv \<and> r2 = Inr bs")
    case True
    then obtain hv bs where ok: "r = Inr hv" "r2 = Inr bs" by blast
    from poll ok have seen: "observed pair_u64 env current_heights_url h1 hv"
      unfolding poll_for_api_state_update_def by (auto simp: io_bind_Inr_iff dest: wait_height_Inr)
    note rt = query_Inr [OF root [unfolded query_state_root_def ok]]
    from seen rt j2 show ?thesis
      by (simp add: assert_slot_def io_bind_def poll root ok send_assert_block_tx_def ask_def)
  next
    case False
    with j1 j2 poll root show ?thesis
      by (cases r; cases r2) (auto simp: assert_slot_def io_bind_def)
  qed
qed

lemma worker_justified:
  "justified (assertion_observed env) h \<Longrightarrow>
     justified (assertion_observed env) (snd (state_validation_worker env submit stop es h))"
proof (induction env submit stop es arbitrary: h rule: state_validation_worker.induct)
  case (1 env submit stop es)
  show ?case
  proof (cases "\<exists>s rest. drain_slot_stream es = Inr (Some (s, rest)) \<and> number s < stop")
    case False
    with 1(2) show ?thesis
      by (subst state_validation_worker.simps) (auto simp: not_le split: sum.split option.split)
  next
    case True
    then obtain s rest where drain: "drain_slot_stream es = Inr (Some (s, rest))" and more: "number s < stop" by blast
    obtain r h1 where body: "assert_slot env submit (number s) h = (r, h1)" by (cases "assert_slot env submit (number s) h")
    have "justified (assertion_observed env) h1"
      using assert_slot_justified [OF 1(2), of submit "number s"] body by simp
    moreover have "\<not> stop \<le> number s" using more by simp
    ultimately show ?thesis using 1(1) [OF drain refl refl] body drain
      by (subst state_validation_worker.simps) (cases r; simp add: io_bind_def)
  qed
qed

text \<open>Property C36. Every assertion the worker submits holds the heights and the state root the node had
  returned in the two requests directly before, the heights first.
\<close>

theorem assertions_are_observed:
  "justified (assertion_observed env) (snd (state_validation_worker env submit stop es []))"
  by (rule worker_justified) simp

end
