(* ===== verification/Evm_Soak.thy ===== *)
theory Evm_Soak
  imports Acceptance_Config Http_Client
begin

text \<open>
  The EVM part of the acceptance test (\<open>scripts/acceptance-test/src/evm_soak.rs\<close>): the keys of its
  workers, the deployment of the test contracts, their addresses on disk, the configuration of the
  pinned cache, and the worker that increments a contract's value with one transaction after the
  other. The RPC client with its signing, the address type with its text form, the serializer of
  the two files and the ABI of the contract are fields of \<open>evm_crates\<close>; how many transactions a
  round has is random and an argument.
\<close>

section \<open>Keys\<close>

datatype evm_error =
    BadKey | BadIndex | ShortOutput nat | RpcFailed | DeployTimedOut | DeployFailed | NoContractAddress
  | EvmIo fs_error | BadMetadata | BadAddressText

definition PRIVILEGED_DEPLOYER_KEY :: string where
  "PRIVILEGED_DEPLOYER_KEY = ''ac0974bec39a17e36ba4a6b4d238ff944bacb478cbed5efcae784d7bf4f2ff80''"

definition derive_worker_key :: "crates \<Rightarrow> string \<Rightarrow> byte \<Rightarrow> evm_error + string" where
  "derive_worker_key cr root_key worker_idx =
     (case hex_decode cr root_key of
        None \<Rightarrow> Inl BadKey
      | Some bs \<Rightarrow>
          if length bs = 32 then Inr (hex_encode cr ((hd bs + worker_idx) # tl bs)) else Inl BadKey)"

definition unprivileged_deployer_key :: "crates \<Rightarrow> evm_error + string" where
  "unprivileged_deployer_key cr = derive_worker_key cr PRIVILEGED_DEPLOYER_KEY 1"

definition worker_key_for_index :: "crates \<Rightarrow> byte \<Rightarrow> nat \<Rightarrow> evm_error + string" where
  "worker_key_for_index cr offset idx =
     (if idx < 256 then derive_worker_key cr PRIVILEGED_DEPLOYER_KEY (offset + of_nat idx) else Inl BadIndex)"

definition pinned_worker_key :: "crates \<Rightarrow> nat \<Rightarrow> evm_error + string" where
  "pinned_worker_key cr idx = worker_key_for_index cr 10 idx"

definition unpinned_worker_key :: "crates \<Rightarrow> nat \<Rightarrow> evm_error + string" where
  "unpinned_worker_key cr idx = worker_key_for_index cr 60 idx"

section \<open>Transactions\<close>

type_synonym address = bytes20
type_synonym u256 = "256 word"

record evm_tx =
  tx_from :: address
  tx_nonce :: "u64 option"
  tx_to :: "address option"
  tx_data :: bytes
  tx_gas_limit :: "u64 option"
  tx_fees :: "(u128 \<times> u128) option"

definition tx_request :: "address \<Rightarrow> u64 \<Rightarrow> address option \<Rightarrow> bytes \<Rightarrow> u64 \<Rightarrow> evm_tx" where
  "tx_request from nonce to data gas_limit =
     \<lparr>tx_from = from, tx_nonce = Some nonce, tx_to = to, tx_data = data, tx_gas_limit = Some gas_limit,
      tx_fees = Some (1, 100)\<rparr>"

definition call_request :: "address \<Rightarrow> address \<Rightarrow> bytes \<Rightarrow> evm_tx" where
  "call_request from to data =
     \<lparr>tx_from = from, tx_nonce = None, tx_to = Some to, tx_data = data, tx_gas_limit = None, tx_fees = None\<rparr>"

record evm_crates =
  encode_update :: "u256 \<Rightarrow> u256 \<Rightarrow> bytes"
  encode_value :: bytes
  bytecode :: bytes
  signer_address :: "string \<Rightarrow> address"
  show_address :: "address \<Rightarrow> string"
  parse_address :: "string \<Rightarrow> address option"

definition decode_value_output :: "bytes \<Rightarrow> evm_error + u256" where
  "decode_value_output raw =
     (if length raw < 32 then Inl (ShortOutput (length raw))
      else Inr (array32 (drop (length raw - 32) raw)))"

definition STOP_HEIGHT_ERROR_MARKER :: string where
  "STOP_HEIGHT_ERROR_MARKER = ''The preferred sequencer has reached the stop height''"

definition is_stop_height_error_message :: "string \<Rightarrow> bool" where
  "is_stop_height_error_message message =
     (contains_str STOP_HEIGHT_ERROR_MARKER message \<or> contains_str ''stop height'' message)"

section \<open>The node\<close>

text \<open>Requests carry the key they are signed with; the answers to a history's last request are
  arguments. A receipt has a status and may name the deployed contract.\<close>

datatype evm_request =
    Nonce string
  | Call string evm_tx
  | SendTx string evm_tx
  | Receipt u256

record receipt =
  status :: bool
  contract_address :: "address option"

record evm_node =
  nonce_of :: "evm_request list \<Rightarrow> u64"
  call_result :: "evm_request list \<Rightarrow> string + bytes"
  send_result :: "evm_request list \<Rightarrow> string + u256"
  receipt_of :: "evm_request list \<Rightarrow> receipt option"

type_synonym 'a evm_act = "(evm_error, evm_request, 'a) act"

definition get_nonce :: "evm_node \<Rightarrow> string \<Rightarrow> u64 evm_act" where
  "get_nonce n key = ask (\<lambda>h. Inr (nonce_of n h)) (Nonce key)"

text \<open>Errors of these two are values the caller looks at.\<close>

definition eth_call_request :: "evm_node \<Rightarrow> string \<Rightarrow> evm_tx \<Rightarrow> (string + bytes) evm_act" where
  "eth_call_request n key tx = ask (\<lambda>h. Inr (call_result n h)) (Call key tx)"

definition eth_send_transaction :: "evm_node \<Rightarrow> string \<Rightarrow> evm_tx \<Rightarrow> (string + u256) evm_act" where
  "eth_send_transaction n key tx = ask (\<lambda>h. Inr (send_result n h)) (SendTx key tx)"

section \<open>Deployment\<close>

text \<open>The argument bounds how often the receipt is asked for before the 60 seconds are over.\<close>

fun await_receipt :: "nat \<Rightarrow> evm_node \<Rightarrow> u256 \<Rightarrow> address evm_act" where
  "await_receipt 0 n tx_hash = io_lift (Inl DeployTimedOut)"
| "await_receipt (Suc k) n tx_hash =
     io_bind (ask (\<lambda>h. Inr (receipt_of n h)) (Receipt tx_hash)) (\<lambda>r.
     case r of
       None \<Rightarrow> await_receipt k n tx_hash
     | Some rc \<Rightarrow>
         if \<not> status rc then io_lift (Inl DeployFailed)
         else (case contract_address rc of
                 None \<Rightarrow> io_lift (Inl NoContractAddress)
               | Some a \<Rightarrow> io_return a))"

definition deploy_state_consistency_contract ::
    "evm_crates \<Rightarrow> evm_node \<Rightarrow> nat \<Rightarrow> string \<Rightarrow> u64 \<Rightarrow> address evm_act" where
  "deploy_state_consistency_contract ec n tries key nonce =
     io_bind (eth_send_transaction n key (tx_request (signer_address ec key) nonce None (bytecode ec) 5000000)) (\<lambda>r.
     case r of
       Inl e \<Rightarrow> io_lift (Inl RpcFailed)
     | Inr tx_hash \<Rightarrow> await_receipt tries n tx_hash)"

definition saturating_inc :: "u64 \<Rightarrow> u64" where
  "saturating_inc n = saturating_add64 n 1"

fun deploy_contracts ::
    "nat \<Rightarrow> evm_crates \<Rightarrow> evm_node \<Rightarrow> nat \<Rightarrow> string \<Rightarrow> u64 \<Rightarrow> address list evm_act" where
  "deploy_contracts 0 ec n tries key nonce = io_return []"
| "deploy_contracts (Suc k) ec n tries key nonce =
     io_bind (deploy_state_consistency_contract ec n tries key nonce) (\<lambda>a.
     io_bind (deploy_contracts k ec n tries key (saturating_inc nonce)) (\<lambda>as.
     io_return (a # as)))"

record contracts =
  pinned :: "address list"
  unpinned :: "address list"

record metadata_file =
  pinned_addresses :: "string list"
  unpinned_addresses :: "string list"

record file_codec =
  show_metadata :: "metadata_file \<Rightarrow> string"
  parse_metadata :: "string \<Rightarrow> metadata_file option"

definition state_consistency_metadata_path :: "directories \<Rightarrow> path" where
  "state_consistency_metadata_path d = output_dir d @ [''evm''] @ [''state_consistency_contracts.json'']"

definition write_state_consistency_metadata ::
    "evm_crates \<Rightarrow> file_codec \<Rightarrow> directories \<Rightarrow> address list \<Rightarrow> address list \<Rightarrow> fs \<Rightarrow> evm_error + fs" where
  "write_state_consistency_metadata ec fc d ps us fs =
     rbind (map_err EvmIo (create_dir_all (butlast (state_consistency_metadata_path d)) fs)) (\<lambda>fs.
     map_err EvmIo (write_file (state_consistency_metadata_path d)
       (show_metadata fc \<lparr>pinned_addresses = map (show_address ec) ps, unpinned_addresses = map (show_address ec) us\<rparr>) fs))"

definition parse_addresses :: "evm_crates \<Rightarrow> string list \<Rightarrow> evm_error + address list" where
  "parse_addresses ec =
     rmap (\<lambda>s. case parse_address ec s of None \<Rightarrow> Inl BadAddressText | Some a \<Rightarrow> Inr a)"

definition load_state_consistency_contracts ::
    "evm_crates \<Rightarrow> file_codec \<Rightarrow> directories \<Rightarrow> fs \<Rightarrow> evm_error + contracts" where
  "load_state_consistency_contracts ec fc d fs =
     rbind (map_err EvmIo (read_to_string (state_consistency_metadata_path d) fs)) (\<lambda>raw.
     case parse_metadata fc raw of
       None \<Rightarrow> Inl BadMetadata
     | Some m \<Rightarrow>
         rbind (parse_addresses ec (pinned_addresses m)) (\<lambda>ps.
         rbind (parse_addresses ec (unpinned_addresses m)) (\<lambda>us.
         Inr \<lparr>pinned = ps, unpinned = us\<rparr>)))"

definition setup_state_consistency_contracts ::
    "crates \<Rightarrow> evm_crates \<Rightarrow> file_codec \<Rightarrow> evm_node \<Rightarrow> nat \<Rightarrow> directories \<Rightarrow> fs \<Rightarrow> (contracts \<times> fs) evm_act" where
  "setup_state_consistency_contracts cr ec fc n tries d fs =
     io_bind (io_lift (unprivileged_deployer_key cr)) (\<lambda>unprivileged_key.
     io_bind (get_nonce n PRIVILEGED_DEPLOYER_KEY) (\<lambda>nonce.
     io_bind (deploy_contracts 5 ec n tries PRIVILEGED_DEPLOYER_KEY nonce) (\<lambda>ps.
     io_bind (get_nonce n unprivileged_key) (\<lambda>nonce'.
     io_bind (deploy_contracts 5 ec n tries unprivileged_key nonce') (\<lambda>us.
     io_bind (io_lift (write_state_consistency_metadata ec fc d ps us fs)) (\<lambda>fs'.
     io_return (\<lparr>pinned = ps, unpinned = us\<rparr>, fs')))))))"

section \<open>The pinned cache configuration\<close>

record pinned_cache_config =
  publish_reverted_txs :: bool
  bucket_size_limit :: u64
  privileged_deployers :: "address list"
  known_contracts_and_limits :: "(address \<times> u64) list"

definition default_cache_config :: pinned_cache_config where
  "default_cache_config =
     \<lparr>publish_reverted_txs = False, bucket_size_limit = 100 * 1024 * 1024, privileged_deployers = [],
      known_contracts_and_limits = []\<rparr>"

definition evm_pinned_cache_path :: "directories \<Rightarrow> path" where
  "evm_pinned_cache_path d = output_dir d @ [''evm_pinned_cache.json'']"

definition add_privileged :: "evm_crates \<Rightarrow> pinned_cache_config \<Rightarrow> pinned_cache_config" where
  "add_privileged ec config =
     (let a = signer_address ec PRIVILEGED_DEPLOYER_KEY
      in if a \<in> set (privileged_deployers config) then config
         else config\<lparr>privileged_deployers := privileged_deployers config @ [a]\<rparr>)"

definition ensure_evm_pinned_cache_config ::
    "evm_crates \<Rightarrow> (pinned_cache_config \<Rightarrow> string) \<Rightarrow> (string \<Rightarrow> pinned_cache_config option) \<Rightarrow>
     directories \<Rightarrow> fs \<Rightarrow> evm_error + fs" where
  "ensure_evm_pinned_cache_config ec show_config parse_config d fs =
     rbind (if exists_at (evm_pinned_cache_path d) fs
            then rbind (map_err EvmIo (read_to_string (evm_pinned_cache_path d) fs)) (\<lambda>raw.
                 case parse_config raw of None \<Rightarrow> Inl BadMetadata | Some c \<Rightarrow> Inr c)
            else Inr default_cache_config) (\<lambda>config.
     map_err EvmIo (write_file (evm_pinned_cache_path d) (show_config (add_privileged ec config)) fs))"

section \<open>The worker\<close>

text \<open>The result of a round: the worker goes on with the next nonce and value, or it stops because
  the sequencer has.\<close>

datatype evm_progress = Continue u64 u256 | Stopped

fun send_updates ::
    "nat \<Rightarrow> evm_crates \<Rightarrow> evm_node \<Rightarrow> string \<Rightarrow> address \<Rightarrow> u64 \<Rightarrow> u256 \<Rightarrow> evm_progress evm_act" where
  "send_updates 0 ec n key contract nonce v = io_return (Continue nonce v)"
| "send_updates (Suc k) ec n key contract nonce v =
     io_bind (eth_send_transaction n key
       (tx_request (signer_address ec key) nonce (Some contract) (encode_update ec v (v + 1)) 200000)) (\<lambda>r.
     case r of
       Inr tx_hash \<Rightarrow> send_updates k ec n key contract (saturating_inc nonce) (v + 1)
     | Inl message \<Rightarrow>
         if is_stop_height_error_message message then io_return Stopped else io_lift (Inl RpcFailed))"

text \<open>\<open>rounds\<close> holds how many transactions each round so far has sent; a result \<open>Continue\<close> means that
  the worker is still running.\<close>

fun worker_rounds ::
    "nat list \<Rightarrow> evm_crates \<Rightarrow> evm_node \<Rightarrow> string \<Rightarrow> address \<Rightarrow> u64 \<Rightarrow> u256 \<Rightarrow> evm_progress evm_act" where
  "worker_rounds [] ec n key contract nonce v = io_return (Continue nonce v)"
| "worker_rounds (k # ks) ec n key contract nonce v =
     io_bind (send_updates k ec n key contract nonce v) (\<lambda>p.
     case p of
       Stopped \<Rightarrow> io_return Stopped
     | Continue nonce' v' \<Rightarrow> worker_rounds ks ec n key contract nonce' v')"

definition evm_state_consistency_worker ::
    "nat list \<Rightarrow> evm_crates \<Rightarrow> evm_node \<Rightarrow> address \<Rightarrow> string \<Rightarrow> evm_progress evm_act" where
  "evm_state_consistency_worker rounds ec n contract key =
     io_bind (get_nonce n key) (\<lambda>nonce.
     io_bind (eth_call_request n key (call_request (signer_address ec key) contract (encode_value ec))) (\<lambda>r.
     case r of
       Inl e \<Rightarrow> io_lift (Inl RpcFailed)
     | Inr raw \<Rightarrow>
         io_bind (io_lift (decode_value_output raw)) (\<lambda>v.
         worker_rounds rounds ec n key contract nonce v)))"

section \<open>Workers use different keys\<close>

lemma derive_worker_key_inject:
  assumes "inj (hex_encode cr)" "derive_worker_key cr root_key a = Inr x" "derive_worker_key cr root_key b = Inr x"
  shows "a = b"
  using assms by (auto simp: derive_worker_key_def dest: injD split: option.splits if_splits)

text \<open>The privileged deployer is the key with offset zero, up to its spelling.\<close>

lemma worker_keys_differ:
  assumes "inj (hex_encode cr)" "i < 5" "j < 5"
    and "pinned_worker_key cr i = Inr p" "unpinned_worker_key cr j = Inr u" "unprivileged_deployer_key cr = Inr d"
  shows "p \<noteq> u" "p \<noteq> d" "u \<noteq> d"
proof -
  note defs = pinned_worker_key_def unpinned_worker_key_def worker_key_for_index_def unprivileged_deployer_key_def
  have p: "derive_worker_key cr PRIVILEGED_DEPLOYER_KEY (10 + of_nat i) = Inr p"
    and u: "derive_worker_key cr PRIVILEGED_DEPLOYER_KEY (60 + of_nat j) = Inr u"
    and d: "derive_worker_key cr PRIVILEGED_DEPLOYER_KEY 1 = Inr d"
    using assms(2-6) by (simp_all add: defs)
  have cases: "k = 0 \<or> k = 1 \<or> k = 2 \<or> k = 3 \<or> k = 4" if "k < 5" for k :: nat using that by arith
  have "(10 + of_nat i :: byte) \<noteq> 60 + of_nat j" "(10 + of_nat i :: byte) \<noteq> 1" "(60 + of_nat j :: byte) \<noteq> 1"
    using cases [OF assms(2)] cases [OF assms(3)] by (elim disjE; simp)+
  then show "p \<noteq> u" "p \<noteq> d" "u \<noteq> d"
    using derive_worker_key_inject [OF assms(1)] p u d by blast+
qed

section \<open>The addresses on disk\<close>

lemma parse_shown_addresses:
  "\<forall>a \<in> set as. parse_address ec (show_address ec a) = Some a \<Longrightarrow> parse_addresses ec (map (show_address ec) as) = Inr as"
  by (induction as) (simp_all add: parse_addresses_def)

lemma load_written_metadata:
  assumes "write_state_consistency_metadata ec fc d ps us fs = Inr fs'"
    and "\<forall>a \<in> set ps \<union> set us. parse_address ec (show_address ec a) = Some a"
    and "\<And>m. parse_metadata fc (show_metadata fc m) = Some m"
  shows "load_state_consistency_contracts ec fc d fs' = Inr \<lparr>pinned = ps, unpinned = us\<rparr>"
  using assms parse_shown_addresses [of ps ec] parse_shown_addresses [of us ec]
  by (auto simp: write_state_consistency_metadata_def load_state_consistency_contracts_def
      read_to_string_def write_file_spec)

section \<open>The cache configuration is set up once\<close>

lemma ensure_cache_config_idem:
  assumes "ensure_evm_pinned_cache_config ec sh pa d fs = Inr fs'" "\<And>c. pa (sh c) = Some c"
  shows "\<exists>c. node_at (evm_pinned_cache_path d) fs' = Some (File (sh c)) \<and>
    signer_address ec PRIVILEGED_DEPLOYER_KEY \<in> set (privileged_deployers c) \<and>
    (\<exists>fs''. ensure_evm_pinned_cache_config ec sh pa d fs' = Inr fs'' \<and> (\<forall>q. node_at q fs'' = node_at q fs'))"
proof -
  let ?p = "evm_pinned_cache_path d"
  have added: "signer_address ec PRIVILEGED_DEPLOYER_KEY \<in> set (privileged_deployers (add_privileged ec c))" for c
    by (simp add: add_privileged_def Let_def)
  obtain c where c: "signer_address ec PRIVILEGED_DEPLOYER_KEY \<in> set (privileged_deployers c)"
    "write_file ?p (sh c) fs = Inr fs'"
    using assms(1) added by (auto simp: ensure_evm_pinned_cache_config_def split: if_splits option.splits)
  note now = write_file_spec [OF c(2)]
  have "butlast ?p \<noteq> ?p" by (simp add: evm_pinned_cache_path_def)
  moreover have "node_at (butlast ?p) fs = Some Dir" using c(2) by (simp add: write_file_def split: if_splits)
  ultimately have "write_file ?p (sh c) fs' = Inr (put ?p (File (sh c)) fs')"
    by (simp add: write_file_def now)
  with now c(1) assms(2) show ?thesis
    by (auto simp: ensure_evm_pinned_cache_config_def exists_at_def read_to_string_def add_privileged_def Let_def)
qed

section \<open>The transactions of a worker\<close>

definition update_tx :: "evm_crates \<Rightarrow> string \<Rightarrow> address \<Rightarrow> u64 \<Rightarrow> u256 \<Rightarrow> nat \<Rightarrow> evm_request" where
  "update_tx ec key contract nonce v i =
     SendTx key (tx_request (signer_address ec key) (nonce + of_nat i) (Some contract)
       (encode_update ec (v + of_nat i) (v + of_nat i + 1)) 200000)"

lemma saturating_inc_exact: "unat n + 1 < 2 ^ 64 \<Longrightarrow> saturating_inc n = n + 1 \<and> unat (n + 1) = unat n + 1"
proof -
  assume less: "unat n + 1 < 2 ^ 64"
  then have "unat n + unat (1 :: u64) < 2 ^ LENGTH(64)" by simp
  then have "unat (n + 1) = unat n + 1" using unat_add_lem [of n 1] by simp
  moreover from less have "int (unat n + 1) < int (2 ^ 64)" by (simp only: of_nat_less_iff)
  ultimately show ?thesis by (simp add: saturating_inc_def saturating_add64_def)
qed

lemma update_tx_shift: "update_tx ec key contract (nonce + 1) (v + 1) i = update_tx ec key contract nonce v (Suc i)"
  by (simp add: update_tx_def algebra_simps)

lemma send_updates_trace:
  assumes "unat nonce + k < 2 ^ 64"
  shows "\<exists>m \<le> k. snd (send_updates k ec n key contract nonce v h) = h @ map (update_tx ec key contract nonce v) [0..<m] \<and>
    (\<forall>nonce' v'. fst (send_updates k ec n key contract nonce v h) = Inr (Continue nonce' v') \<longrightarrow>
       m = k \<and> nonce' = nonce + of_nat k \<and> v' = v + of_nat k)"
  using assms
proof (induction k arbitrary: nonce v h)
  case (Suc k)
  let ?tx = "update_tx ec key contract nonce v 0"
  have first: "eth_send_transaction n key
       (tx_request (signer_address ec key) nonce (Some contract) (encode_update ec v (v + 1)) 200000) h =
     (Inr (send_result n (h @ [?tx])), h @ [?tx])"
    by (simp add: eth_send_transaction_def ask_def update_tx_def)
  show ?case
  proof (cases "send_result n (h @ [?tx])")
    case (Inl message)
    with first show ?thesis by (intro exI [of _ 1]) (simp add: io_bind_def)
  next
    case (Inr tx_hash)
    from Suc.prems have inc: "saturating_inc nonce = nonce + 1" "unat (nonce + 1) + k < 2 ^ 64"
      using saturating_inc_exact [of nonce] by auto
    from Suc.IH [OF inc(2), of "v + 1" "h @ [?tx]"] obtain m where
      m: "m \<le> k" "snd (send_updates k ec n key contract (nonce + 1) (v + 1) (h @ [?tx])) =
          (h @ [?tx]) @ map (update_tx ec key contract (nonce + 1) (v + 1)) [0..<m]"
        "\<forall>nonce' v'. fst (send_updates k ec n key contract (nonce + 1) (v + 1) (h @ [?tx])) = Inr (Continue nonce' v') \<longrightarrow>
          m = k \<and> nonce' = nonce + 1 + of_nat k \<and> v' = v + 1 + of_nat k" by blast
    have "[?tx] @ map (update_tx ec key contract (nonce + 1) (v + 1)) [0..<m] =
        map (update_tx ec key contract nonce v) [0..<Suc m]"
      by (simp add: update_tx_shift map_upt_Suc del: upt_Suc)
    with m first Inr inc(1) show ?thesis
      by (intro exI [of _ "Suc m"]) (simp add: io_bind_def add.assoc)
  qed
qed simp

lemma update_tx_add: "update_tx ec key contract (nonce + of_nat k) (v + of_nat k) i = update_tx ec key contract nonce v (k + i)"
  by (simp add: update_tx_def algebra_simps)

lemma worker_rounds_trace:
  assumes "unat nonce + sum_list ks < 2 ^ 64"
  shows "\<exists>m \<le> sum_list ks. snd (worker_rounds ks ec n key contract nonce v h) =
       h @ map (update_tx ec key contract nonce v) [0..<m] \<and>
    (\<forall>nonce' v'. fst (worker_rounds ks ec n key contract nonce v h) = Inr (Continue nonce' v') \<longrightarrow>
       m = sum_list ks \<and> nonce' = nonce + of_nat m \<and> v' = v + of_nat m)"
  using assms
proof (induction ks arbitrary: nonce v h)
  case (Cons k ks)
  from Cons.prems have "unat nonce + k < 2 ^ 64" by simp
  from send_updates_trace [OF this, of ec n key contract v h] obtain m where
    m: "m \<le> k" "snd (send_updates k ec n key contract nonce v h) = h @ map (update_tx ec key contract nonce v) [0..<m]"
      "\<And>nonce' v'. fst (send_updates k ec n key contract nonce v h) = Inr (Continue nonce' v') \<Longrightarrow>
         m = k \<and> nonce' = nonce + of_nat k \<and> v' = v + of_nat k" by blast
  obtain r h1 where r: "send_updates k ec n key contract nonce v h = (r, h1)"
    by (cases "send_updates k ec n key contract nonce v h")
  show ?case
  proof (cases "\<exists>n1 v1. r = Inr (Continue n1 v1)")
    case False
    with m(1,2) r show ?thesis
      by (intro exI [of _ m]) (auto simp: io_bind_def split: sum.split evm_progress.split)
  next
    case True
    with m r have next_round: "m = k" "r = Inr (Continue (nonce + of_nat k) (v + of_nat k))" by auto
    from Cons.prems have "of_nat k = (of_nat k :: u64)" "unat (nonce + of_nat k) = unat nonce + k"
      using unat_add_lem [of nonce "of_nat k"] by (simp_all add: unat_of_nat_small)
    with Cons.prems have "unat (nonce + of_nat k) + sum_list ks < 2 ^ 64" by simp
    from Cons.IH [OF this, of "v + of_nat k" h1] obtain j where
      j: "j \<le> sum_list ks" "snd (worker_rounds ks ec n key contract (nonce + of_nat k) (v + of_nat k) h1) =
          h1 @ map (update_tx ec key contract (nonce + of_nat k) (v + of_nat k)) [0..<j]"
        "\<forall>nonce' v'. fst (worker_rounds ks ec n key contract (nonce + of_nat k) (v + of_nat k) h1) = Inr (Continue nonce' v') \<longrightarrow>
          j = sum_list ks \<and> nonce' = nonce + of_nat k + of_nat j \<and> v' = v + of_nat k + of_nat j" by blast
    have "map (update_tx ec key contract nonce v) [0..<k] @
        map (update_tx ec key contract (nonce + of_nat k) (v + of_nat k)) [0..<j] =
      map (update_tx ec key contract nonce v) [0..<k + j]"
      by (rule nth_equalityI) (auto simp: nth_append update_tx_add)
    with j m(2) r next_round show ?thesis
      by (intro exI [of _ "k + j"]) (auto simp: io_bind_def add.assoc)
  qed
qed simp

text \<open>As long as the account's nonce stays below 2^64, the transactions a worker sends have
  consecutive nonces, starting with the one the node reported, and each asks to replace the value
  the previous one has written by its successor; the worker is never ahead of its transactions.
\<close>

lemma worker_transactions_chain:
  assumes "unat (nonce_of n [Nonce key]) + sum_list rounds < 2 ^ 64"
    and "call_result n [Nonce key, Call key (call_request (signer_address ec key) contract (encode_value ec))] = Inr raw"
    and "decode_value_output raw = Inr v"
  shows "\<exists>m \<le> sum_list rounds. drop 2 (snd (evm_state_consistency_worker rounds ec n contract key [])) =
       map (update_tx ec key contract (nonce_of n [Nonce key]) v) [0..<m] \<and>
    (\<forall>nonce' v'. fst (evm_state_consistency_worker rounds ec n contract key []) = Inr (Continue nonce' v') \<longrightarrow>
       m = sum_list rounds \<and> nonce' = nonce_of n [Nonce key] + of_nat m \<and> v' = v + of_nat m)"
proof -
  have "evm_state_consistency_worker rounds ec n contract key [] =
    worker_rounds rounds ec n key contract (nonce_of n [Nonce key]) v
      [Nonce key, Call key (call_request (signer_address ec key) contract (encode_value ec))]"
    using assms(2,3)
    by (simp add: evm_state_consistency_worker_def io_bind_def get_nonce_def eth_call_request_def ask_def)
  with worker_rounds_trace [OF assms(1), of ec n key contract v
      "[Nonce key, Call key (call_request (signer_address ec key) contract (encode_value ec))]"]
  show ?thesis by auto
qed

definition demo_evm_node :: evm_node where
  "demo_evm_node = \<lparr>nonce_of = (\<lambda>h. 7), call_result = (\<lambda>h. Inr (replicate 32 0)),
     send_result = (\<lambda>h. if length h < 5 then Inr 0 else Inl ''stop height''), receipt_of = (\<lambda>h. None)\<rparr>"

definition demo_evm :: evm_crates where
  "demo_evm = \<lparr>encode_update = (\<lambda>a b. [ucast a, ucast b]), encode_value = [], bytecode = [],
     signer_address = (\<lambda>k. 0), show_address = (\<lambda>a. []), parse_address = (\<lambda>s. None)\<rparr>"

lemma worker_transactions_chain_example:
  "\<exists>m \<le> 4. drop 2 (snd (evm_state_consistency_worker [3, 1] demo_evm demo_evm_node 9 ''k'' [])) =
       map (update_tx demo_evm ''k'' 9 7 0) [0..<m]"
proof -
  have v: "decode_value_output (replicate 32 0) = Inr 0"
    by code_simp
  have "\<exists>m \<le> sum_list [3, 1]. drop 2 (snd (evm_state_consistency_worker [3, 1] demo_evm demo_evm_node 9 ''k'' [])) =
       map (update_tx demo_evm ''k'' 9 (nonce_of demo_evm_node [Nonce ''k'']) 0) [0..<m]"
    using worker_transactions_chain [of demo_evm_node "''k''" "[3, 1]" demo_evm 9 "replicate 32 0" 0] v
    by (auto simp: demo_evm_node_def)
  then show ?thesis by (simp add: demo_evm_node_def)
qed

end
