(* ===== verification/Acceptance_Soak.thy ===== *)
theory Acceptance_Soak
  imports Acceptance_Plan Acceptance_State Evm_Soak
begin

text \<open>
  The run of the acceptance test (\<open>scripts/acceptance-test/src/lib.rs\<close>): the postgres container, the
  rollup process and how it is stopped, the loop that watches the rollup, its background tasks and
  the slot stream, and the handling of signals around everything. What happens next is an event
  that the environment chooses; \<open>tokio::select\<close> may pick any that is ready, so a run is an
  arbitrary list of events. An error is its message.
\<close>

section \<open>Shutdown\<close>

datatype shutdown_reason = SigInt | SigTerm | SigQuit | SigHup

fun reason_display :: "shutdown_reason \<Rightarrow> string" where
  "reason_display SigInt = ''Ctrl+C (SIGINT)''"
| "reason_display SigTerm = ''SIGTERM''"
| "reason_display SigQuit = ''SIGQUIT''"
| "reason_display SigHup = ''SIGHUP''"

definition shutdown_error :: "shutdown_reason \<Rightarrow> string" where
  "shutdown_error r = ''Received '' @ reason_display r @ '', shutting down''"

text \<open>How the task of the run ends: with its result, by a panic, or cancelled by an abort.\<close>

datatype 'a task_end = Returned "string + 'a" | Crashed string | Cancelled

fun flatten_top_level_task_result :: "'a task_end \<Rightarrow> string + 'a" where
  "flatten_top_level_task_result (Returned r) = r"
| "flatten_top_level_task_result (Crashed e) = Inl (''acceptance test task panicked: '' @ e)"
| "flatten_top_level_task_result Cancelled = Inl ''acceptance test task panicked: cancelled''"

text \<open>What comes first, the end of the task or a signal; then whether the task ends within 90
  seconds, and otherwise how it ends after it is aborted.\<close>

datatype 'a top_event = TaskEnded "'a task_end" | Signalled shutdown_reason
datatype 'a after_signal = EndedInTime "'a task_end" | EndedAfterAbort "'a task_end"

fun run_until_shutdown_signal :: "'a top_event \<Rightarrow> 'a after_signal \<Rightarrow> string + 'a" where
  "run_until_shutdown_signal (TaskEnded t) later = flatten_top_level_task_result t"
| "run_until_shutdown_signal (Signalled reason) (EndedInTime t) =
     (case flatten_top_level_task_result t of
        Inr x \<Rightarrow> Inl (shutdown_error reason) | Inl e \<Rightarrow> Inl e)"
| "run_until_shutdown_signal (Signalled reason) (EndedAfterAbort t) =
     (case t of
        Returned (Inr x) \<Rightarrow> Inl (shutdown_error reason)
      | Returned (Inl e) \<Rightarrow> Inl e
      | Cancelled \<Rightarrow> Inl (shutdown_error reason)
      | Crashed e \<Rightarrow> Inl (''acceptance test task panicked during shutdown: '' @ e))"

section \<open>Waiting for the sequencer\<close>

text \<open>\<open>sleep_or_shutdown\<close> ends with an error when a signal arrives during the sleep. The sequencer is
  asked up to 600 times; \<open>ready i\<close> and \<open>signal i\<close> are what happens in attempt \<open>i\<close>.\<close>

definition sleep_or_shutdown :: "shutdown_reason option \<Rightarrow> string + unit" where
  "sleep_or_shutdown signal = (case signal of None \<Rightarrow> Inr () | Some r \<Rightarrow> Inl (shutdown_error r))"

fun await_sequencer :: "nat \<Rightarrow> (nat \<Rightarrow> bool) \<Rightarrow> (nat \<Rightarrow> shutdown_reason option) \<Rightarrow> nat \<Rightarrow> string + unit" where
  "await_sequencer 0 ready signal i = Inr ()"
| "await_sequencer (Suc k) ready signal i =
     (if ready i then Inr ()
      else rbind (sleep_or_shutdown (signal i)) (\<lambda>_. await_sequencer k ready signal (i + 1)))"

definition wait_for_sequencer_ready :: "(nat \<Rightarrow> bool) \<Rightarrow> (nat \<Rightarrow> shutdown_reason option) \<Rightarrow> string + unit" where
  "wait_for_sequencer_ready ready signal = await_sequencer 600 ready signal 0"

text \<open>Only a signal makes it fail: a sequencer that never becomes ready is not an error here.\<close>

lemma await_sequencer_fails:
  "await_sequencer k ready signal i = Inl e \<Longrightarrow> \<exists>j r. i \<le> j \<and> signal j = Some r \<and> \<not> ready j \<and> e = shutdown_error r"
proof (induction k arbitrary: i)
  case (Suc k)
  from Suc.prems have not_ready: "\<not> ready i" by (cases "ready i") simp_all
  show ?case
  proof (cases "signal i")
    case None
    with Suc.prems not_ready have "await_sequencer k ready signal (Suc i) = Inl e" by (simp add: sleep_or_shutdown_def)
    from Suc.IH [OF this] show ?thesis by (blast dest: Suc_leD)
  next
    case (Some r)
    with Suc.prems not_ready show ?thesis by (auto simp: sleep_or_shutdown_def)
  qed
qed simp

lemma never_ready_is_no_error:
  assumes "\<And>i. signal i = None"
  shows "wait_for_sequencer_ready ready signal = Inr ()"
  using await_sequencer_fails [of 600 ready signal 0] assms
  by (cases "wait_for_sequencer_ready ready signal") (auto simp: wait_for_sequencer_ready_def)

section \<open>The postgres container\<close>

text \<open>A docker command's arguments are a request. Its outcome is \<open>None\<close> when docker cannot be
  started, or whether it succeeded and what it wrote to standard error.\<close>

type_synonym docker = "string list list \<Rightarrow> (bool \<times> string) option"
type_synonym 'a docker_act = "(string, string list, 'a) act"

definition docker_output :: "docker \<Rightarrow> string list \<Rightarrow> (bool \<times> string) docker_act" where
  "docker_output dk cmd =
     ask (\<lambda>h. case dk h of None \<Rightarrow> Inl ''failed to run docker'' | Some r \<Rightarrow> Inr r) cmd"

definition cleanup_postgres_container :: "docker \<Rightarrow> string \<Rightarrow> unit docker_act" where
  "cleanup_postgres_container dk name =
     io_bind (docker_output dk [''rm'', ''-f'', name]) (\<lambda>(ok, stderr).
     if ok \<or> contains_str ''No such container'' stderr then io_return ()
     else io_lift (Inl (''Failed to remove postgres container '' @ name)))"

definition run_container :: "string \<Rightarrow> string \<Rightarrow> string list" where
  "run_container name password =
     [''run'', ''-d'', ''--name'', name, ''-e'', ''POSTGRES_PASSWORD='' @ password, ''-p'', ''5432:5432'', ''postgres'']"

definition is_ready_command :: "string \<Rightarrow> string list" where
  "is_ready_command name = [''exec'', name, ''pg_isready'', ''-U'', ''postgres'']"

fun await_postgres :: "nat \<Rightarrow> docker \<Rightarrow> string \<Rightarrow> bool docker_act" where
  "await_postgres 0 dk name = io_return False"
| "await_postgres (Suc k) dk name =
     io_bind (docker_output dk (is_ready_command name)) (\<lambda>(ok, stderr).
     if ok then io_return True else await_postgres k dk name)"

text \<open>After 30 failed checks the container is removed again, whatever becomes of that.\<close>

definition start_and_wait_for_postgres_ready :: "docker \<Rightarrow> string \<Rightarrow> string \<Rightarrow> unit docker_act" where
  "start_and_wait_for_postgres_ready dk name password =
     io_bind (cleanup_postgres_container dk name) (\<lambda>_.
     io_bind (docker_output dk (run_container name password)) (\<lambda>(ok, stderr).
     if \<not> ok then io_lift (Inl (''Failed to start postgres container '' @ name))
     else io_bind (await_postgres 30 dk name) (\<lambda>ready.
       if ready then io_return ()
       else (\<lambda>h. (Inl ''Postgres failed to become ready'', snd (cleanup_postgres_container dk name h))))))"

section \<open>The rollup process\<close>

text \<open>A child runs under its id until its exit has been observed; then it keeps the exit status and
  waiting for it returns at once. Signals go to the process group of the child. What a wait sees
  is up to the environment.\<close>

datatype child = Running u32 | Done bool

datatype process_request = Wait nat | Sigterm u32 | Sigkill u32
datatype wait_outcome = Exited bool | WaitFailed | StillRunning

type_synonym process_env = "process_request list \<Rightarrow> wait_outcome"
type_synonym process_state = "child \<times> process_request list"

fun child_id :: "child \<Rightarrow> u32 option" where
  "child_id (Running i) = Some i"
| "child_id (Done success) = None"

definition ensure_rollup_exit_status :: "bool \<Rightarrow> string + unit" where
  "ensure_rollup_exit_status success = ensure success ''Rollup process exited with non-zero status''"

definition request_shutdown :: "process_state \<Rightarrow> process_state" where
  "request_shutdown s =
     (case child_id (fst s) of None \<Rightarrow> s | Some i \<Rightarrow> (fst s, snd s @ [Sigterm i]))"

definition wait_for_exit :: "process_env \<Rightarrow> nat \<Rightarrow> process_state \<Rightarrow> (string + bool option) \<times> process_state" where
  "wait_for_exit env seconds s =
     (case fst s of
        Done success \<Rightarrow> (Inr (Some success), s)
      | Running i \<Rightarrow>
          (let h = snd s @ [Wait seconds]
           in case env h of
                Exited success \<Rightarrow> (Inr (Some success), (Done success, h))
              | WaitFailed \<Rightarrow> (Inl ''Failed to wait for rollup process'', (Running i, h))
              | StillRunning \<Rightarrow> (Inr None, (Running i, h))))"

definition process_shutdown :: "process_env \<Rightarrow> process_state \<Rightarrow> (string + unit) \<times> process_state" where
  "process_shutdown env s =
     (if child_id (fst s) = None then (Inr (), s)
      else (case wait_for_exit env 30 (request_shutdown s) of
              (Inl e, s') \<Rightarrow> (Inl e, s')
            | (Inr (Some success), s') \<Rightarrow> (ensure_rollup_exit_status success, s')
            | (Inr None, s') \<Rightarrow>
                (case child_id (fst s') of
                   None \<Rightarrow> (Inr (), s')
                 | Some i \<Rightarrow>
                     (case wait_for_exit env 2 (fst s', snd s' @ [Sigkill i]) of
                        (Inl e, s'') \<Rightarrow> (Inl e, s'')
                      | (Inr (Some success), s'') \<Rightarrow> (ensure_rollup_exit_status success, s'')
                      | (Inr None, s'') \<Rightarrow> (Inl ''Rollup process did not terminate after SIGKILL'', s'')))))"

definition ensure_stopped :: "process_env \<Rightarrow> process_state \<Rightarrow> (string + unit) \<times> process_state" where
  "ensure_stopped env s =
     (if child_id (fst s) = None then (Inr (), s)
      else (case wait_for_exit env 30 s of
              (Inl e, s') \<Rightarrow> (Inl e, s')
            | (Inr (Some success), s') \<Rightarrow> (ensure_rollup_exit_status success, s')
            | (Inr None, s') \<Rightarrow>
                (case child_id (fst s') of None \<Rightarrow> (Inr (), s') | Some i \<Rightarrow> process_shutdown env s')))"

text \<open>Dropping the handle kills what is not known to have exited.\<close>

definition drop_process :: "process_state \<Rightarrow> process_state" where
  "drop_process s =
     (case child_id (fst s) of None \<Rightarrow> s | Some i \<Rightarrow> (fst s, snd s @ [Sigkill i]))"

section \<open>Errors of a run\<close>

definition is_very_close_to_soak_test_end :: "u64 \<Rightarrow> u64 \<Rightarrow> bool" where
  "is_very_close_to_soak_test_end num_soak_batches target = (saturating_add64 num_soak_batches 15 > target)"

fun join_lines :: "string list \<Rightarrow> string" where
  "join_lines [] = []"
| "join_lines [l] = l"
| "join_lines (l # m # ls) = l @ [CHR 10] @ join_lines (m # ls)"

definition number_errors :: "string list \<Rightarrow> string list" where
  "number_errors es =
     map (\<lambda>(i, e). ''Additional error '' @ show_nat (i + 1) @ '': '' @ e) (List.enumerate 0 es)"

definition combine_soak_errors :: "string option \<Rightarrow> string list \<Rightarrow> string option" where
  "combine_soak_errors primary additional =
     (case (primary, additional) of
        (None, []) \<Rightarrow> None
      | (Some e, []) \<Rightarrow> Some e
      | (None, [e]) \<Rightarrow> Some e
      | _ \<Rightarrow> Some (join_lines
          ((case primary of None \<Rightarrow> [] | Some e \<Rightarrow> [''Primary error: '' @ e]) @ number_errors additional)))"

section \<open>The soak run\<close>

record soak_options =
  throughput_start_batch :: u64
  rollup_stop_height :: u64
  opt_full_slot_save_interval :: u64
  save_slot_snapshots :: bool

datatype task_result = TaskOk | TaskFailed string | TaskPanicked string | TaskCancelled

text \<open>A slot event carries the node's replies to the requests its handler may make; \<open>try_wait\<close> is
  asked when the slot stream has ended.\<close>

record slot_event =
  news_slot :: ledger_slot
  batch_reply :: "ledger_batch option"
  start_batch_reply :: "ledger_batch option"
  full_slot_reply :: "ledger_slot option"

datatype soak_event =
    RollupExited "bool option"
  | TaskDone task_result
  | SlotStreamError string
  | SlotStreamEnded wait_outcome
  | SlotNews slot_event
  | ShutdownEvent shutdown_reason

record soak_state =
  num_soak_txs :: u64
  num_soak_slots :: u64
  num_soak_batches :: u64
  num_previous_txs :: "u64 option"
  soak_files :: fs
  soak_child :: child

definition initial_soak :: "fs \<Rightarrow> child \<Rightarrow> soak_state" where
  "initial_soak fs ch =
     \<lparr>num_soak_txs = 0, num_soak_slots = 0, num_soak_batches = 0, num_previous_txs = None,
      soak_files = fs, soak_child = ch\<rparr>"

text \<open>An iteration goes on, leaves the loop with or without an error, or panics.\<close>

datatype soak_flow = Go soak_state | Stop "string option" soak_state | Unwind soak_state

definition target_soak_batches :: "soak_options \<Rightarrow> u64" where
  "target_soak_batches opt = saturating_sub64 (rollup_stop_height opt) (throughput_start_batch opt)"

abbreviation near_end :: "soak_options \<Rightarrow> soak_state \<Rightarrow> bool" where
  "near_end opt st \<equiv> is_very_close_to_soak_test_end (num_soak_batches st) (target_soak_batches opt)"

definition save_slot_snapshot_if_needed ::
    "codec \<Rightarrow> directories \<Rightarrow> soak_options \<Rightarrow> ledger_slot \<Rightarrow> soak_state \<Rightarrow> soak_flow" where
  "save_slot_snapshot_if_needed c d opt s st =
     (if save_slot_snapshots opt
      then (case save_slot_snapshot c s (snapshots_dir d) (soak_files st) of
              Inl e \<Rightarrow> Stop (Some ''failed to save snapshot'') st
            | Inr fs \<Rightarrow> Go (st\<lparr>soak_files := fs\<rparr>))
      else Go st)"

text \<open>The transactions up to a slot's last batch; the reference is the batch at which the
  measurement starts.\<close>

definition last_batch :: "ledger_slot \<Rightarrow> u64" where
  "last_batch s = snd (batch_range s) - 1"

definition remember_reference :: "soak_options \<Rightarrow> slot_event \<Rightarrow> soak_state \<Rightarrow> string + soak_state" where
  "remember_reference opt ev st =
     (if last_batch (news_slot ev) \<ge> throughput_start_batch opt \<and> num_previous_txs st = None
      then (case start_batch_reply ev of
              None \<Rightarrow> Inl ''failed to fetch throughput start batch''
            | Some r \<Rightarrow> Inr (st\<lparr>num_previous_txs := Some (snd (tx_range r))\<rparr>))
      else Inr st)"

definition count_txs :: "soak_options \<Rightarrow> u64 \<Rightarrow> ledger_batch \<Rightarrow> soak_state \<Rightarrow> soak_state" where
  "count_txs opt batch_num b st =
     (if batch_num > throughput_start_batch opt
      then (case num_previous_txs st of
              None \<Rightarrow> st
            | Some previous \<Rightarrow>
                st\<lparr>num_soak_txs := saturating_sub64 (snd (tx_range b)) previous,
                   num_soak_batches := num_soak_batches st + 1\<rparr>)
      else st)"

definition count_batch :: "soak_options \<Rightarrow> slot_event \<Rightarrow> soak_state \<Rightarrow> soak_flow" where
  "count_batch opt ev st =
     (if fst (batch_range (news_slot ev)) = snd (batch_range (news_slot ev)) then Go st
      else (case batch_reply ev of
              None \<Rightarrow> if near_end opt st then Stop None st else Stop (Some ''Failed to fetch batch'') st
            | Some b \<Rightarrow>
                (case remember_reference opt ev st of
                   Inl e \<Rightarrow> Stop (Some e) st
                 | Inr st' \<Rightarrow> Go (count_txs opt (last_batch (news_slot ev)) b st'))))"

text \<open>A remainder by a save interval of zero is a panic.\<close>

definition handle_slot :: "codec \<Rightarrow> directories \<Rightarrow> soak_options \<Rightarrow> slot_event \<Rightarrow> soak_state \<Rightarrow> soak_flow" where
  "handle_slot c d opt ev st =
     (case count_batch opt ev st of
        Stop r st' \<Rightarrow> Stop r st'
      | Unwind st' \<Rightarrow> Unwind st'
      | Go st' \<Rightarrow>
          if num_soak_batches st' = 0 then save_slot_snapshot_if_needed c d opt (news_slot ev) st'
          else (let st'' = st'\<lparr>num_soak_slots := num_soak_slots st' + 1\<rparr>
                in if opt_full_slot_save_interval opt = 0 then Unwind st''
                   else save_slot_snapshot_if_needed c d opt
                     (if num_soak_slots st'' mod opt_full_slot_save_interval opt = 0
                      then unwrap_or (full_slot_reply ev) (news_slot ev) else news_slot ev) st''))"

text \<open>The exit of the rollup was observed with a status.\<close>

definition exit_observed :: "bool \<Rightarrow> soak_state \<Rightarrow> soak_flow" where
  "exit_observed success st =
     Stop (case ensure_rollup_exit_status success of Inl e \<Rightarrow> Some e | Inr u \<Rightarrow> None) (st\<lparr>soak_child := Done success\<rparr>)"

fun soak_step :: "codec \<Rightarrow> directories \<Rightarrow> soak_options \<Rightarrow> soak_event \<Rightarrow> soak_state \<Rightarrow> soak_flow" where
  "soak_step c d opt (RollupExited None) st = Stop (Some ''Failed to wait for rollup process'') st"
| "soak_step c d opt (RollupExited (Some success)) st = exit_observed success st"
| "soak_step c d opt (TaskDone TaskOk) st = Go st"
| "soak_step c d opt (TaskDone (TaskFailed e)) st = (if near_end opt st then Go st else Stop (Some e) st)"
| "soak_step c d opt (TaskDone (TaskPanicked e)) st = Stop (Some e) st"
| "soak_step c d opt (TaskDone TaskCancelled) st = Stop (Some ''task was cancelled'') st"
| "soak_step c d opt (SlotStreamError e) st = Stop (Some e) st"
| "soak_step c d opt (SlotStreamEnded (Exited success)) st = exit_observed success st"
| "soak_step c d opt (SlotStreamEnded StillRunning) st =
     (if near_end opt st then Stop None st
      else Stop (Some ''Slot stream closed before rollup manager exited'') st)"
| "soak_step c d opt (SlotStreamEnded WaitFailed) st = Stop (Some ''Failed to query rollup manager status'') st"
| "soak_step c d opt (SlotNews ev) st = handle_slot c d opt ev st"
| "soak_step c d opt (ShutdownEvent r) st = Stop (Some (shutdown_error r)) st"

text \<open>\<open>Go\<close>: the loop is still running after the events.\<close>

fun soak_loop :: "codec \<Rightarrow> directories \<Rightarrow> soak_options \<Rightarrow> soak_event list \<Rightarrow> soak_state \<Rightarrow> soak_flow" where
  "soak_loop c d opt [] st = Go st"
| "soak_loop c d opt (e # es) st =
     (case soak_step c d opt e st of
        Go st' \<Rightarrow> soak_loop c d opt es st'
      | Stop r st' \<Rightarrow> Stop r st'
      | Unwind st' \<Rightarrow> Unwind st')"

text \<open>The tasks that are joined after they were told to abort.\<close>

fun teardown_errors :: "bool \<Rightarrow> task_result list \<Rightarrow> string list" where
  "teardown_errors near [] = []"
| "teardown_errors near (TaskOk # ts) = teardown_errors near ts"
| "teardown_errors near (TaskCancelled # ts) = teardown_errors near ts"
| "teardown_errors near (TaskFailed e # ts) = (if near then [] else [e]) @ teardown_errors near ts"
| "teardown_errors near (TaskPanicked e # ts) =
     (''Background task panicked during shutdown: '' @ e) # teardown_errors near ts"

record throughput_report =
  num_txs :: u64
  num_slots :: u64

definition finish_soak ::
    "soak_options \<Rightarrow> process_env \<Rightarrow> process_request list \<Rightarrow> task_result list \<Rightarrow> string option \<Rightarrow> soak_state \<Rightarrow>
     (string + throughput_report) \<times> process_state" where
  "finish_soak opt env h ts primary st =
     (case (if primary \<noteq> None then process_shutdown env (soak_child st, h)
            else ensure_stopped env (soak_child st, h)) of
        (r, ps') \<Rightarrow>
          (case combine_soak_errors primary
                 (teardown_errors (near_end opt st) ts @ (case r of Inl e \<Rightarrow> [e] | Inr u \<Rightarrow> [])) of
             Some e \<Rightarrow> (Inl e, ps')
           | None \<Rightarrow> (Inr \<lparr>num_txs = num_soak_txs st, num_slots = num_soak_slots st\<rparr>, ps')))"

text \<open>The workers that are started before the loop: the keys must exist for all contracts.\<close>

definition start_workers :: "crates \<Rightarrow> evm_crates \<Rightarrow> file_codec \<Rightarrow> directories \<Rightarrow> fs \<Rightarrow> evm_error + (address \<times> string) list" where
  "start_workers cr ec fc d fs =
     rbind (load_state_consistency_contracts ec fc d fs) (\<lambda>cs.
     rbind (rmap (\<lambda>(i, a). rbind (pinned_worker_key cr i) (\<lambda>k. Inr (a, k)))
              (List.enumerate 0 (pinned cs))) (\<lambda>ps.
     rbind (rmap (\<lambda>(i, a). rbind (unpinned_worker_key cr i) (\<lambda>k. Inr (a, k)))
              (List.enumerate 0 (unpinned cs))) (\<lambda>us.
     Inr (ps @ us))))"

text \<open>The handle is dropped on every way out, also when the stack is unwound.\<close>

definition run_soak ::
    "crates \<Rightarrow> evm_crates \<Rightarrow> file_codec \<Rightarrow> codec \<Rightarrow> directories \<Rightarrow> soak_options \<Rightarrow> fs \<Rightarrow> process_env \<Rightarrow> child \<Rightarrow>
     bool \<Rightarrow> soak_event list \<Rightarrow> task_result list \<Rightarrow> (throughput_report task_end \<times> process_state) option" where
  "run_soak cr ec fc c d opt fs env ch subscribed events ts =
     (case rbind (ensure subscribed RpcFailed) (\<lambda>_. start_workers cr ec fc d fs) of
        Inl e \<Rightarrow> Some (Returned (Inl ''background tasks not started''), drop_process (ch, []))
      | Inr ws \<Rightarrow>
          (case soak_loop c d opt events (initial_soak fs ch) of
             Go st \<Rightarrow> None
           | Unwind st \<Rightarrow> Some (Crashed ''remainder with a divisor of zero'', drop_process (soak_child st, []))
           | Stop primary st \<Rightarrow>
               (case finish_soak opt env [] ts primary st of
                  (r, ps) \<Rightarrow> Some (Returned r, drop_process ps))))"

text \<open>When the task of the run is aborted, its future is dropped where it waits: in the loop, for the
  background tasks, or for the answer to one of the waits of the teardown. \<open>m\<close> bounds how many of the
  operations on the process have been made by then; the last of them is a wait.\<close>

fun is_wait :: "process_request \<Rightarrow> bool" where
  "is_wait (Wait seconds) = True"
| "is_wait r = False"

definition up_to_wait :: "process_request list \<Rightarrow> process_request list" where
  "up_to_wait h = rev (dropWhile (\<lambda>r. \<not> is_wait r) (rev h))"

definition suspended_soak ::
    "crates \<Rightarrow> evm_crates \<Rightarrow> file_codec \<Rightarrow> codec \<Rightarrow> directories \<Rightarrow> soak_options \<Rightarrow> fs \<Rightarrow> process_env \<Rightarrow> child \<Rightarrow>
     bool \<Rightarrow> soak_event list \<Rightarrow> task_result list \<Rightarrow> nat \<Rightarrow> process_state" where
  "suspended_soak cr ec fc c d opt fs env ch subscribed events ts m =
     (case rbind (ensure subscribed RpcFailed) (\<lambda>_. start_workers cr ec fc d fs) of
        Inl e \<Rightarrow> (ch, [])
      | Inr ws \<Rightarrow>
          (case soak_loop c d opt events (initial_soak fs ch) of
             Go st \<Rightarrow> (soak_child st, [])
           | Unwind st \<Rightarrow> (soak_child st, [])
           | Stop primary st \<Rightarrow>
               (case finish_soak opt env [] ts primary st of
                  (r, ps) \<Rightarrow> (soak_child st, up_to_wait (take m (snd ps))))))"

section \<open>The process is never left behind\<close>

fun flow_state :: "soak_flow \<Rightarrow> soak_state" where
  "flow_state (Go st) = st"
| "flow_state (Stop r st) = st"
| "flow_state (Unwind st) = st"

lemma count_batch_child [simp]: "soak_child (flow_state (count_batch opt ev st)) = soak_child st"
  by (simp add: count_batch_def remember_reference_def count_txs_def Let_def split: option.split)

lemma save_child [simp]: "soak_child (flow_state (save_slot_snapshot_if_needed c d opt s st)) = soak_child st"
  by (simp add: save_slot_snapshot_if_needed_def split: sum.split)

lemma handle_slot_child [simp]: "soak_child (flow_state (handle_slot c d opt ev st)) = soak_child st"
proof (cases "count_batch opt ev st")
  case (Go st')
  then show ?thesis using count_batch_child [of opt ev st] by (simp add: handle_slot_def Let_def)
qed (use count_batch_child [of opt ev st] in \<open>simp_all add: handle_slot_def\<close>)

text \<open>Only an observed exit changes what the loop knows of the process; it ends the loop.\<close>

definition exit_flow :: "bool \<Rightarrow> soak_state \<Rightarrow> soak_flow" where
  "exit_flow b st = Stop (if b then None else Some ''Rollup process exited with non-zero status'') (st\<lparr>soak_child := Done b\<rparr>)"

lemma exit_observed_flow: "exit_observed b st = exit_flow b st"
  by (simp add: exit_observed_def ensure_rollup_exit_status_def ensure_def exit_flow_def)

lemma soak_step_child:
  "soak_child (flow_state (soak_step c d opt e st)) = soak_child st \<or> (\<exists>b. soak_step c d opt e st = exit_flow b st)"
proof (cases e)
  case (RollupExited r)
  then show ?thesis by (cases r) (auto simp: exit_observed_flow)
next
  case (TaskDone r)
  then show ?thesis by (cases r) simp_all
next
  case (SlotStreamEnded w)
  then show ?thesis by (cases w) (auto simp: exit_observed_flow)
qed simp_all

lemma soak_loop_child:
  "soak_child (flow_state (soak_loop c d opt es st)) = soak_child st \<or> (\<exists>b st'. soak_loop c d opt es st = exit_flow b st')"
proof (induction es arbitrary: st)
  case (Cons e es)
  note step = soak_step_child [of c d opt e st]
  show ?case
  proof (cases "soak_step c d opt e st")
    case (Go st')
    with step have "soak_child st' = soak_child st" by (simp add: exit_flow_def)
    with Go Cons.IH [of st'] show ?thesis by simp
  qed (use step in auto)
qed simp

text \<open>A kill that is not the last thing done follows a request to terminate and a wait of 30 seconds
  that saw the rollup still running.\<close>

definition kills_justified :: "process_env \<Rightarrow> process_request list \<Rightarrow> bool" where
  "kills_justified env h \<longleftrightarrow>
     (\<forall>k j. k + 1 < length h \<longrightarrow> h ! k = Sigkill j \<longrightarrow>
        2 \<le> k \<and> h ! (k - 2) = Sigterm j \<and> h ! (k - 1) = Wait 30 \<and> env (take k h) = StillRunning)"

lemma nth_ConsE: "P ((x # xs) ! k) \<longleftrightarrow> (case k of 0 \<Rightarrow> P x | Suc j \<Rightarrow> P (xs ! j))"
  by (simp split: nat.split)

lemma ensure_exit_simps [simp]:
  "ensure_rollup_exit_status b = Inr u \<longleftrightarrow> b"
  "(\<exists>e. ensure_rollup_exit_status b = Inl e) \<longleftrightarrow> \<not> b"
  by (simp_all add: ensure_rollup_exit_status_def ensure_def)

definition well_stopped :: "process_env \<Rightarrow> u32 \<Rightarrow> string + unit \<Rightarrow> process_state \<Rightarrow> bool" where
  "well_stopped env i r ps \<longleftrightarrow>
     length (snd (drop_process ps)) \<le> 6 \<and> (fst ps = Running i \<or> (\<exists>b. fst ps = Done b)) \<and>
     kills_justified env (snd (drop_process ps)) \<and> (r = Inr () \<longrightarrow> fst ps = Done True)"

lemma process_shutdown_well:
  assumes "h = [] \<or> h = [Wait 30]" "process_shutdown env (Running i, h) = (r, ps)"
  shows "well_stopped env i r ps"
  using assms
  by (auto simp: process_shutdown_def request_shutdown_def wait_for_exit_def Let_def well_stopped_def
      drop_process_def kills_justified_def less_Suc_eq nth_Cons'
      split: wait_outcome.splits)

lemma ensure_stopped_well:
  assumes "ensure_stopped env (Running i, []) = (r, ps)"
  shows "well_stopped env i r ps"
proof (cases "env [Wait 30]")
  case StillRunning
  then have "process_shutdown env (Running i, [Wait 30]) = (r, ps)"
    using assms by (simp add: ensure_stopped_def wait_for_exit_def Let_def)
  then show ?thesis by (rule process_shutdown_well [rotated]) simp
qed (use assms in \<open>auto simp: ensure_stopped_def wait_for_exit_def Let_def well_stopped_def drop_process_def
       kills_justified_def less_Suc_eq\<close>)

lemma combine_None_iff: "combine_soak_errors primary es = None \<longleftrightarrow> primary = None \<and> es = []"
  by (auto simp: combine_soak_errors_def split: option.split list.split)

lemma finish_soak_well:
  assumes "finish_soak opt env [] ts primary st = (r, ps)" "soak_child st = Running i"
  shows "well_stopped env i (case r of Inl e \<Rightarrow> Inl e | Inr rep \<Rightarrow> Inr ()) ps"
proof -
  obtain q where q: "(if primary \<noteq> None then process_shutdown env (Running i, [])
        else ensure_stopped env (Running i, [])) = (q, ps)"
    using assms(1) unfolding finish_soak_def assms(2) by (simp split: prod.splits option.splits)
  then have "well_stopped env i q ps"
    using process_shutdown_well [of "[]" env i] ensure_stopped_well [of env i] by (auto split: if_splits)
  moreover have "q = Inr ()" if "r = Inr rep" for rep
    using assms(1) q that unfolding finish_soak_def assms(2)
    by (cases q) (auto simp: combine_None_iff split: option.splits)
  ultimately show ?thesis
    by (auto simp: well_stopped_def split: sum.split)
qed

lemma finish_soak_done:
  assumes "finish_soak opt env [] ts primary st = (r, ps)" "soak_child st = Done b"
  shows "ps = (Done b, [])" and "r = Inr rep \<Longrightarrow> primary = None"
  using assms by (auto simp: finish_soak_def process_shutdown_def ensure_stopped_def combine_None_iff
      split: if_splits option.splits)

lemma run_soak_stopped:
  assumes "run_soak cr ec fc c d opt fs env (Running i) subscribed events ts = Some (r, ch, h)"
  obtains e where "r = Returned (Inl e)" "ch = Running i" "h = [Sigkill i]"
    | e where "r = Crashed e" "ch = Running i" "h = [Sigkill i]"
    | primary st q ps where "soak_loop c d opt events (initial_soak fs (Running i)) = Stop primary st"
        "finish_soak opt env [] ts primary st = (q, ps)" "r = Returned q" "(ch, h) = drop_process ps"
proof (cases "rbind (ensure subscribed RpcFailed) (\<lambda>_. start_workers cr ec fc d fs)")
  case Inl
  with assms have "r = Returned (Inl ''background tasks not started'') \<and> ch = Running i \<and> h = [Sigkill i]"
    by (auto simp: run_soak_def drop_process_def)
  then show ?thesis using that(1) by blast
next
  case (Inr ws)
  show ?thesis
  proof (cases "soak_loop c d opt events (initial_soak fs (Running i))")
    case (Unwind st)
    moreover have "soak_child st = Running i"
      using soak_loop_child [of c d opt events "initial_soak fs (Running i)"] Unwind
      by (simp add: initial_soak_def exit_flow_def)
    ultimately have "r = Crashed ''remainder with a divisor of zero'' \<and> ch = Running i \<and> h = [Sigkill i]"
      using assms Inr by (auto simp: run_soak_def drop_process_def)
    then show ?thesis using that(2) by blast
  next
    case (Stop primary st)
    obtain q ps where "finish_soak opt env [] ts primary st = (q, ps)" by (metis surj_pair)
    then show ?thesis using assms Inr Stop that(3) by (simp add: run_soak_def)
  qed (use assms Inr in \<open>simp add: run_soak_def\<close>)
qed

text \<open>However the soak run ends, the rollup process is not left running: its exit has been
  observed, or the last thing the handle did was to kill it. At most six operations on the process
  are made, a kill before the last one follows a request to terminate and 30 seconds in which the
  rollup kept running, and a run that succeeds has seen the rollup exit successfully.\<close>

lemma rollup_process_stopped:
  assumes "run_soak cr ec fc c d opt fs env (Running i) subscribed events ts = Some (r, ch, h)"
  shows "((\<exists>b. ch = Done b) \<or> ch = Running i \<and> h \<noteq> [] \<and> last h = Sigkill i) \<and> length h \<le> 6 \<and>
    kills_justified env h \<and> (r = Returned (Inr rep) \<longrightarrow> ch = Done True)"
  using assms
proof (cases rule: run_soak_stopped)
  case (3 primary st q ps)
  note child = soak_loop_child [of c d opt events "initial_soak fs (Running i)"]
  show ?thesis
  proof (cases "soak_child st")
    case (Running j)
    with child 3 have "soak_child st = Running i"
      by (auto simp: initial_soak_def exit_flow_def)
    from finish_soak_well [OF 3(2) this] 3 show ?thesis
      by (cases ps) (auto simp: well_stopped_def drop_process_def split: sum.splits)
  next
    case (Done b)
    with child 3(1) have "primary = None \<Longrightarrow> b"
      by (auto simp: initial_soak_def exit_flow_def split: if_splits)
    with finish_soak_done [OF 3(2) Done] 3 show ?thesis
      by (auto simp: drop_process_def kills_justified_def)
  qed
qed (auto simp: kills_justified_def)

text \<open>What an aborted run knows of the process: it still runs, or its exit was observed before.\<close>

lemma suspended_child:
  assumes "suspended_soak cr ec fc c d opt fs env (Running i) subscribed events ts m = (ch, h)"
  shows "ch = Running i \<or> (\<exists>b. ch = Done b)"
proof -
  note child = soak_loop_child [of c d opt events "initial_soak fs (Running i)"]
  from assms have "ch = Running i \<or> ch = soak_child (flow_state (soak_loop c d opt events (initial_soak fs (Running i))))"
    by (auto simp: suspended_soak_def split: sum.splits soak_flow.splits prod.splits)
  with child show ?thesis by (auto simp: initial_soak_def exit_flow_def)
qed

section \<open>What the report measures\<close>

text \<open>\<open>E n\<close> is the number of transactions after batch \<open>n\<close>: the replies of the node agree with it.\<close>

fun reply_of :: "soak_options \<Rightarrow> (u64 \<Rightarrow> u64) \<Rightarrow> soak_event \<Rightarrow> bool" where
  "reply_of opt E (SlotNews ev) \<longleftrightarrow>
     (\<forall>b. batch_reply ev = Some b \<longrightarrow> snd (tx_range b) = E (last_batch (news_slot ev))) \<and>
     (\<forall>b. start_batch_reply ev = Some b \<longrightarrow> snd (tx_range b) = E (throughput_start_batch opt))"
| "reply_of opt E e \<longleftrightarrow> True"

fun news_batches :: "soak_event list \<Rightarrow> u64 set" where
  "news_batches [] = {}"
| "news_batches (SlotNews ev # es) = insert (last_batch (news_slot ev)) (news_batches es)"
| "news_batches (e # es) = news_batches es"

text \<open>After \<open>k\<close> events; \<open>N\<close> are the last batches of the slots seen.\<close>

definition measured :: "soak_options \<Rightarrow> (u64 \<Rightarrow> u64) \<Rightarrow> u64 set \<Rightarrow> nat \<Rightarrow> soak_state \<Rightarrow> bool" where
  "measured opt E N k st \<longleftrightarrow>
     num_previous_txs st \<in> {None, Some (E (throughput_start_batch opt))} \<and>
     unat (num_soak_batches st) \<le> unat (num_soak_slots st) \<and> unat (num_soak_slots st) \<le> k \<and>
     (if num_soak_batches st = 0 then num_soak_txs st = 0 \<and> num_soak_slots st = 0
      else (\<exists>n \<in> N. n > throughput_start_batch opt \<and>
              num_soak_txs st = saturating_sub64 (E n) (E (throughput_start_batch opt))))"

lemma measured_mono: "measured opt E N k st \<Longrightarrow> N \<subseteq> N' \<Longrightarrow> k \<le> k' \<Longrightarrow> measured opt E N' k' st"
  by (auto simp: measured_def split: if_splits)

lemma measured_update [simp]:
  "measured opt E N k (st\<lparr>soak_files := fs\<rparr>) = measured opt E N k st"
  "measured opt E N k (st\<lparr>soak_child := ch\<rparr>) = measured opt E N k st"
  by (simp_all add: measured_def)

lemma save_measured [simp]:
  "measured opt E N k (flow_state (save_slot_snapshot_if_needed c d opt s st)) = measured opt E N k st"
  by (simp add: save_slot_snapshot_if_needed_def split: sum.split)

text \<open>Between counting a slot's batch and counting the slot, the batches may be one ahead.\<close>

definition counted :: "soak_options \<Rightarrow> (u64 \<Rightarrow> u64) \<Rightarrow> u64 set \<Rightarrow> nat \<Rightarrow> soak_state \<Rightarrow> bool" where
  "counted opt E N k st \<longleftrightarrow>
     (if num_soak_batches st = 0 then measured opt E N k st
      else measured opt E N (Suc k) (st\<lparr>num_soak_slots := num_soak_slots st + 1\<rparr>))"

lemma unat_incr: "unat (w :: u64) \<le> k \<Longrightarrow> Suc k < 2 ^ 64 \<Longrightarrow> unat (w + 1) = Suc (unat w)"
  using unat_add_lem [of w 1] by simp

lemma incr_nonzero: "unat (w :: u64) \<le> k \<Longrightarrow> Suc k < 2 ^ 64 \<Longrightarrow> w + 1 \<noteq> 0"
  using unat_incr [of w k] by (metis nat.distinct(1) unat_0)

lemma measured_bounds:
  "measured opt E N k st \<Longrightarrow> unat (num_soak_slots st) \<le> k"
  "measured opt E N k st \<Longrightarrow> unat (num_soak_batches st) \<le> k"
  by (auto simp: measured_def)

lemma counted_same: "measured opt E N k st \<Longrightarrow> Suc k < 2 ^ 64 \<Longrightarrow> counted opt E N k st"
  using unat_incr [of "num_soak_slots st" k]
  by (auto simp: counted_def measured_def split: if_splits)

lemma remember_reference_measured:
  assumes "measured opt E N k st" "reply_of opt E (SlotNews ev)" "remember_reference opt ev st = Inr st'"
  shows "measured opt E N k st'" and "num_soak_batches st' = num_soak_batches st"
    and "last_batch (news_slot ev) > throughput_start_batch opt \<Longrightarrow>
      num_previous_txs st' = Some (E (throughput_start_batch opt))"
  using assms by (auto simp: remember_reference_def measured_def split: if_splits option.splits)

lemma count_txs_counted:
  assumes "measured opt E N k st" "Suc k < 2 ^ 64" "snd (tx_range b) = E n"
    "n > throughput_start_batch opt \<Longrightarrow> num_previous_txs st = Some (E (throughput_start_batch opt))"
  shows "counted opt E (insert n N) k (count_txs opt n b st)"
proof (cases "n > throughput_start_batch opt")
  case True
  note bounds = measured_bounds [OF assms(1)]
  have "num_soak_batches st + 1 \<noteq> 0" by (rule incr_nonzero [OF bounds(2) assms(2)])
  with True assms show ?thesis
    using unat_incr [OF bounds(1) assms(2)] unat_incr [OF bounds(2) assms(2)]
    by (simp add: count_txs_def counted_def measured_def)
next
  case False
  then have "count_txs opt n b st = st" by (simp add: count_txs_def)
  moreover have "measured opt E (insert n N) k st"
    by (rule measured_mono [OF assms(1)]) auto
  ultimately show ?thesis using counted_same assms(2) by simp
qed

lemma count_batch_flow:
  assumes "measured opt E N k st" "Suc k < 2 ^ 64" "reply_of opt E (SlotNews ev)"
  shows "case count_batch opt ev st of
     Go st' \<Rightarrow> counted opt E (insert (last_batch (news_slot ev)) N) k st'
   | Stop r st' \<Rightarrow> st' = st | Unwind st' \<Rightarrow> False"
proof -
  have "measured opt E (insert (last_batch (news_slot ev)) N) k st"
    by (rule measured_mono [OF assms(1)]) auto
  then have same: "counted opt E (insert (last_batch (news_slot ev)) N) k st"
    by (rule counted_same) (rule assms(2))
  have go: "counted opt E (insert (last_batch (news_slot ev)) N) k (count_txs opt (last_batch (news_slot ev)) b st')"
    if "batch_reply ev = Some b" "remember_reference opt ev st = Inr st'" for b st'
  proof (rule count_txs_counted)
    show "measured opt E N k st'" by (rule remember_reference_measured(1) [OF assms(1,3) that(2)])
    show "snd (tx_range b) = E (last_batch (news_slot ev))" using assms(3) that(1) by simp
    show "num_previous_txs st' = Some (E (throughput_start_batch opt))"
      if "last_batch (news_slot ev) > throughput_start_batch opt"
      by (rule remember_reference_measured(3) [OF assms(1,3) \<open>remember_reference opt ev st = Inr st'\<close> that])
  qed (rule assms(2))
  show ?thesis using same go
    by (cases "batch_reply ev"; cases "remember_reference opt ev st") (simp_all add: count_batch_def)
qed

lemma handle_slot_measured:
  assumes "measured opt E N k st" "Suc k < 2 ^ 64" "reply_of opt E (SlotNews ev)"
  shows "measured opt E (insert (last_batch (news_slot ev)) N) (Suc k) (flow_state (handle_slot c d opt ev st))"
proof (cases "count_batch opt ev st")
  case (Go st')
  with count_batch_flow [OF assms] have *: "counted opt E (insert (last_batch (news_slot ev)) N) k st'" by simp
  show ?thesis
  proof (cases "num_soak_batches st' = 0")
    case True
    with * have "measured opt E (insert (last_batch (news_slot ev)) N) (Suc k) st'"
      using measured_mono [of opt E _ k st' _ "Suc k"] by (auto simp: counted_def)
    with True Go show ?thesis by (simp add: handle_slot_def)
  next
    case False
    with * Go show ?thesis by (simp add: handle_slot_def counted_def Let_def)
  qed
next
  case (Stop r st')
  with count_batch_flow [OF assms] have "st' = st" by simp
  with Stop show ?thesis
    by (simp add: handle_slot_def measured_mono [OF assms(1) subset_insertI])
next
  case (Unwind st')
  with count_batch_flow [OF assms] show ?thesis by simp
qed

lemma news_batches_Cons: "news_batches (e # es) = news_batches [e] \<union> news_batches es"
  by (cases e) auto

lemma soak_step_measured:
  assumes "measured opt E N k st" "Suc k < 2 ^ 64" "reply_of opt E e"
  shows "measured opt E (N \<union> news_batches [e]) (Suc k) (flow_state (soak_step c d opt e st))"
proof -
  have same: "measured opt E N (Suc k) st" by (rule measured_mono [OF assms(1)]) auto
  show ?thesis
  proof (cases e)
    case (RollupExited r)
    with same show ?thesis by (cases r) (simp_all add: exit_observed_def)
  next
    case (TaskDone r)
    with same show ?thesis by (cases r) simp_all
  next
    case (SlotStreamEnded w)
    with same show ?thesis by (cases w) (simp_all add: exit_observed_def)
  next
    case (SlotNews ev)
    with handle_slot_measured [OF assms(1,2)] assms(3) show ?thesis by simp
  qed (use same in simp_all)
qed

lemma soak_loop_measured:
  "measured opt E N k st \<Longrightarrow> k + length es < 2 ^ 64 \<Longrightarrow> list_all (reply_of opt E) es \<Longrightarrow>
     measured opt E (N \<union> news_batches es) (k + length es) (flow_state (soak_loop c d opt es st))"
proof (induction es arbitrary: N k st)
  case (Cons e es)
  then have step: "measured opt E (N \<union> news_batches [e]) (Suc k) (flow_state (soak_step c d opt e st))"
    by (intro soak_step_measured) auto
  then have whole: "measured opt E (N \<union> news_batches (e # es)) (k + length (e # es)) (flow_state (soak_step c d opt e st))"
    by (rule measured_mono) (auto simp: news_batches_Cons [of e es])
  show ?case
  proof (cases "soak_step c d opt e st")
    case (Go st')
    with step Cons.prems Cons.IH [of "N \<union> news_batches [e]" "Suc k" st'] show ?thesis
      by (simp add: news_batches_Cons [of e es] Un_assoc)
  qed (use whole in simp_all)
qed simp

lemma initial_measured: "measured opt E {} 0 (initial_soak fs ch)"
  by (simp add: measured_def initial_soak_def)

lemma finish_soak_report:
  "finish_soak opt env h ts primary st = (Inr rep, ps) \<Longrightarrow>
     primary = None \<and> rep = \<lparr>num_txs = num_soak_txs st, num_slots = num_soak_slots st\<rparr> \<and>
     teardown_errors (near_end opt st) ts = []"
  by (auto simp: finish_soak_def combine_None_iff split: prod.splits option.splits)

lemma run_soak_report:
  assumes "run_soak cr ec fc c d opt fs env ch subscribed events ts = Some (Returned (Inr rep), ps)"
  shows "\<exists>st. soak_loop c d opt events (initial_soak fs ch) = Stop None st \<and>
    rep = \<lparr>num_txs = num_soak_txs st, num_slots = num_soak_slots st\<rparr> \<and> teardown_errors (near_end opt st) ts = []"
  using assms
  by (auto simp: run_soak_def split: sum.splits soak_flow.splits prod.splits dest!: finish_soak_report)

text \<open>The report of a soak run measures the load after the batch at which the measurement
  starts: it is empty, or the transactions are those between that batch and the last batch of a
  later slot that the run has seen, in at least one slot and at most as many as there were events.
  The node's replies have to agree on the transactions up to a batch.\<close>

lemma throughput_report_measures:
  assumes "run_soak cr ec fc c d opt fs env ch subscribed events ts = Some (Returned (Inr rep), ps)"
    and "list_all (reply_of opt E) events" and "length events < 2 ^ 64"
  shows "(num_txs rep = 0 \<and> num_slots rep = 0) \<or>
    (\<exists>n \<in> news_batches events. throughput_start_batch opt < n \<and>
       num_txs rep = saturating_sub64 (E n) (E (throughput_start_batch opt)) \<and>
       0 < num_slots rep \<and> unat (num_slots rep) \<le> length events)"
proof -
  obtain st where st: "soak_loop c d opt events (initial_soak fs ch) = Stop None st"
      "rep = \<lparr>num_txs = num_soak_txs st, num_slots = num_soak_slots st\<rparr>"
    using run_soak_report [OF assms(1)] by blast
  have "measured opt E (news_batches events) (length events) st"
    using soak_loop_measured [OF initial_measured, of events opt E c d fs ch] assms(2,3) st(1) by simp
  then show ?thesis using st(2)
    by (auto simp: measured_def word_gt_0 unat_eq_0 split: if_splits)
qed

section \<open>What a success rules out\<close>

text \<open>No event of a successful run was a signal, a panic or cancellation of a task, an error of the
  slot stream, or a failed exit.\<close>

fun harmless :: "soak_event \<Rightarrow> bool" where
  "harmless (RollupExited r) \<longleftrightarrow> r = Some True"
| "harmless (TaskDone r) \<longleftrightarrow> r = TaskOk \<or> (\<exists>e. r = TaskFailed e)"
| "harmless (SlotStreamError e) \<longleftrightarrow> False"
| "harmless (SlotStreamEnded w) \<longleftrightarrow> w = Exited True \<or> w = StillRunning"
| "harmless (SlotNews ev) \<longleftrightarrow> True"
| "harmless (ShutdownEvent r) \<longleftrightarrow> False"

lemma soak_step_harmless:
  assumes "soak_step c d opt e st = Go st' \<or> soak_step c d opt e st = Stop None st'"
  shows "harmless e" and "e = TaskDone (TaskFailed m) \<Longrightarrow> near_end opt st"
proof -
  have "harmless e \<and> (e = TaskDone (TaskFailed m) \<longrightarrow> near_end opt st)"
  proof (cases e)
    case (RollupExited r)
    with assms show ?thesis
      by (cases r) (auto simp: exit_observed_flow exit_flow_def split: if_splits)
  next
    case (TaskDone r)
    with assms show ?thesis by (cases r) (auto split: if_splits)
  next
    case (SlotStreamEnded w)
    with assms show ?thesis
      by (cases w) (auto simp: exit_observed_flow exit_flow_def split: if_splits)
  qed (use assms in auto)
  then show "harmless e" and "e = TaskDone (TaskFailed m) \<Longrightarrow> near_end opt st" by auto
qed

lemma count_batch_batches:
  assumes "unat (num_soak_batches st) \<le> k" "Suc k < 2 ^ 64"
  shows "unat (num_soak_batches (flow_state (count_batch opt ev st)))
    \<in> {unat (num_soak_batches st), Suc (unat (num_soak_batches st))}"
  using unat_incr [OF assms]
  by (auto simp: count_batch_def remember_reference_def count_txs_def split: option.split)

lemma save_batches [simp]:
  "num_soak_batches (flow_state (save_slot_snapshot_if_needed c d opt s st)) = num_soak_batches st"
  by (simp add: save_slot_snapshot_if_needed_def split: sum.split)

lemma handle_slot_batches [simp]:
  "num_soak_batches (flow_state (handle_slot c d opt ev st)) = num_soak_batches (flow_state (count_batch opt ev st))"
  by (cases "count_batch opt ev st") (simp_all add: handle_slot_def Let_def)

lemma soak_step_batches:
  assumes "unat (num_soak_batches st) \<le> k" "Suc k < 2 ^ 64"
  shows "unat (num_soak_batches (flow_state (soak_step c d opt e st)))
    \<in> {unat (num_soak_batches st), Suc (unat (num_soak_batches st))}"
proof (cases e)
  case (RollupExited r)
  then show ?thesis by (cases r) (simp_all add: exit_observed_def)
next
  case (TaskDone r)
  then show ?thesis by (cases r) simp_all
next
  case (SlotStreamEnded w)
  then show ?thesis by (cases w) (simp_all add: exit_observed_def)
qed (use count_batch_batches [OF assms] in simp_all)

lemma soak_step_batches_le:
  assumes "unat (num_soak_batches st) \<le> k" "Suc k < 2 ^ 64" "flow_state (soak_step c d opt e st) = st'"
  shows "unat (num_soak_batches st) \<le> unat (num_soak_batches st')" "unat (num_soak_batches st') \<le> Suc k"
  using soak_step_batches [OF assms(1,2), of c d opt e] assms by auto

lemma soak_loop_batches:
  "unat (num_soak_batches st) \<le> k \<Longrightarrow> k + length es < 2 ^ 64 \<Longrightarrow>
     unat (num_soak_batches st) \<le> unat (num_soak_batches (flow_state (soak_loop c d opt es st)))"
proof (induction es arbitrary: st k)
  case (Cons e es)
  have k: "Suc k < 2 ^ 64" "Suc k + length es < 2 ^ 64" using Cons.prems(2) by simp_all
  note step = soak_step_batches_le [OF Cons.prems(1) k(1), of c d opt e]
  show ?case
  proof (cases "soak_step c d opt e st")
    case (Go st')
    then have "flow_state (soak_step c d opt e st) = st'" by simp
    note step = step [OF this]
    have "unat (num_soak_batches st') \<le> unat (num_soak_batches (flow_state (soak_loop c d opt es st')))"
      by (rule Cons.IH [OF step(2) k(2)])
    with step(1) Go show ?thesis by simp
  next
    case (Stop r st')
    with step(1) [of st'] show ?thesis by simp
  next
    case (Unwind st')
    with step(1) [of st'] show ?thesis by simp
  qed
qed simp

lemma unat_saturating_add64: "unat (saturating_add64 a b) = min (unat a + unat b) (2 ^ 64 - 1)"
proof -
  have "uint a + uint b = int (unat a + unat b)" by simp
  also have "\<dots> < 2 ^ 64 \<longleftrightarrow> unat a + unat b < 2 ^ 64" by (metis of_nat_less_numeral_power_cancel_iff)
  finally have iff: "uint a + uint b < 2 ^ 64 \<longleftrightarrow> unat a + unat b < 2 ^ 64" .
  show ?thesis
  proof (cases "unat a + unat b < 2 ^ 64")
    case True
    then have "unat (a + b) = unat a + unat b" using unat_add_lem [of a b] by simp
    with True iff show ?thesis unfolding saturating_add64_def by simp
  next
    case False
    with iff have "saturating_add64 a b = - 1" unfolding saturating_add64_def by meson
    with False show ?thesis by (simp add: unsigned_minus_1_eq_mask mask_eq_exp_minus_1)
  qed
qed

lemma very_close_iff:
  "is_very_close_to_soak_test_end n target \<longleftrightarrow> unat target < min (unat n + 15) (2 ^ 64 - 1)"
  by (simp add: is_very_close_to_soak_test_end_def word_less_nat_alt unat_saturating_add64)

lemma near_mono:
  "is_very_close_to_soak_test_end a t \<Longrightarrow> unat a \<le> unat b \<Longrightarrow> is_very_close_to_soak_test_end b t"
  by (simp add: very_close_iff)

definition quiet :: "soak_options \<Rightarrow> soak_event list \<Rightarrow> soak_state \<Rightarrow> bool" where
  "quiet opt seen st \<longleftrightarrow> list_all harmless seen \<and>
     (near_end opt st \<or> (\<forall>m. TaskDone (TaskFailed m) \<notin> set seen))"

lemma soak_step_quiet:
  assumes "soak_step c d opt e st = Go st1 \<or> soak_step c d opt e st = Stop None st1"
    "quiet opt seen st'" "unat (num_soak_batches st) \<le> unat (num_soak_batches st')"
  shows "quiet opt (e # seen) st'"
proof -
  have "near_end opt st'" if "e = TaskDone (TaskFailed m)" for m
    by (rule near_mono [OF soak_step_harmless(2) [OF assms(1) that] assms(3)])
  with soak_step_harmless(1) [OF assms(1)] assms(2) show ?thesis
    by (auto simp: quiet_def)
qed

lemma soak_loop_harmless:
  "soak_loop c d opt es st = Stop None st' \<Longrightarrow> unat (num_soak_batches st) \<le> k \<Longrightarrow> k + length es < 2 ^ 64 \<Longrightarrow>
     \<exists>seen rest. es = seen @ rest \<and> soak_loop c d opt seen st = Stop None st' \<and> quiet opt seen st'"
proof (induction es arbitrary: st k)
  case (Cons e es)
  have k: "Suc k < 2 ^ 64" "Suc k + length es < 2 ^ 64" using Cons.prems(3) by simp_all
  note step = soak_step_batches_le [OF Cons.prems(2) k(1), of c d opt e]
  show ?case
  proof (cases "soak_step c d opt e st")
    case (Go st1)
    then have "soak_loop c d opt es st1 = Stop None st'" using Cons.prems(1) by simp
    note step = step [of st1, unfolded Go, simplified]
    from Cons.IH [OF \<open>soak_loop c d opt es st1 = Stop None st'\<close> step(2) k(2)] obtain seen rest
      where *: "es = seen @ rest" "soak_loop c d opt seen st1 = Stop None st'" "quiet opt seen st'" by blast
    have "unat (num_soak_batches st1) \<le> unat (num_soak_batches st')"
      using soak_loop_batches [OF step(2), of seen c d opt] *(1,2) k(2) by simp
    with step(1) have "unat (num_soak_batches st) \<le> unat (num_soak_batches st')" by simp
    with soak_step_quiet [OF disjI1 [OF Go] *(3)] have "quiet opt (e # seen) st'" by blast
    with Go * have "e # es = (e # seen) @ rest \<and> soak_loop c d opt (e # seen) st = Stop None st' \<and> quiet opt (e # seen) st'"
      by simp
    then show ?thesis by blast
  next
    case (Stop r st1)
    with Cons.prems(1) have stop: "soak_step c d opt e st = Stop None st'" by simp
    have "quiet opt [e] st'"
      by (rule soak_step_quiet [OF disjI2 [OF stop]]) (use step(1) [of st'] stop in \<open>simp_all add: quiet_def\<close>)
    with stop have "e # es = [e] @ es \<and> soak_loop c d opt [e] st = Stop None st' \<and> quiet opt [e] st'" by simp
    then show ?thesis by blast
  qed (use Cons.prems(1) in simp)
qed simp

fun task_panicked :: "task_result \<Rightarrow> bool" where
  "task_panicked (TaskPanicked e) \<longleftrightarrow> True"
| "task_panicked r \<longleftrightarrow> False"

lemma no_teardown_errors:
  "teardown_errors near ts = [] \<longleftrightarrow>
     list_all (\<lambda>r. \<not> task_panicked r) ts \<and> (near \<or> (\<forall>m. TaskFailed m \<notin> set ts))"
  by (induction near ts rule: teardown_errors.induct) auto

text \<open>Property C33. When the soak run succeeds, all events up to the one that ended its loop were harmless
  and no task panicked while it was stopped; and unless the loop ended fewer than 15 counted batches
  before the planned height, no background task failed at all.\<close>

theorem soak_success_means:
  assumes "run_soak cr ec fc c d opt fs env ch subscribed events ts = Some (Returned (Inr rep), ps)"
    and "length events < 2 ^ 64"
  shows "\<exists>seen rest st. events = seen @ rest \<and>
    soak_loop c d opt seen (initial_soak fs ch) = Stop None st \<and>
    list_all harmless seen \<and> list_all (\<lambda>r. \<not> task_panicked r) ts \<and>
    (near_end opt st \<or>
     (\<forall>m. TaskDone (TaskFailed m) \<notin> set seen \<and> TaskFailed m \<notin> set ts))"
proof -
  obtain st where st: "soak_loop c d opt events (initial_soak fs ch) = Stop None st"
      "teardown_errors (near_end opt st) ts = []"
    using run_soak_report [OF assms(1)] by blast
  have "unat (num_soak_batches (initial_soak fs ch)) \<le> 0" by (simp add: initial_soak_def)
  from soak_loop_harmless [OF st(1) this] assms(2) st(2) show ?thesis
    by (auto simp: no_teardown_errors quiet_def)
qed

section \<open>A run\<close>

definition demo_file_codec :: file_codec where
  "demo_file_codec = \<lparr>show_metadata = (\<lambda>m. ''''), parse_metadata = (\<lambda>s. Some \<lparr>pinned_addresses = [], unpinned_addresses = []\<rparr>)\<rparr>"

definition demo_batch :: "u64 \<Rightarrow> ledger_batch" where
  "demo_batch n = \<lparr>batch_number = n, batch_hash = '''', tx_range = (0, 10 * n), txs = [], batch_rest = JNull\<rparr>"

definition demo_slot_event :: "u64 \<Rightarrow> soak_event" where
  "demo_slot_event n = SlotNews \<lparr>news_slot = (demo_slot n)\<lparr>batch_range := (n, n + 1)\<rparr>, batch_reply = Some (demo_batch n),
     start_batch_reply = Some (demo_batch 4), full_slot_reply = None\<rparr>"

definition demo_events :: "soak_event list" where
  "demo_events = [demo_slot_event 4, demo_slot_event 5, TaskDone TaskOk, RollupExited (Some True)]"

definition demo_soak_options :: soak_options where
  "demo_soak_options = \<lparr>throughput_start_batch = 4, rollup_stop_height = 34, opt_full_slot_save_interval = 5,
     save_slot_snapshots = False\<rparr>"

definition demo_soak_fs :: fs where
  "demo_soak_fs = [([], Dir), ([''evm''], Dir), ([''evm'', ''state_consistency_contracts.json''], File ''{}'')]"

definition demo_run :: "(throughput_report task_end \<times> process_state) option" where
  "demo_run = run_soak sample_crates demo_evm demo_file_codec demo_codec demo_snapshot_dirs demo_soak_options
     demo_soak_fs (\<lambda>h. StillRunning) (Running 7) True demo_events []"

lemma demo_run_eq: "demo_run = Some (Returned (Inr \<lparr>num_txs = 10, num_slots = 1\<rparr>), Done True, [])"
  by code_simp

lemma rollup_process_stopped_example:
  "demo_run = Some (Returned (Inr \<lparr>num_txs = 10, num_slots = 1\<rparr>), Done True, []) \<and>
   kills_justified (\<lambda>h. StillRunning) []"
  using rollup_process_stopped [OF demo_run_eq [unfolded demo_run_def]] demo_run_eq by simp

lemma throughput_report_measures_example:
  "\<exists>n \<in> news_batches demo_events. throughput_start_batch demo_soak_options < n \<and>
     (10 :: u64) = saturating_sub64 (10 * n) (10 * throughput_start_batch demo_soak_options)"
proof -
  have replies: "list_all (reply_of demo_soak_options (\<lambda>n. 10 * n)) demo_events"
    by (simp add: demo_events_def demo_slot_event_def demo_slot_def demo_batch_def last_batch_def demo_soak_options_def)
  have short: "length demo_events < 2 ^ 64" by (simp add: demo_events_def)
  have "num_txs \<lparr>num_txs = 10, num_slots = 1\<rparr> = 10" by simp
  moreover have "(10 :: u64) \<noteq> 0" by simp
  ultimately show ?thesis
    using throughput_report_measures [OF demo_run_eq [unfolded demo_run_def] replies short] by metis
qed

lemma soak_success_means_witness:
  "\<exists>seen rest. demo_events = seen @ rest \<and> list_all harmless seen \<and>
     (\<exists>st. soak_loop demo_codec demo_snapshot_dirs demo_soak_options seen (initial_soak demo_soak_fs (Running 7)) = Stop None st)"
proof -
  have "length demo_events < 2 ^ 64" by (simp add: demo_events_def)
  from soak_success_means [OF demo_run_eq [unfolded demo_run_def] this] show ?thesis by blast
qed

end
