(* ===== verification/Acceptance_Run.thy ===== *)
theory Acceptance_Run
  imports Acceptance_Soak
begin

text \<open>
  The two programs of the acceptance test around the soak run: the setup run
  (\<open>scripts/acceptance-test/src/bin/setup.rs\<close>) and the test run (\<open>main.rs\<close>), as far as they prepare
  settings, directories and plan, choose the heights of the soak run, and leave their results on
  disk. \<open>Manual_Setup\<close> and \<open>Test_Programs\<close> hold the rest of them.
\<close>

section \<open>Preparation\<close>

datatype run_error = BadSettings config_error | BadPlan plan_error | BadCache evm_error | LostResult config_error

record prepared_run =
  run_dirs :: directories
  run_plan_of :: run_plan
  run_settings_of :: run_settings

text \<open>The arguments are the command line, the variable \<open>CARGO_MANIFEST_DIR\<close>, the current directory and
  the generated password.\<close>

definition prepare_test_run ::
    "tools \<Rightarrow> common_args \<Rightarrow> pathbuf option \<Rightarrow> path \<Rightarrow> string \<Rightarrow> fs \<Rightarrow> run_error + prepared_run \<times> fs" where
  "prepare_test_run t a manifest cwd password fs =
     (let s = from_common_args a
      in rbind (map_err BadSettings (from_settings s manifest cwd fs)) (\<lambda>(d, fs).
         rbind (map_err BadSettings (prepare_rollup_state_dir (rollup_data_path d) (on_existing_rollup_state s) fs)) (\<lambda>fs.
         rbind (map_err BadPlan (prepare_acceptance_run_plan t d password (blocks_per_version s) fs)) (\<lambda>(p, fs).
         Inr (\<lparr>run_dirs = d, run_plan_of = p, run_settings_of = s\<rparr>, fs)))))"

definition prepare_setup_run ::
    "tools \<Rightarrow> evm_crates \<Rightarrow> (pinned_cache_config \<Rightarrow> string) \<Rightarrow> (string \<Rightarrow> pinned_cache_config option) \<Rightarrow>
     common_args \<Rightarrow> pathbuf option \<Rightarrow> path \<Rightarrow> string \<Rightarrow> fs \<Rightarrow> run_error + prepared_run \<times> fs" where
  "prepare_setup_run t ec show_config parse_config a manifest cwd password fs =
     (let s = from_common_args a
      in rbind (map_err BadSettings (from_settings s manifest cwd fs)) (\<lambda>(d, fs).
         rbind (map_err BadSettings (prepare_rollup_state_dir (rollup_data_path d) (on_existing_rollup_state s) fs)) (\<lambda>fs.
         rbind (map_err BadCache (ensure_evm_pinned_cache_config ec show_config parse_config d fs)) (\<lambda>fs.
         rbind (map_err BadPlan (prepare_acceptance_run_plan t d password (blocks_per_version s) fs)) (\<lambda>(p, fs).
         Inr (\<lparr>run_dirs = d, run_plan_of = p, run_settings_of = s\<rparr>, fs))))))"

section \<open>Heights of the soak run\<close>

definition stop_at_height :: "rollup_version list \<Rightarrow> u64" where
  "stop_at_height vs = (if vs = [] then 0 else unwrap_or (stop_height (last vs)) 0)"

text \<open>The setup run measures the last version; with one version it starts after batch 3.\<close>

definition setup_start_batch :: "rollup_version list \<Rightarrow> u64" where
  "setup_start_batch vs =
     (if vs = [] then 3
      else (case start_height (last vs) of None \<Rightarrow> 3 | Some h \<Rightarrow> saturating_sub64 h 1))"

definition setup_soak_options :: "prepared_run \<Rightarrow> soak_options" where
  "setup_soak_options p =
     \<lparr>throughput_start_batch = setup_start_batch (manager_versions (run_plan_of p)),
      rollup_stop_height = stop_at_height (manager_versions (run_plan_of p)),
      opt_full_slot_save_interval = full_slot_save_interval (run_settings_of p),
      save_slot_snapshots = True\<rparr>"

text \<open>The test run checks the batches of the setup run (batch numbers lag one behind the height) and
  goes on with the last version; a plan without versions or without a stop height is a panic.\<close>

definition expected_setup_batches :: "rollup_version list \<Rightarrow> u64 option" where
  "expected_setup_batches vs =
     (if vs = [] then None else map_option (\<lambda>h. saturating_sub64 h 1) (stop_height (last vs)))"

definition test_soak_options :: "prepared_run \<Rightarrow> u64 \<Rightarrow> plan_error + soak_options" where
  "test_soak_options p latest_batch_num =
     rbind (extend_last_stop_height (manager_versions (run_plan_of p)) (blocks_per_version (run_settings_of p))) (\<lambda>vs.
     Inr \<lparr>throughput_start_batch = latest_batch_num, rollup_stop_height = stop_at_height vs,
          opt_full_slot_save_interval = full_slot_save_interval (run_settings_of p),
          save_slot_snapshots = False\<rparr>)"

section \<open>The end of a run\<close>

text \<open>\<open>better new old\<close> compares the two throughputs, quotients in floating point; the setup run keeps
  the best report.\<close>

definition should_overwrite_throughput ::
    "(string \<Rightarrow> throughput_report option) \<Rightarrow> (throughput_report \<Rightarrow> throughput_report \<Rightarrow> bool) \<Rightarrow> path \<Rightarrow> throughput_report \<Rightarrow> fs \<Rightarrow> bool" where
  "should_overwrite_throughput parse better p new fs =
     (case read_to_string p fs of
        Inl e \<Rightarrow> True
      | Inr s \<Rightarrow> (case parse s of None \<Rightarrow> True | Some existing \<Rightarrow> better new existing))"

definition setup_throughput_path :: "directories \<Rightarrow> path" where
  "setup_throughput_path d = throughput_dir d @ [''acceptance_throughput.json'']"

definition cleanup_after_success :: "prepared_run \<Rightarrow> fs \<Rightarrow> config_error + fs" where
  "cleanup_after_success p fs =
     (if cleanup_rollup_state_on_success (run_settings_of p)
      then cleanup_rollup_state_dir (rollup_data_path (run_dirs p)) fs else Inr fs)"

definition finish_setup_run ::
    "(string \<Rightarrow> throughput_report option) \<Rightarrow> (throughput_report \<Rightarrow> string) \<Rightarrow>
     (throughput_report \<Rightarrow> throughput_report \<Rightarrow> bool) \<Rightarrow> prepared_run \<Rightarrow> throughput_report \<Rightarrow> fs \<Rightarrow> run_error + fs" where
  "finish_setup_run parse show_report better p rep fs =
     (let path = setup_throughput_path (run_dirs p)
      in rbind (if should_overwrite_throughput parse better path rep fs
                then map_err (LostResult \<circ> Io) (write_file path (show_report rep) fs) else Inr fs) (\<lambda>fs.
         rbind (map_err LostResult (save_mock_data (run_dirs p) fs)) (\<lambda>fs.
         map_err LostResult (cleanup_after_success p fs))))"

section \<open>The planned heights\<close>

lemma plan_last:
  assumes "prepare_acceptance_run_plan t d password blocks fs = Inr (plan, fs')"
  shows "manager_versions plan \<noteq> []"
    and "stop_height (last (manager_versions plan)) = Some (of_nat (length (manager_versions plan)) * blocks)"
    and "start_height (last (manager_versions plan)) =
      (if length (manager_versions plan) = 1 then None
       else Some (of_nat (length (manager_versions plan) - 1) * blocks + 1))"
proof -
  obtain srcs arts local ps fs1 fs4 fs5 where
    srcs: "load_version_sources t d fs1 = Inr srcs"
    and ps: "plan_versions t d password blocks local 0 srcs arts fs4 = Inr (ps, fs5)"
    and plan: "manager_versions plan = map fst ps"
    by (rule plan_parts [OF assms])
  from plan_versions_nth [OF ps] have len: "length ps = length srcs" and
    nth: "\<And>i. i < length srcs \<Longrightarrow>
       stop_height (fst (ps ! i)) = Some ((of_nat i + 1) * blocks) \<and>
       start_height (fst (ps ! i)) = (if i = 0 then None else Some (of_nat i * blocks + 1))" by auto
  have ne: "ps \<noteq> []" using len load_version_sources_shape(1) [OF srcs] by auto
  then obtain k where k: "length ps = Suc k" by (cases ps) auto
  have "stop_height (fst (ps ! k)) = Some (of_nat (Suc k) * blocks)"
    "start_height (fst (ps ! k)) = (if k = 0 then None else Some (of_nat k * blocks + 1))"
    using nth [of k] len [symmetric] k by (simp_all add: add.commute)
  with ne k show "manager_versions plan \<noteq> []"
    "stop_height (last (manager_versions plan)) = Some (of_nat (length (manager_versions plan)) * blocks)"
    "start_height (last (manager_versions plan)) =
      (if length (manager_versions plan) = 1 then None
       else Some (of_nat (length (manager_versions plan) - 1) * blocks + 1))"
    by (simp_all add: plan last_map last_conv_nth)
qed

lemma no_unwind_slot:
  assumes "opt_full_slot_save_interval opt \<noteq> 0"
  shows "handle_slot c d opt ev st \<noteq> Unwind st'"
  using assms
  by (simp add: handle_slot_def Let_def count_batch_def save_slot_snapshot_if_needed_def
      split: soak_flow.split option.split sum.split)

lemma no_unwind_step:
  assumes "opt_full_slot_save_interval opt \<noteq> 0"
  shows "soak_step c d opt e st \<noteq> Unwind st'"
proof (cases e)
  case (RollupExited r)
  then show ?thesis by (cases r) (simp_all add: exit_observed_def)
next
  case (TaskDone r)
  then show ?thesis by (cases r) simp_all
next
  case (SlotStreamEnded w)
  then show ?thesis by (cases w) (simp_all add: exit_observed_def)
qed (use no_unwind_slot [OF assms] in simp_all)

lemma no_unwind_loop:
  "opt_full_slot_save_interval opt \<noteq> 0 \<Longrightarrow> soak_loop c d opt es st \<noteq> Unwind st'"
proof (induction es arbitrary: st)
  case (Cons e es)
  then show ?case using no_unwind_step [of opt c d e st] by (simp split: soak_flow.split)
qed simp

lemma no_crash:
  assumes "opt_full_slot_save_interval opt \<noteq> 0"
  shows "run_soak cr ec fc c d opt fs env ch subscribed events ts \<noteq> Some (Crashed e, ps)"
  using no_unwind_loop [OF assms] by (simp add: run_soak_def split: sum.split soak_flow.split prod.split)

text \<open>A window that is not near its end when nothing has been counted.\<close>

definition window :: "soak_options \<Rightarrow> nat \<Rightarrow> nat \<Rightarrow> bool" where
  "window opt stop span \<longleftrightarrow>
     unat (rollup_stop_height opt) = stop \<and> unat (target_soak_batches opt) = span \<and>
     (\<forall>fs ch. \<not> near_end opt (initial_soak fs ch)) \<and>
     (\<forall>cr ec fc c d fs env ch subscribed events ts e ps.
        run_soak cr ec fc c d opt fs env ch subscribed events ts \<noteq> Some (Crashed e, ps))"

lemma windowI:
  assumes "opt_full_slot_save_interval opt \<noteq> 0" "15 \<le> span" "span = unat (rollup_stop_height opt) - unat (throughput_start_batch opt)"
    "unat (rollup_stop_height opt) = stop"
  shows "window opt stop span"
proof -
  have "unat (target_soak_batches opt) = span"
    using assms(3) by (simp add: target_soak_batches_def unat_saturating_sub64)
  with assms(2,4) no_crash [OF assms(1)] show ?thesis
    by (simp add: window_def very_close_iff initial_soak_def)
qed

lemma small_product:
  assumes "(n :: nat) < 2 ^ 50" "b = (30 :: u64) \<or> b = 1000"
  shows "Suc n * unat b < 2 ^ 64" and "Suc (n * unat b) < 2 ^ 64"
  using assms by auto

lemma lagging: "unat (x :: u64) = k \<Longrightarrow> Suc k < 2 ^ 64 \<Longrightarrow> unat (saturating_sub64 (x + 1) 1) = k"
  using unat_incr [of x k] by (simp add: unat_saturating_sub64)

lemma profile_values:
  "s = from_common_args a \<Longrightarrow>
     (blocks_per_version s = 30 \<or> blocks_per_version s = 1000) \<and> full_slot_save_interval s \<noteq> 0"
  by (cases "short a") (simp_all add: from_common_args_def Let_def)

text \<open>The heights of the setup run fit together: its soak run stops where the last planned
  version stops, after as many blocks as there are versions times the blocks of the profile; it
  measures exactly the blocks of the last version (all but the first three if there is only one),
  does not start within the window in which failures of background tasks are forgiven, and cannot
  panic on its save interval.\<close>

lemma setup_measures_last_version:
  assumes "prepare_setup_run t ec show_config parse_config a manifest cwd password fs = Inr (p, fs')"
    and "n = length (manager_versions (run_plan_of p))" "n < 2 ^ 50"
  shows "0 < n \<and> window (setup_soak_options p) (n * unat (blocks_per_version (run_settings_of p)))
    (if n = 1 then unat (blocks_per_version (run_settings_of p)) - 3 else unat (blocks_per_version (run_settings_of p)))"
proof -
  let ?b = "blocks_per_version (run_settings_of p)"
  obtain d fs1 fs2 where p: "prepare_acceptance_run_plan t d password ?b fs1 = Inr (run_plan_of p, fs2)"
    and s: "run_settings_of p = from_common_args a"
    using assms(1) by (auto simp: prepare_setup_run_def Let_def split: prod.splits)
  have b: "?b = 30 \<or> ?b = 1000" and interval: "full_slot_save_interval (run_settings_of p) \<noteq> 0"
    using profile_values [OF s] by blast+
  note heights = plan_last [OF p, folded assms(2)]
  have n: "0 < n" using heights(1) assms(2) by simp
  have prod: "n * unat ?b < 2 ^ 64" "Suc ((n - 1) * unat ?b) < 2 ^ 64"
    using small_product [of "n - 1" ?b] assms(3) b n by auto
  have stop: "unat (rollup_stop_height (setup_soak_options p)) = n * unat ?b"
    using word_product_exact [OF prod(1)] heights(1,2) by (simp add: setup_soak_options_def stop_at_height_def)
  have "unat (of_nat (n - 1) * ?b) = (n - 1) * unat ?b"
    by (rule word_product_exact) (use prod(2) in simp)
  from lagging [OF this prod(2)]
  have start: "unat (throughput_start_batch (setup_soak_options p)) = (if n = 1 then 3 else (n - 1) * unat ?b)"
    using heights(1,3) by (simp add: setup_soak_options_def setup_start_batch_def)
  have "(if n = 1 then unat ?b - 3 else unat ?b) = n * unat ?b - (if n = 1 then 3 else (n - 1) * unat ?b)"
    using n by (cases n) auto
  with n stop start b interval show ?thesis
    by (intro conjI windowI) (auto simp: setup_soak_options_def)
qed

text \<open>The test run follows on from the setup run: it expects the batches up to the last planned
  height, its soak run stops one profile of blocks later, and if the resync ends with the last
  expected batch the soak run measures those blocks and one more, again outside the forgiving
  window at its start and without a panic.\<close>

lemma test_run_follows_setup:
  assumes "prepare_test_run t a manifest cwd password fs = Inr (p, fs')"
    and "n = length (manager_versions (run_plan_of p))" "n < 2 ^ 50"
  shows "\<exists>expected opt.
    expected_setup_batches (manager_versions (run_plan_of p)) = Some expected \<and>
    unat expected + 1 = n * unat (blocks_per_version (run_settings_of p)) \<and>
    test_soak_options p expected = Inr opt \<and>
    window opt ((n + 1) * unat (blocks_per_version (run_settings_of p)))
      (unat (blocks_per_version (run_settings_of p)) + 1)"
proof -
  let ?b = "blocks_per_version (run_settings_of p)"
  let ?vs = "manager_versions (run_plan_of p)"
  obtain d fs1 fs2 where p: "prepare_acceptance_run_plan t d password ?b fs1 = Inr (run_plan_of p, fs2)"
    and s: "run_settings_of p = from_common_args a"
    using assms(1) by (auto simp: prepare_test_run_def Let_def split: prod.splits)
  have b: "?b = 30 \<or> ?b = 1000" and interval: "full_slot_save_interval (run_settings_of p) \<noteq> 0"
    using profile_values [OF s] by blast+
  note heights = plan_last [OF p, folded assms(2)]
  have n: "0 < n" using heights(1) assms(2) by simp
  have prod: "n * unat ?b < 2 ^ 64" "(n + 1) * unat ?b < 2 ^ 64"
    using small_product(1) [of n ?b] assms(3) b by auto
  define expected where "expected = saturating_sub64 (of_nat n * ?b) 1"
  define opt where "opt = \<lparr>throughput_start_batch = expected, rollup_stop_height = of_nat n * ?b + ?b,
    opt_full_slot_save_interval = full_slot_save_interval (run_settings_of p), save_slot_snapshots = False\<rparr>"
  have ex: "expected_setup_batches ?vs = Some expected"
    using heights by (simp add: expected_setup_batches_def expected_def)
  have "?b \<noteq> 0" using b by auto
  then have "test_soak_options p expected = Inr opt"
    using heights by (simp add: test_soak_options_def extend_last_stop_height_def stop_at_height_def opt_def)
  moreover have u: "unat expected = n * unat ?b - 1"
    using word_product_exact [OF prod(1)] by (simp add: expected_def unat_saturating_sub64)
  moreover have "1 \<le> n * unat ?b" using n b by auto
  moreover have "of_nat n * ?b + ?b = of_nat (n + 1) * ?b" by (simp add: algebra_simps)
  then have "unat (rollup_stop_height opt) = (n + 1) * unat ?b"
    using word_product_exact [OF prod(2)] by (simp add: opt_def)
  ultimately show ?thesis
    using ex b interval
    by (intro exI [of _ expected] exI [of _ opt] conjI windowI) (auto simp: opt_def)
qed

section \<open>Prepared runs\<close>

definition demo_args :: common_args where
  "demo_args = \<lparr>short = True, arg_acceptance_data_dir = None, arg_acceptance_throughput_dir = None,
     arg_rollup_state_dir = None, arg_on_existing_rollup_state = Error,
     arg_postgres_docker_container_name = None, arg_binary_cache_dir = None\<rparr>"

definition demo_run_fs :: fs where
  "demo_run_fs =
     [([], Dir), ([''versions.yaml''], File ''''), ([''vars''], File ''c0''), ([''s''], Dir), ([''s'', ''t''], Dir),
      ([''s'', ''t'', ''rollup_config.toml''], File ''x''),
      ([''target'', ''release'', ''rollup''], File ''''), ([''target'', ''release'', ''subscriber''], File '''')]"

definition demo_run_tools :: tools where
  "demo_run_tools = demo_tools\<lparr>run_tool := (\<lambda>c fs. (Some True,
     case current_dir c of
       Some d \<Rightarrow> put (d @ [''target'', ''release'', ''sov-rollup-manager'']) (File ''bin'') fs | None \<Rightarrow> fs))\<rparr>"

definition demo_prepared_setup :: "(prepared_run \<times> fs) option" where
  "demo_prepared_setup =
     (case prepare_setup_run demo_run_tools demo_evm (\<lambda>c. '''') (\<lambda>s. None) demo_args (Some (Absolute [''s'', ''t''])) [] ''pw'' demo_run_fs of
        Inl e \<Rightarrow> None | Inr r \<Rightarrow> Some r)"

definition demo_prepared_test :: "(prepared_run \<times> fs) option" where
  "demo_prepared_test =
     (case prepare_test_run demo_run_tools demo_args (Some (Absolute [''s'', ''t''])) [] ''pw'' demo_run_fs of
        Inl e \<Rightarrow> None | Inr r \<Rightarrow> Some r)"

lemma demo_prepared:
  "map_option (\<lambda>r. (length (manager_versions (run_plan_of (fst r))), blocks_per_version (run_settings_of (fst r)))) demo_prepared_setup = Some (2, 30)"
  "map_option (\<lambda>r. (length (manager_versions (run_plan_of (fst r))), blocks_per_version (run_settings_of (fst r)))) demo_prepared_test = Some (2, 30)"
  by code_simp code_simp

lemma setup_measures_last_version_example:
  "\<exists>p fs'. demo_prepared_setup = Some (p, fs') \<and> window (setup_soak_options p) 60 30"
proof -
  from demo_prepared(1) obtain p fs' where p: "demo_prepared_setup = Some (p, fs')"
      "length (manager_versions (run_plan_of p)) = 2" "blocks_per_version (run_settings_of p) = 30" by auto
  then have ok: "prepare_setup_run demo_run_tools demo_evm (\<lambda>c. '''') (\<lambda>s. None) demo_args (Some (Absolute [''s'', ''t''])) [] ''pw'' demo_run_fs = Inr (p, fs')"
    by (simp add: demo_prepared_setup_def split: sum.splits)
  from setup_measures_last_version [OF ok refl] p(2,3) have "window (setup_soak_options p) 60 30" by simp
  with p(1) show ?thesis by blast
qed

lemma test_run_follows_setup_example:
  "\<exists>p fs' opt. demo_prepared_test = Some (p, fs') \<and> expected_setup_batches (manager_versions (run_plan_of p)) = Some 59 \<and>
     test_soak_options p 59 = Inr opt \<and> window opt 90 31"
proof -
  from demo_prepared(2) obtain p fs' where p: "demo_prepared_test = Some (p, fs')"
      "length (manager_versions (run_plan_of p)) = 2" "blocks_per_version (run_settings_of p) = 30" by auto
  then have ok: "prepare_test_run demo_run_tools demo_args (Some (Absolute [''s'', ''t''])) [] ''pw'' demo_run_fs = Inr (p, fs')"
    by (simp add: demo_prepared_test_def split: sum.splits)
  from test_run_follows_setup [OF ok refl] p obtain e opt where
    e: "expected_setup_batches (manager_versions (run_plan_of p)) = Some e" "unat e + 1 = 60"
      "test_soak_options p e = Inr opt" "window opt 90 31" by auto
  from e(2) have "e = 59" using word_unat_eq_iff [of e 59] by simp
  with p(1) e show ?thesis by blast
qed

end
