(* ===== verification/Manual_Setup.thy ===== *)
theory Manual_Setup
  imports Acceptance_Soak
begin

text \<open>
  The first phase of the setup run (\<open>scripts/acceptance-test/src/bin/setup.rs\<close>, \<open>do_manual_setup\<close>): a
  token is created, minted and transferred by hand, and the supply of the token, the events and the
  slots are checked at every step. Transactions and slots are types of the SDK; \<open>tx_view\<close> reads the
  events and the number of a ledger transaction, the derivation of the token's id is a parameter,
  and so is signing, which does not depend on anything the test reads. A failed assertion and an
  \<open>unwrap\<close> of nothing are \<open>SetupPanic\<close>.
\<close>

section \<open>Transactions\<close>

type_synonym amount = u128

datatype bank_call =
    CreateToken string amount string "string list"
  | Mint amount string string
  | Transfer amount string string

record tx_info =
  tx_events :: "json list"
  tx_id :: string
  tx_num :: "u64 option"
  tx_receipt :: "json option"

record api_accepted_tx =
  acc_events :: "json list"
  acc_id :: string
  acc_num :: u64
  acc_receipt :: json

datatype setup_error =
    SetupPanic | Interrupted string | NotSubscribed | NotAccepted | NoSupply | BadAmount
  | Fetch fetch_error | Deploy evm_error

definition compare_tx_info_and_accepted_tx :: "tx_info \<Rightarrow> api_accepted_tx \<Rightarrow> setup_error + unit" where
  "compare_tx_info_and_accepted_tx t a =
     ensure (tx_events t = acc_events a \<and> tx_id t = acc_id a \<and> tx_num t = Some (acc_num a) \<and>
       (case tx_receipt t of None \<Rightarrow> True | Some r \<Rightarrow> r = acc_receipt a)) SetupPanic"

definition test_address :: string where
  "test_address = ''0x9b08ce57a93751aE790698A2C9ebc76A78F23E25''"

definition set_txs :: "(string \<Rightarrow> string \<Rightarrow> string) \<Rightarrow> bank_call list \<times> string" where
  "set_txs get_token_id =
     (let token_id = get_token_id ''acceptance-test-token'' test_address
      in ([CreateToken ''acceptance-test-token'' 1000 test_address [test_address],
           Mint 800 token_id test_address,
           Transfer 10 token_id ''0x0000000000000000000000000000000000000000''], token_id))"

section \<open>The node\<close>

datatype setup_request = Submit bank_call | Get string

datatype http_reply = HttpOk json | HttpNotFound | HttpFailed

record setup_node =
  submit_answer :: "setup_request list \<Rightarrow> tx_info option"
  get_answer :: "setup_request list \<Rightarrow> http_reply"

type_synonym 'a setup_act = "(setup_error, setup_request, 'a) act"

definition sign_and_send_tx :: "setup_node \<Rightarrow> bank_call \<Rightarrow> tx_info setup_act" where
  "sign_and_send_tx n call =
     ask (\<lambda>h. case submit_answer n h of None \<Rightarrow> Inl NotAccepted | Some t \<Rightarrow> Inr t) (Submit call)"

definition supply_url :: "string \<Rightarrow> u64 option \<Rightarrow> string" where
  "supply_url token slot =
     api_url @ ''/modules/bank/tokens/'' @ token @ ''/total-supply'' @
     (case slot of None \<Rightarrow> '''' | Some s \<Rightarrow> ''?slot_number='' @ show_u64 s)"

fun supply_of :: "http_reply \<Rightarrow> setup_error + amount" where
  "supply_of HttpFailed = Inl NoSupply"
| "supply_of HttpNotFound = Inr 0"
| "supply_of (HttpOk j) =
     (case as_str (json_field j ''amount'') of
        None \<Rightarrow> Inl SetupPanic
      | Some s \<Rightarrow> (case parse_u128 s of None \<Rightarrow> Inl BadAmount | Some a \<Rightarrow> Inr a))"

definition get_supply_archival :: "setup_node \<Rightarrow> string \<Rightarrow> u64 option \<Rightarrow> amount setup_act" where
  "get_supply_archival n token slot = ask (\<lambda>h. supply_of (get_answer n h)) (Get (supply_url token slot))"

definition get_supply :: "setup_node \<Rightarrow> string \<Rightarrow> amount setup_act" where
  "get_supply n token = get_supply_archival n token None"

definition check_supply :: "setup_node \<Rightarrow> string \<Rightarrow> u64 option \<Rightarrow> amount \<Rightarrow> unit setup_act" where
  "check_supply n token slot expected =
     io_bind (get_supply_archival n token slot) (\<lambda>s. io_lift (ensure (s = expected) SetupPanic))"

text \<open>A transaction is sent; its only event is the next one of the sequencer, and the sequencer reports
  the same transaction. The two streams' next items are arguments.\<close>

definition send_checked :: "setup_node \<Rightarrow> bank_call \<Rightarrow> json option \<Rightarrow> api_accepted_tx option \<Rightarrow> json setup_act" where
  "send_checked n call event accepted =
     io_bind (sign_and_send_tx n call) (\<lambda>response.
     io_lift
      (rbind (ensure (length (tx_events response) = 1) SetupPanic) (\<lambda>_.
       rbind (ensure (event = Some (hd (tx_events response))) SetupPanic) (\<lambda>_.
       rbind (case accepted of None \<Rightarrow> Inl SetupPanic | Some a \<Rightarrow> compare_tx_info_and_accepted_tx response a) (\<lambda>_.
       Inr (hd (tx_events response)))))))"

section \<open>Waiting for the batches\<close>

record tx_view =
  view_events :: "json \<Rightarrow> json list"
  view_number :: "json \<Rightarrow> u64"

definition has_event :: "tx_view \<Rightarrow> json \<Rightarrow> json \<Rightarrow> setup_error + unit" where
  "has_event v event t =
     rbind (ensure (length (view_events v t) = 1) SetupPanic) (\<lambda>_. ensure (hd (view_events v t) = event) SetupPanic)"

text \<open>At most ten slots are awaited; \<open>news i\<close> is what the subscriptions deliver for the \<open>i\<close>th slot of the
  run. A batch that does not come leaves the number at zero.\<close>

fun await_first_batch ::
    "nat \<Rightarrow> codec \<Rightarrow> tx_view \<Rightarrow> (nat \<Rightarrow> slot_news) \<Rightarrow> json \<Rightarrow> nat \<Rightarrow> u64 \<Rightarrow> slot_monitor \<Rightarrow> fs \<Rightarrow>
     setup_error + (u64 \<times> u64 \<times> nat \<times> slot_monitor \<times> fs)" where
  "await_first_batch 0 c v news event i subscribed m fs = Inr (subscribed, 0, i, m, fs)"
| "await_first_batch (Suc k) c v news event i subscribed m fs =
     rbind (map_err Fetch (get_next_slot c SaveSnapshot (news i) m fs)) (\<lambda>((ns, nc, fn, fc), m', fs').
     let sub = (if i = 0 then number ns else subscribed) in
     case batches nc of
       [] \<Rightarrow> await_first_batch k c v news event (i + 1) sub m' fs'
     | b # bs \<Rightarrow>
         (case txs b of
            [] \<Rightarrow> await_first_batch k c v news event (i + 1) sub m' fs'
          | t # ts \<Rightarrow> rbind (has_event v event t) (\<lambda>_. Inr (sub, number ns, i + 1, m', fs'))))"

fun await_second_batch ::
    "nat \<Rightarrow> codec \<Rightarrow> tx_view \<Rightarrow> (nat \<Rightarrow> slot_news) \<Rightarrow> json \<Rightarrow> nat \<Rightarrow> slot_monitor \<Rightarrow> fs \<Rightarrow>
     setup_error + (u64 \<times> nat \<times> slot_monitor \<times> fs)" where
  "await_second_batch 0 c v news event i m fs = Inr (0, i, m, fs)"
| "await_second_batch (Suc k) c v news event i m fs =
     rbind (map_err Fetch (get_next_slot c SaveSnapshot (news i) m fs)) (\<lambda>((ns, nc, fn, fc), m', fs').
     case batches fc of
       [] \<Rightarrow> await_second_batch k c v news event (i + 1) m' fs'
     | b # bs \<Rightarrow>
         (case find (\<lambda>t. view_number v t = 2) (txs b) of
            None \<Rightarrow> await_second_batch k c v news event (i + 1) m' fs'
          | Some t \<Rightarrow> rbind (has_event v event t) (\<lambda>_. Inr (number fc, i + 1, m', fs'))))"

section \<open>Comparing all slots\<close>

fun fetch_slots :: "codec \<Rightarrow> ledger_node \<Rightarrow> path \<Rightarrow> item_behavior \<Rightarrow> u64 list \<Rightarrow> fs \<Rightarrow> fs ledger_act" where
  "fetch_slots c n out b [] fs = io_return fs"
| "fetch_slots c n out b (i # is) fs =
     io_bind (fetch_and_compare_slot c n out i b fs) (\<lambda>(s, fs'). fetch_slots c n out b is fs')"

definition exclusive_range :: "u64 \<Rightarrow> u64 \<Rightarrow> u64 list" where
  "exclusive_range a b = map of_nat [unat a ..< unat b]"

definition compare_all_slots :: "codec \<Rightarrow> ledger_node \<Rightarrow> path \<Rightarrow> u64 \<Rightarrow> u64 \<Rightarrow> fs \<Rightarrow> fs ledger_act" where
  "compare_all_slots c n out first last_slot fs =
     io_bind (fetch_slots c n out SaveSnapshot (exclusive_range 0 first) fs) (\<lambda>fs.
     fetch_slots c n out CheckAgainstSnapshot (inclusive_range first last_slot) fs)"

definition expected_supply :: "u64 \<Rightarrow> u64 \<Rightarrow> u64 \<Rightarrow> amount" where
  "expected_supply f s j = (if j < f then 0 else if j < s then 1000 else 1800)"

fun check_supplies :: "setup_node \<Rightarrow> string \<Rightarrow> u64 \<Rightarrow> u64 \<Rightarrow> u64 list \<Rightarrow> unit setup_act" where
  "check_supplies n token f s [] = io_return ()"
| "check_supplies n token f s (j # js) =
     io_bind (check_supply n token (Some j) (expected_supply f s j)) (\<lambda>_. check_supplies n token f s js)"

section \<open>The manual setup\<close>

text \<open>The outside of a run: the parts of the node, the streams, and the waiting for the sequencer.\<close>

record outside =
  bank_node :: setup_node
  slot_node :: ledger_node
  evm_rpc :: evm_node
  seq_events :: "nat \<Rightarrow> json option"
  seq_txs :: "nat \<Rightarrow> api_accepted_tx option"
  slot_stream :: "nat \<Rightarrow> slot_news"
  seq_ready :: "nat \<Rightarrow> bool"
  streams_open :: bool
  shutdown_signal :: "nat \<Rightarrow> shutdown_reason option"

definition send_all ::
    "codec \<Rightarrow> tx_view \<Rightarrow> (string \<Rightarrow> string \<Rightarrow> string) \<Rightarrow> outside \<Rightarrow> directories \<Rightarrow> fs \<Rightarrow>
     (u64 \<times> u64 \<times> u64 \<times> slot_monitor \<times> fs) setup_act" where
  "send_all c v get_token_id out d fs =
     (let n = bank_node out; (calls, token) = set_txs get_token_id
      in io_bind (check_supply n token None 0) (\<lambda>_.
         io_bind (send_checked n (calls ! 0) (seq_events out 0) (seq_txs out 0)) (\<lambda>created.
         io_bind (check_supply n token None 1000) (\<lambda>_.
         io_bind (io_lift (await_first_batch 10 c v (slot_stream out) created 0 0 (new_monitor d) fs))
           (\<lambda>(subscribed, first, i, m, fs).
         io_bind (send_checked n (calls ! 1) (seq_events out 1) (seq_txs out 1)) (\<lambda>_.
         io_bind (check_supply n token None 1800) (\<lambda>_.
         io_bind (send_checked n (calls ! 2) (seq_events out 2) (seq_txs out 2)) (\<lambda>transferred.
         io_bind (check_supply n token None 1800) (\<lambda>_.
         io_bind (io_lift (await_second_batch 10 c v (slot_stream out) transferred i m fs)) (\<lambda>(second, i, m, fs).
         io_return (subscribed, first, second, m, fs)))))))))))"

definition do_manual_setup ::
    "crates \<Rightarrow> evm_crates \<Rightarrow> file_codec \<Rightarrow> nat \<Rightarrow> codec \<Rightarrow> tx_view \<Rightarrow> (string \<Rightarrow> string \<Rightarrow> string) \<Rightarrow> outside \<Rightarrow>
     directories \<Rightarrow> fs \<Rightarrow> fs setup_act" where
  "do_manual_setup cr ec fc tries c v get_token_id out d fs =
     io_bind (io_lift (map_err Interrupted (wait_for_sequencer_ready (seq_ready out) (shutdown_signal out)))) (\<lambda>_.
     io_bind (io_lift (ensure (streams_open out) NotSubscribed)) (\<lambda>_.
     io_bind (send_all c v get_token_id out d fs) (\<lambda>(subscribed, first, second, m, fs).
     case prev_slot_with_children m of
       None \<Rightarrow> io_lift (Inl SetupPanic)
     | Some s \<Rightarrow>
         io_bind (io_lift (map_err Fetch (fst (compare_all_slots c (slot_node out) (snapshots_dir d) subscribed (number s) fs [])))) (\<lambda>fs.
         io_bind (check_supplies (bank_node out) (snd (set_txs get_token_id)) first second (inclusive_range 0 (number s))) (\<lambda>_.
         io_bind (io_lift (map_err Deploy (fst (setup_state_consistency_contracts cr ec fc (evm_rpc out) tries d fs [])))) (\<lambda>(cs, fs).
         io_return fs))))))"

section \<open>What a successful setup has checked\<close>

definition supply_seen :: "setup_node \<Rightarrow> string \<Rightarrow> setup_request list \<Rightarrow> u64 \<Rightarrow> amount \<Rightarrow> bool" where
  "supply_seen n token h j a \<longleftrightarrow>
     (\<exists>g rest. h = g @ [Get (supply_url token (Some j))] @ rest \<and>
        supply_of (get_answer n (g @ [Get (supply_url token (Some j))])) = Inr a)"

definition slot_validated :: "codec \<Rightarrow> ledger_node \<Rightarrow> path \<Rightarrow> fs \<Rightarrow> ledger_request list \<Rightarrow> u64 \<Rightarrow> bool" where
  "slot_validated c n out fs h j \<longleftrightarrow>
     (\<exists>g rest s. h = g @ [GetSlot (ById j) (Some True)] @ rest \<and>
        slot_answer n (g @ [GetSlot (ById j) (Some True)]) = Some s \<and> validate_against_snapshot c s out fs = Inr ())"

lemma supply_seen_append: "supply_seen n token h j a \<Longrightarrow> supply_seen n token (h @ t) j a"
  unfolding supply_seen_def by (metis append.assoc)

lemma slot_validated_append: "slot_validated c n out fs h j \<Longrightarrow> slot_validated c n out fs (h @ t) j"
  unfolding slot_validated_def by (metis append.assoc)

lemma check_supply_Inr:
  "check_supply n token slot a h = (Inr u, h') \<longleftrightarrow>
     h' = h @ [Get (supply_url token slot)] \<and> supply_of (get_answer n h') = Inr a"
  by (auto simp: check_supply_def get_supply_archival_def io_bind_Inr_iff ask_def)

lemma check_supplies_Inr:
  "check_supplies n token f s js h = (Inr u, h') \<Longrightarrow>
     h' = h @ map (\<lambda>j. Get (supply_url token (Some j))) js \<and>
     (\<forall>j \<in> set js. supply_seen n token h' j (expected_supply f s j))"
proof (induction js arbitrary: h)
  case (Cons j js)
  let ?q = "Get (supply_url token (Some j))"
  from Cons.prems have j: "supply_of (get_answer n (h @ [?q])) = Inr (expected_supply f s j)"
    and rest: "check_supplies n token f s js (h @ [?q]) = (Inr u, h')"
    by (auto simp: io_bind_Inr_iff check_supply_Inr)
  have "supply_seen n token (h @ [?q]) j (expected_supply f s j)"
    using j unfolding supply_seen_def by force
  with Cons.IH [OF rest] show ?case
    using supply_seen_append [of n token "h @ [?q]" j] by auto
qed simp

lemma send_checked_Inr:
  "send_checked n call e a h = (Inr x, h') \<Longrightarrow>
     h' = h @ [Submit call] \<and> e = Some x \<and> (\<exists>t. submit_answer n h' = Some t \<and> tx_events t = [x])"
  by (auto simp: send_checked_def sign_and_send_tx_def io_bind_Inr_iff ask_def length_Suc_conv split: option.splits)

lemma send_all_Inr:
  assumes "send_all c v get_token_id out d fs h = (Inr r, h')"
  shows "let (calls, token) = set_txs get_token_id; u = Get (supply_url token None)
    in h' = h @ [u, Submit (calls ! 0), u, Submit (calls ! 1), u, Submit (calls ! 2), u]"
  using assms
  by (auto simp: send_all_def Let_def io_bind_Inr_iff check_supply_Inr split: prod.splits dest!: send_checked_Inr)

lemma fetch_and_compare_batch_appends:
  "fetch_and_compare_batch n i h = (Inr b, h') \<Longrightarrow> \<exists>t. h' = h @ t"
  by (auto simp: fetch_and_compare_batch_def fetch_batch_without_children_def get_batch_by_id_def io_bind_Inr_iff ask_def
      split: option.splits)

lemma compare_batches_appends: "compare_batches n bs h = (Inr u, h') \<Longrightarrow> \<exists>t. h' = h @ t"
proof (induction bs arbitrary: h)
  case (Cons b bs)
  from Cons.prems obtain b' h1 where
    "fetch_and_compare_batch n (batch_number b) h = (Inr b', h1)" "compare_batches n bs h1 = (Inr u, h')"
    by (auto simp: io_bind_Inr_iff)
  with Cons.IH fetch_and_compare_batch_appends show ?case by (metis append.assoc)
qed simp

lemma fetch_and_compare_appends:
  assumes "fetch_and_compare_slot c n out j CheckAgainstSnapshot fs h = (Inr (s, fs'), h')"
  shows "fs' = fs" "slot_validated c n out fs h' j" "\<exists>t. h' = h @ t"
proof -
  let ?q = "GetSlot (ById j) (Some True)"
  from assms obtain g where
    first: "slot_answer n (h @ [?q]) = Some s" and g: "compare_batches n (batches s) (h @ [?q] @ g) = (Inr (), h')"
    and snap: "handle_snapshot c CheckAgainstSnapshot s out fs = Inr fs'"
    by (auto simp: fetch_and_compare_slot_def get_slot_by_id_def io_bind_Inr_iff ask_def split: option.splits)
  from compare_batches_appends [OF g] obtain t where t: "h' = h @ [?q] @ g @ t" by auto
  from snap have valid: "validate_against_snapshot c s out fs = Inr ()" and fs: "fs' = fs"
    by (auto simp: handle_snapshot_def rbind_Inr_iff)
  show "fs' = fs" by (fact fs)
  show "slot_validated c n out fs h' j"
    unfolding slot_validated_def using t first valid by blast
  show "\<exists>t. h' = h @ t" using t by blast
qed

lemma fetch_slots_checked:
  "fetch_slots c n out CheckAgainstSnapshot js fs h = (Inr fs', h') \<Longrightarrow>
     fs' = fs \<and> (\<exists>t. h' = h @ t) \<and> (\<forall>j \<in> set js. slot_validated c n out fs h' j)"
proof (induction js arbitrary: h)
  case (Cons j js)
  from Cons.prems obtain s fs1 h1 where
    one: "fetch_and_compare_slot c n out j CheckAgainstSnapshot fs h = (Inr (s, fs1), h1)"
    and rest: "fetch_slots c n out CheckAgainstSnapshot js fs1 h1 = (Inr fs', h')"
    by (auto simp: io_bind_Inr_iff)
  note one = fetch_and_compare_appends [OF one]
  from Cons.IH [OF rest [unfolded one(1)]] one show ?case
    by (auto dest: slot_validated_append)
qed simp

text \<open>When the manual setup succeeds, it has sent exactly the creation, the minting and the
  transfer, in this order and each between two checks of the supply, and afterwards asked for the
  supply at every slot up to the last one: the node reported nothing before the slot of the first
  batch, the initial balance up to the slot of the second, and all of it from there on. Every slot
  from the first subscribed one was fetched again and is the slot of its snapshot.\<close>

lemma manual_setup_checked:
  assumes "do_manual_setup cr ec fc tries c v get_token_id out d fs [] = (Inr fs', h)"
  shows "\<exists>first second subscribed final fs1 hl.
    (let (calls, token) = set_txs get_token_id; u = Get (supply_url token None)
     in h = [u, Submit (calls ! 0), u, Submit (calls ! 1), u, Submit (calls ! 2), u] @
          map (\<lambda>j. Get (supply_url token (Some j))) (inclusive_range 0 final) \<and>
        (\<forall>j \<le> final. supply_seen (bank_node out) token h j (expected_supply first second j))) \<and>
    (\<forall>j. subscribed \<le> j \<longrightarrow> j \<le> final \<longrightarrow> slot_validated c (slot_node out) (snapshots_dir d) fs1 hl j)"
proof -
  obtain calls token where txs: "set_txs get_token_id = (calls, token)" by fastforce
  from assms obtain subscribed first second m fsa h1 s fs1 cs where
    sent: "send_all c v get_token_id out d fs [] = (Inr (subscribed, first, second, m, fsa), h1)"
    and s: "prev_slot_with_children m = Some s"
    and cmp: "fst (compare_all_slots c (slot_node out) (snapshots_dir d) subscribed (number s) fsa []) = Inr fs1"
    and sup: "check_supplies (bank_node out) token first second (inclusive_range 0 (number s)) h1 = (Inr (), h)"
    by (auto simp: do_manual_setup_def io_bind_Inr_iff txs split: option.splits)
  from cmp obtain fsb hb hl where
    "fetch_slots c (slot_node out) (snapshots_dir d) CheckAgainstSnapshot (inclusive_range subscribed (number s)) fsb hb = (Inr fs1, hl)"
    by (cases "compare_all_slots c (slot_node out) (snapshots_dir d) subscribed (number s) fsa []")
       (auto simp: compare_all_slots_def io_bind_Inr_iff)
  from fetch_slots_checked [OF this]
  have val: "\<forall>j. subscribed \<le> j \<longrightarrow> j \<le> number s \<longrightarrow> slot_validated c (slot_node out) (snapshots_dir d) fs1 hl j"
    by (auto simp: in_inclusive_range)
  have h1: "h1 = [Get (supply_url token None), Submit (calls ! 0), Get (supply_url token None), Submit (calls ! 1),
      Get (supply_url token None), Submit (calls ! 2), Get (supply_url token None)]"
    using send_all_Inr [OF sent] txs by (simp add: Let_def)
  note sup = check_supplies_Inr [OF sup]
  from sup have h: "h = h1 @ map (\<lambda>j. Get (supply_url token (Some j))) (inclusive_range 0 (number s))" ..
  have seen: "\<forall>j \<le> number s. supply_seen (bank_node out) token h j (expected_supply first second j)"
    using conjunct2 [OF sup] unfolding Ball_def in_inclusive_range by simp
  from val seen h [unfolded h1] txs show ?thesis
    by (intro exI [of _ first] exI [of _ second] exI [of _ subscribed] exI [of _ "number s"] exI [of _ fs1] exI [of _ hl])
       (simp only: Let_def prod.case simp_thms)
qed

end
