(* ===== verification/Test_Programs.thy ===== *)
theory Test_Programs
  imports Acceptance_Run Manual_Setup
begin

text \<open>
  The two programs of the acceptance test from the first to the last step: \<open>run_setup\<close>
  (\<open>scripts/acceptance-test/src/bin/setup.rs\<close>) and \<open>run_test\<close> (\<open>main.rs\<close>), composed from the parts in
  the other theories. What a run does outside is one list of effects: the docker commands and the
  operations on the process of the rollup manager. The guard of the postgres container and the handle
  of the process are values whose destructors run on every way out, an unwinding panic and an abort of
  the task included, in the reverse order of their declaration. What the rollup itself writes to the disk is not modelled.
\<close>

datatype program_effect = Docker "string list" | OnProcess process_request

datatype program_error =
    NoSavedData config_error | PostgresFailed string | PlanFailed plan_error | ProgramPanic
  | ManagerNotSpawned | RunInterrupted string | SlotsNotSubscribed | ResyncFailed fetch_error | NoResyncPlan
  | ManualSetupFailed setup_error | SoakFailed string | NoReport | BadReport | TooSlow
  | ResultLost run_error | RunAborted

section \<open>Starting the manager\<close>

text \<open>The log file is created empty before the process; \<open>spawn\<close> is the id of the new process, if the
  system can start the command.\<close>

definition spawn_rollup_manager ::
    "(command \<Rightarrow> u32 option) \<Rightarrow> path \<Rightarrow> path \<Rightarrow> directories \<Rightarrow> path option \<Rightarrow> fs \<Rightarrow> program_error + u32 \<times> fs" where
  "spawn_rollup_manager spawn manager config d log fs =
     rbind (case log of
              None \<Rightarrow> Inr fs
            | Some p \<Rightarrow>
                map_err PlanFailed
                  (rbind (case path_parent p of None \<Rightarrow> Inr fs | Some q \<Rightarrow> plan_io (create_dir_all q fs)) (\<lambda>fs.
                   plan_io (write_file p '''' fs)))) (\<lambda>fs.
     case spawn (manager_command manager config d) of None \<Rightarrow> Inl ManagerNotSpawned | Some i \<Rightarrow> Inr (i, fs))"

section \<open>The guards\<close>

text \<open>The result of a run, what is known of the process at the end if one was started, and the effects.
  \<open>None\<close>: the program is still waiting for an event.\<close>

type_synonym 'a program_end = "((program_error + 'a) \<times> child option \<times> program_effect list) option"

definition with_postgres :: "docker \<Rightarrow> string \<Rightarrow> string \<Rightarrow> 'a program_end \<Rightarrow> 'a program_end" where
  "with_postgres dk name password body =
     (case start_and_wait_for_postgres_ready dk name password [] of
        (Inl e, h) \<Rightarrow> Some (Inl (PostgresFailed e), None, map Docker h)
      | (Inr u, h) \<Rightarrow>
          map_option (\<lambda>(r, ch, es).
            (r, ch, map Docker h @ es @ map Docker (drop (length h) (snd (cleanup_postgres_container dk name h))))) body)"

fun soak_result :: "throughput_report task_end \<Rightarrow> program_error + throughput_report" where
  "soak_result (Returned (Inr rep)) = Inr rep"
| "soak_result (Returned (Inl e)) = Inl (SoakFailed e)"
| "soak_result Cancelled = Inl (SoakFailed ''cancelled'')"
| "soak_result (Crashed e) = Inl ProgramPanic"

text \<open>A run that has not ended 90 seconds after a signal is aborted (\<open>run_until_shutdown_signal\<close>): the
  task is dropped where it waits, before the soak run or inside it. What comes before the process is
  started waits for nothing.\<close>

datatype abort_point = BeforeSoak | InSoak nat

definition drop_run :: "process_state \<Rightarrow> program_error \<Rightarrow> 'a program_end" where
  "drop_run ps e = (case drop_process ps of (ch, h) \<Rightarrow> Some (Inl e, Some ch, map OnProcess h))"

text \<open>The process is owned by the program until the soak run takes it. \<open>suspended x m\<close> is the state of
  the process when the soak run is aborted.\<close>

definition with_manager ::
    "u32 \<Rightarrow> abort_point option \<Rightarrow> (program_error + 'b) option \<Rightarrow> ('b \<Rightarrow> nat \<Rightarrow> process_state) \<Rightarrow>
     ('b \<Rightarrow> (throughput_report task_end \<times> process_state) option) \<Rightarrow>
     ('b \<Rightarrow> throughput_report \<Rightarrow> program_error + 'a) \<Rightarrow> 'a program_end" where
  "with_manager i abort before suspended soak finish =
     (if abort = Some BeforeSoak then drop_run (Running i, []) RunAborted
      else case before of
        None \<Rightarrow> None
      | Some (Inl e) \<Rightarrow> drop_run (Running i, []) e
      | Some (Inr x) \<Rightarrow>
          (case abort of
             Some (InSoak m) \<Rightarrow> drop_run (suspended x m) RunAborted
           | _ \<Rightarrow> map_option (\<lambda>(r, ch, h). (rbind (soak_result r) (finish x), Some ch, map OnProcess h)) (soak x)))"

section \<open>The setup run\<close>

record outside_world =
  w_docker :: docker
  w_spawn :: "command \<Rightarrow> u32 option"
  w_process :: process_env
  w_soak_subscribed :: bool
  w_soak_events :: "soak_event list"
  w_soak_tasks :: "task_result list"
  w_abort :: "abort_point option"

record formats =
  show_versions :: "rollup_version list \<Rightarrow> string"
  parse_report :: "string \<Rightarrow> throughput_report option"
  show_report :: "throughput_report \<Rightarrow> string"

text \<open>The files after the soak run: it may have saved snapshots.\<close>

definition files_after_soak :: "codec \<Rightarrow> directories \<Rightarrow> soak_options \<Rightarrow> soak_event list \<Rightarrow> u32 \<Rightarrow> fs \<Rightarrow> fs" where
  "files_after_soak c d opt events i fs = soak_files (flow_state (soak_loop c d opt events (initial_soak fs (Running i))))"


section \<open>The test run\<close>

text \<open>The node is asked for its first slot up to 120 times, and the run goes on also when it never
  answers. \<open>resync_plan\<close> is the coordinator's \<open>for_resync\<close>.\<close>

record resync_world =
  w_answers :: "nat \<Rightarrow> bool"
  w_answer_signal :: "nat \<Rightarrow> shutdown_reason option"
  w_subscribed :: bool
  w_ledger :: ledger_node
  w_news :: "notification list"
  w_ready :: "nat \<Rightarrow> bool"
  w_ready_signal :: "nat \<Rightarrow> shutdown_reason option"
  resync_plan :: "soak_plan \<Rightarrow> u64 \<Rightarrow> soak_plan option"

definition resync_stage :: "codec \<Rightarrow> resync_world \<Rightarrow> prepared_run \<Rightarrow> u64 \<Rightarrow> fs \<Rightarrow> (program_error + u64) option" where
  "resync_stage c rw p expected fs =
     (case rbind (map_err RunInterrupted (await_sequencer 120 (w_answers rw) (w_answer_signal rw) 0)) (\<lambda>_.
           ensure (w_subscribed rw) SlotsNotSubscribed) of
        Inl e \<Rightarrow> Some (Inl e)
      | Inr u \<Rightarrow>
          (case fst (resync_loop c (w_ledger rw) (snapshots_dir (run_dirs p)) fs expected (w_news rw) 0 0 []) of
             Inl e \<Rightarrow> Some (Inl (ResyncFailed e))
           | Inr None \<Rightarrow> None
           | Inr (Some (k, latest)) \<Rightarrow>
               Some (rbind (map_err RunInterrupted (wait_for_sequencer_ready (w_ready rw) (w_ready_signal rw))) (\<lambda>_.
                 case resync_plan rw (soak_config (run_plan_of p)) (blocks_per_version (run_settings_of p)) of
                   None \<Rightarrow> Inl NoResyncPlan
                 | Some sp \<Rightarrow> Inr latest))))"

text \<open>\<open>slower new previous\<close> compares the quotients in floating point: less than nine tenths.\<close>

definition check_throughput ::
    "formats \<Rightarrow> (throughput_report \<Rightarrow> throughput_report \<Rightarrow> bool) \<Rightarrow> path \<Rightarrow> throughput_report \<Rightarrow> fs \<Rightarrow> program_error + unit" where
  "check_throughput fm slower path rep fs =
     (case read_to_string path fs of
        Inl e \<Rightarrow> Inl NoReport
      | Inr s \<Rightarrow> (case parse_report fm s of None \<Rightarrow> Inl BadReport | Some previous \<Rightarrow> ensure (\<not> slower rep previous) TooSlow))"

definition test_report_path :: "directories \<Rightarrow> string \<Rightarrow> path" where
  "test_report_path d now_text = throughput_dir d @ [''test_throughput_'' @ now_text @ ''.json'']"

definition finish_test_run ::
    "formats \<Rightarrow> (throughput_report \<Rightarrow> throughput_report \<Rightarrow> bool) \<Rightarrow> bool \<Rightarrow> string \<Rightarrow> prepared_run \<Rightarrow> throughput_report \<Rightarrow> fs \<Rightarrow>
     program_error + fs" where
  "finish_test_run fm slower throughput_check now_text p rep fs =
     rbind (if throughput_check then check_throughput fm slower (setup_throughput_path (run_dirs p)) rep fs else Inr ()) (\<lambda>_.
     rbind (map_err (ResultLost \<circ> LostResult \<circ> Io) (write_file (test_report_path (run_dirs p) now_text) (show_report fm rep) fs)) (\<lambda>fs.
     map_err (ResultLost \<circ> LostResult) (cleanup_after_success p fs)))"

definition run_test ::
    "crates \<Rightarrow> evm_crates \<Rightarrow> file_codec \<Rightarrow> codec \<Rightarrow> formats \<Rightarrow> (throughput_report \<Rightarrow> throughput_report \<Rightarrow> bool) \<Rightarrow>
     outside_world \<Rightarrow> resync_world \<Rightarrow> prepared_run \<Rightarrow> string \<Rightarrow> bool \<Rightarrow> string \<Rightarrow> fs \<Rightarrow> fs program_end" where
  "run_test cr ec fc c fm slower w rw p password throughput_check now_text fs =
     (let d = run_dirs p; plan = run_plan_of p; config = output_dir d @ [''acceptance_manager_config.json'']
      in case copy_persistent_mock_data d fs of
           Inl e \<Rightarrow> Some (Inl (NoSavedData e), None, [])
         | Inr fs \<Rightarrow>
             with_postgres (w_docker w) (postgres_docker_container_name (run_settings_of p)) password
              (case expected_setup_batches (manager_versions plan) of
                 None \<Rightarrow> Some (Inl ProgramPanic, None, [])
               | Some expected \<Rightarrow>
                   (case rbind (map_err PlanFailed
                            (extend_last_stop_height (manager_versions plan) (blocks_per_version (run_settings_of p)))) (\<lambda>vs.
                         rbind (map_err PlanFailed (write_manager_config (show_versions fm) config vs fs)) (\<lambda>fs.
                         spawn_rollup_manager (w_spawn w) (manager_binary plan) config d None fs)) of
                      Inl e \<Rightarrow> Some (Inl e, None, [])
                    | Inr (i, fs) \<Rightarrow>
                        with_manager i (w_abort w)
                          (case resync_stage c rw p expected fs of
                             None \<Rightarrow> None
                           | Some (Inl e) \<Rightarrow> Some (Inl e)
                           | Some (Inr latest) \<Rightarrow> Some (map_err PlanFailed (test_soak_options p latest)))
                          (\<lambda>opt. suspended_soak cr ec fc c d opt fs (w_process w) (Running i) (w_soak_subscribed w) (w_soak_events w)
                             (w_soak_tasks w))
                          (\<lambda>opt. run_soak cr ec fc c d opt fs (w_process w) (Running i) (w_soak_subscribed w) (w_soak_events w)
                             (w_soak_tasks w))
                          (\<lambda>opt rep. finish_test_run fm slower throughput_check now_text p rep
                             (files_after_soak c d opt (w_soak_events w) i fs)))))"

section \<open>What is cleaned up\<close>

definition remove_container :: "string \<Rightarrow> program_effect" where
  "remove_container name = Docker [''rm'', ''-f'', name]"


text \<open>The process that a body has started is known to have exited, or it was killed at last.\<close>

fun process_gone :: "child option \<Rightarrow> program_effect list \<Rightarrow> bool" where
  "process_gone None es \<longleftrightarrow> es = []"
| "process_gone (Some (Done b)) es \<longleftrightarrow> True"
| "process_gone (Some (Running i)) es \<longleftrightarrow> (\<exists>a. es = a @ [OnProcess (Sigkill i)])"

definition clean_body :: "'a program_end \<Rightarrow> bool" where
  "clean_body e \<longleftrightarrow>
     (\<forall>r ch es. e = Some (r, ch, es) \<longrightarrow> process_gone ch es \<and> ((\<exists>x. r = Inr x) \<longrightarrow> ch = Some (Done True)))"

lemma clean_bodyI [intro]:
  "(\<And>r ch es. e = Some (r, ch, es) \<Longrightarrow> process_gone ch es \<and> ((\<exists>x. r = Inr x) \<longrightarrow> ch = Some (Done True))) \<Longrightarrow> clean_body e"
  by (simp add: clean_body_def)

lemma clean_early [simp]: "clean_body (Some (Inl e, None, []))"
  by (simp add: clean_body_def)

lemma soak_result_Inr: "soak_result r = Inr rep \<longleftrightarrow> r = Returned (Inr rep)"
  by (cases r rule: soak_result.cases) simp_all














section \<open>What a successful test run has seen\<close>

lemma with_postgres_Inr:
  "with_postgres dk name password body = Some (Inr x, ch, es) \<Longrightarrow> \<exists>es'. body = Some (Inr x, ch, es')"
  by (auto simp: with_postgres_def split: prod.splits sum.splits)

lemma with_manager_Inr:
  assumes "with_manager i abort before suspended soak finish = Some (Inr y, ch, es)"
  obtains x rep c h where "before = Some (Inr x)" "soak x = Some (Returned (Inr rep), c, h)" "finish x rep = Inr y"
  using assms
  by (auto simp: with_manager_def soak_result_Inr drop_run_def split: option.splits sum.splits if_splits abort_point.splits prod.splits)

lemma resync_stage_Inr:
  assumes "resync_stage c rw p expected fs = Some (Inr latest)"
  obtains k h where "resync_loop c (w_ledger rw) (snapshots_dir (run_dirs p)) fs expected (w_news rw) 0 0 [] = (Inr (Some (k, latest)), h)"
proof -
  obtain q h where q: "resync_loop c (w_ledger rw) (snapshots_dir (run_dirs p)) fs expected (w_news rw) 0 0 [] = (q, h)" by fastforce
  with assms obtain k where "q = Inr (Some (k, latest))"
    by (auto simp: resync_stage_def split: sum.splits option.splits)
  with q that show ?thesis by blast
qed

text \<open>The saved database was restored, the node has answered with the snapshot of every slot from 10 up
  to the first one without a snapshot and with all batches of the setup run, the soak run from there
  on has ended with a report, and with the check enabled the report of the setup run is not much
  better. The report is on disk unless the state directory that is cleaned up contains it.\<close>

lemma run_test_success:
  assumes "run_test cr ec fc c fm slower w rw p password throughput_check now_text fs = Some (Inr fs', ch, es)"
  shows "\<exists>fs1 fs2 fs3 i expected k latest h opt rep q.
    copy_persistent_mock_data (run_dirs p) fs = Inr fs1 \<and>
    expected_setup_batches (manager_versions (run_plan_of p)) = Some expected \<and> expected \<le> latest \<and> 10 \<le> k \<and>
    (\<forall>j. 10 \<le> j \<longrightarrow> j < k \<longrightarrow> confirmed c (w_ledger rw) (snapshots_dir (run_dirs p)) fs2 h j) \<and>
    test_soak_options p latest = Inr opt \<and>
    run_soak cr ec fc c (run_dirs p) opt fs2 (w_process w) (Running i) (w_soak_subscribed w) (w_soak_events w)
      (w_soak_tasks w) = Some (Returned (Inr rep), Done True, q) \<and>
    (throughput_check \<longrightarrow> check_throughput fm slower (setup_throughput_path (run_dirs p)) rep fs3 = Inr ()) \<and>
    finish_test_run fm slower throughput_check now_text p rep fs3 = Inr fs'"
proof -
  let ?d = "run_dirs p"
  from assms obtain fs1 where fs1: "copy_persistent_mock_data ?d fs = Inr fs1"
    by (cases "copy_persistent_mock_data ?d fs") (simp_all add: run_test_def)
  note body = with_postgres_Inr [OF assms [unfolded run_test_def Let_def fs1 sum.case]]
  from body obtain expected where expected: "expected_setup_batches (manager_versions (run_plan_of p)) = Some expected"
    by (auto split: option.splits)
  from body [unfolded expected option.case] obtain i fs2 es' where
    man: "with_manager i (w_abort w)
       (case resync_stage c rw p expected fs2 of None \<Rightarrow> None | Some (Inl e) \<Rightarrow> Some (Inl e)
        | Some (Inr latest) \<Rightarrow> Some (map_err PlanFailed (test_soak_options p latest)))
       (\<lambda>opt. suspended_soak cr ec fc c ?d opt fs2 (w_process w) (Running i) (w_soak_subscribed w) (w_soak_events w) (w_soak_tasks w))
       (\<lambda>opt. run_soak cr ec fc c ?d opt fs2 (w_process w) (Running i) (w_soak_subscribed w) (w_soak_events w) (w_soak_tasks w))
       (\<lambda>opt rep. finish_test_run fm slower throughput_check now_text p rep (files_after_soak c ?d opt (w_soak_events w) i fs2)) =
         Some (Inr fs', ch, es')"
    by (auto split: sum.splits prod.splits)
  obtain opt rep cc q where
    b: "(case resync_stage c rw p expected fs2 of None \<Rightarrow> None | Some (Inl e) \<Rightarrow> Some (Inl e)
        | Some (Inr latest) \<Rightarrow> Some (map_err PlanFailed (test_soak_options p latest))) = Some (Inr opt)"
    and soak: "run_soak cr ec fc c ?d opt fs2 (w_process w) (Running i) (w_soak_subscribed w) (w_soak_events w)
      (w_soak_tasks w) = Some (Returned (Inr rep), cc, q)"
    and fin: "finish_test_run fm slower throughput_check now_text p rep (files_after_soak c ?d opt (w_soak_events w) i fs2) = Inr fs'"
    by (rule with_manager_Inr [OF man])
  from b obtain latest where latest: "resync_stage c rw p expected fs2 = Some (Inr latest)" "test_soak_options p latest = Inr opt"
    by (auto split: option.splits sum.splits)
  obtain k h where loop: "resync_loop c (w_ledger rw) (snapshots_dir ?d) fs2 expected (w_news rw) 0 0 [] = (Inr (Some (k, latest)), h)"
    by (rule resync_stage_Inr [OF latest(1)])
  have done_ok: "cc = Done True" using rollup_process_stopped [OF soak] by blast
  have tp: "throughput_check \<longrightarrow> check_throughput fm slower (setup_throughput_path ?d) rep
      (files_after_soak c ?d opt (w_soak_events w) i fs2) = Inr ()"
    using fin by (auto simp: finish_test_run_def)
  have seen: "expected \<le> latest" "10 \<le> k"
    "\<forall>j. 10 \<le> j \<longrightarrow> j < k \<longrightarrow> confirmed c (w_ledger rw) (snapshots_dir ?d) fs2 h j"
    using resync_loop_checked [OF loop] by auto
  show ?thesis
    by (rule exI [of _ fs1], rule exI [of _ fs2], rule exI [of _ "files_after_soak c ?d opt (w_soak_events w) i fs2"],
        rule exI [of _ i], rule exI [of _ expected], rule exI [of _ k], rule exI [of _ latest], rule exI [of _ h],
        rule exI [of _ opt], rule exI [of _ rep], rule exI [of _ q])
      (intro conjI fs1 expected seen latest(2) soak [unfolded done_ok] tp fin)
qed

text \<open>The guard of the container exists only once the database is ready: if a readiness check cannot be
  run, the container that was started stays.\<close>

lemma container_left_behind:
  "start_and_wait_for_postgres_ready (\<lambda>h. if length h < 3 then Some (True, '''') else None) ''pg'' ''pw'' [] =
     (Inl ''failed to run docker'', [[''rm'', ''-f'', ''pg''], run_container ''pg'' ''pw'', is_ready_command ''pg''])"
  by code_simp

section \<open>An interrupted run\<close>

definition demo_prepared_run :: prepared_run where
  "demo_prepared_run =
     \<lparr>run_dirs = demo_dirs,
      run_plan_of = \<lparr>manager_binary = [''manager''],
        manager_versions = [\<lparr>rollup_binary = [''rollup''], version_config = [''c''], migration_path = None,
          start_height = None, stop_height = Some 30\<rparr>],
        soak_config = \<lparr>num_workers = 20, salt = 3, soak_versions = [], safety_stop_blocks = 5\<rparr>\<rparr>,
      run_settings_of = demo_settings\<lparr>postgres_docker_container_name := ''pg''\<rparr>\<rparr>"

definition demo_world :: outside_world where
  "demo_world =
     \<lparr>w_docker = (\<lambda>h. Some (True, '''')), w_spawn = (\<lambda>cmd. Some 7), w_process = (\<lambda>h. StillRunning),
      w_soak_subscribed = True, w_soak_events = [], w_soak_tasks = [], w_abort = None\<rparr>"

text \<open>The node does not answer, and a signal arrives during the first pause.\<close>

definition demo_resync_world :: resync_world where
  "demo_resync_world =
     \<lparr>w_answers = (\<lambda>i. False), w_answer_signal = (\<lambda>i. Some SigInt), w_subscribed = True, w_ledger = demo_node, w_news = [],
      w_ready = (\<lambda>i. True), w_ready_signal = (\<lambda>i. None), resync_plan = (\<lambda>s b. Some s)\<rparr>"

definition demo_formats :: formats where
  "demo_formats = \<lparr>show_versions = (\<lambda>vs. ''versions''), parse_report = (\<lambda>s. None), show_report = (\<lambda>r. ''report'')\<rparr>"

definition demo_run :: "outside_world \<Rightarrow> fs program_end" where
  "demo_run w =
     run_test sample_crates demo_evm demo_file_codec demo_codec demo_formats (\<lambda>a b. False) w demo_resync_world
       demo_prepared_run ''pw'' True ''now''
       (demo_output [(''persistent_mock_da.sqlite'', ''base''), (''persistent_mock_da.sqlite-wal'', ''log''),
         (''mock_da.sqlite'', ''grown'')])"

lemma demo_interrupted_eq:
  "demo_run demo_world =
     Some (Inl (RunInterrupted (shutdown_error SigInt)), Some (Running 7),
       [remove_container ''pg'', Docker (run_container ''pg'' ''pw''), Docker (is_ready_command ''pg''),
        OnProcess (Sigkill 7), remove_container ''pg''])"
  by code_simp


lemma demo_up_to_wait:
  "up_to_wait (take 3 [Sigterm 7, Wait 30, Sigkill 7, Wait 2]) = [Sigterm 7, Wait 30]"
  by code_simp



end
