(* ===== verification/Rollup_Node.thy ===== *)
theory Rollup_Node
  imports Rollup Host_Files
begin

text \<open>
  The node of the rollup around the runtime (\<open>crates/rollup\<close>): which builds the compile-time checks
  let through, the start of the full node and of the mock DA server, the choice of the program that
  is proved, the endpoint for EIP-712 transactions, and the operations of the \<open>Runtime\<close> trait that
  are not mere forwarding (\<open>crates/stf/src/runtime.rs\<close>). The SDK's services are parameters. A
  \<open>panic\<close>, an \<open>unwrap\<close> or \<open>expect\<close> of an error ends the program with its message.
\<close>

section \<open>Builds\<close>

record features =
  mock_da :: bool
  mock_da_external :: bool
  celestia_da :: bool
  risc0 :: bool
  sp1 :: bool
  mock_zkvm :: bool

definition compile_errors :: "features \<Rightarrow> bool list" where
  "compile_errors f =
     [mock_da f \<and> mock_da_external f \<and> celestia_da f,
      mock_da f \<and> celestia_da f,
      mock_da f \<and> mock_da_external f,
      mock_da_external f \<and> celestia_da f,
      \<not> mock_da f \<and> \<not> celestia_da f \<and> \<not> mock_da_external f]"

definition zkvm_count :: "features \<Rightarrow> byte" where
  "zkvm_count f = of_bool (risc0 f) + of_bool (sp1 f) + of_bool (mock_zkvm f)"

definition builds :: "features \<Rightarrow> bool" where
  "builds f \<longleftrightarrow> (\<forall>e \<in> set (compile_errors f). \<not> e) \<and> zkvm_count f = 1"

datatype da_layer = MockDa | MockDaExternal | CelestiaDa
datatype zkvm = Risc0 | Sp1 | MockZkvm

fun da_enabled :: "features \<Rightarrow> da_layer \<Rightarrow> bool" where
  "da_enabled f MockDa = mock_da f"
| "da_enabled f MockDaExternal = mock_da_external f"
| "da_enabled f CelestiaDa = celestia_da f"

fun zkvm_enabled :: "features \<Rightarrow> zkvm \<Rightarrow> bool" where
  "zkvm_enabled f Risc0 = risc0 f"
| "zkvm_enabled f Sp1 = sp1 f"
| "zkvm_enabled f MockZkvm = mock_zkvm f"

text \<open>In a build every conditional item exists once: these are the constants of the enabled feature.\<close>

fun ROLLUP_CONFIG_PATH :: "da_layer \<Rightarrow> pathbuf" where
  "ROLLUP_CONFIG_PATH MockDa = Relative [''configs'', ''mock'', ''rollup.toml'']"
| "ROLLUP_CONFIG_PATH MockDaExternal = Relative [''configs'', ''mock'', ''rollup_external_mock_da.toml'']"
| "ROLLUP_CONFIG_PATH CelestiaDa = Relative [''configs'', ''celestia'', ''rollup.toml'']"

fun GENESIS_PATH :: "da_layer \<Rightarrow> pathbuf" where
  "GENESIS_PATH MockDa = Relative [''configs'', ''mock'', ''genesis.json'']"
| "GENESIS_PATH MockDaExternal = Relative [''configs'', ''mock'', ''genesis.json'']"
| "GENESIS_PATH CelestiaDa = Relative [''configs'', ''celestia'', ''genesis.json'']"

section \<open>The program that is proved\<close>

text \<open>\<open>SKIP_GUEST_BUILD\<close> is an argument, \<open>None\<close> if it is not set.\<close>

fun should_skip_guest_build :: "zkvm \<Rightarrow> string option \<Rightarrow> bool" where
  "should_skip_guest_build Risc0 v \<longleftrightarrow> v \<in> {Some ''1'', Some ''true'', Some ''risc0''}"
| "should_skip_guest_build Sp1 v \<longleftrightarrow> v \<in> {Some ''1'', Some ''true'', Some ''sp1''}"
| "should_skip_guest_build MockZkvm v \<longleftrightarrow> False"

text \<open>The guests are built by the crates of the provers: the paths of the RISC Zero programs, and the
  SP1 programs embedded in the binary.\<close>

record guests =
  risc0_rollup_path :: path
  risc0_mock_da_path :: path
  sp1_celestia_elf :: string
  sp1_mock_elf :: string

datatype node_error =
    NoDaFeature | NoGuestFile fs_error | NoPrometheus | NoConfig fs_error | BadConfig | NoConfigDir
  | NotStarted | NotRun | NoExtension

definition elf_at :: "path \<Rightarrow> fs \<Rightarrow> node_error + string" where
  "elf_at p fs = map_err NoGuestFile (read_to_string p fs)"

fun rollup_host_args :: "guests \<Rightarrow> zkvm \<Rightarrow> da_layer \<Rightarrow> string option \<Rightarrow> fs \<Rightarrow> node_error + string" where
  "rollup_host_args g Risc0 da v fs =
     (if should_skip_guest_build Risc0 v then Inr ''''
      else (case da of
              CelestiaDa \<Rightarrow> elf_at (risc0_rollup_path g) fs
            | MockDa \<Rightarrow> elf_at (risc0_mock_da_path g) fs
            | MockDaExternal \<Rightarrow> Inl NoDaFeature))"
| "rollup_host_args g Sp1 da v fs =
     (if should_skip_guest_build Sp1 v then Inr ''''
      else (case da of
              CelestiaDa \<Rightarrow> Inr (sp1_celestia_elf g)
            | MockDa \<Rightarrow> Inr (sp1_mock_elf g)
            | MockDaExternal \<Rightarrow> Inl NoDaFeature))"
| "rollup_host_args g MockZkvm da v fs = Inr ''''"

section \<open>The start of the node\<close>

record node_args =
  rollup_config_path :: pathbuf
  genesis_path :: pathbuf
  metrics :: u64
  start_at_rollup_height :: "u64 option"
  stop_at_rollup_height :: "u64 option"

definition default_node_args :: "da_layer \<Rightarrow> node_args" where
  "default_node_args da =
     \<lparr>rollup_config_path = ROLLUP_CONFIG_PATH da, genesis_path = GENESIS_PATH da, metrics = 9845,
      start_at_rollup_height = None, stop_at_rollup_height = None\<rparr>"

text \<open>The mode of the prover is read from \<open>SOV_PROVER_MODE\<close> when the node is built; the code ignores it.\<close>

datatype prover_mode = Skip | Simulate | Execute | Prove

definition parse_prover_config :: "string option \<Rightarrow> prover_mode option" where
  "parse_prover_config v = (case v of Some value \<Rightarrow> None | None \<Rightarrow> None)"

text \<open>What is handed to the SDK's \<open>create_new_rollup\<close>; \<open>'c\<close> is the SDK's configuration.\<close>

record 'c rollup_request =
  req_genesis_path :: pathbuf
  req_config :: 'c
  req_prover :: "(prover_mode \<times> string) option"
  req_start :: "u64 option"
  req_stop :: "u64 option"
  req_pinned_cache :: pathbuf

fun pathbuf_parent :: "pathbuf \<Rightarrow> pathbuf option" where
  "pathbuf_parent (Absolute p) = map_option Absolute (path_parent p)"
| "pathbuf_parent (Relative p) = map_option Relative (path_parent p)"

fun located :: "path \<Rightarrow> pathbuf \<Rightarrow> path" where
  "located cwd (Absolute p) = p"
| "located cwd (Relative p) = cwd @ p"

definition from_toml_path :: "(string \<Rightarrow> 'c option) \<Rightarrow> path \<Rightarrow> pathbuf \<Rightarrow> fs \<Rightarrow> node_error + 'c" where
  "from_toml_path parse cwd p fs =
     rbind (map_err NoConfig (read_to_string (located cwd p) fs)) (\<lambda>s.
     case parse s of None \<Rightarrow> Inl BadConfig | Some c \<Rightarrow> Inr c)"

definition new_rollup ::
    "(string \<Rightarrow> 'c option) \<Rightarrow> path \<Rightarrow> fs \<Rightarrow> pathbuf \<Rightarrow> pathbuf \<Rightarrow> (prover_mode \<times> string) option \<Rightarrow>
     u64 option \<Rightarrow> u64 option \<Rightarrow> node_error + 'c rollup_request" where
  "new_rollup parse cwd fs genesis cfg prover start stop =
     rbind (from_toml_path parse cwd cfg fs) (\<lambda>c.
     case pathbuf_parent cfg of
       None \<Rightarrow> Inl NoConfigDir
     | Some d \<Rightarrow>
         Inr \<lparr>req_genesis_path = genesis, req_config = c, req_prover = prover, req_start = start,
              req_stop = stop, req_pinned_cache = path_join d (Relative [''evm_pinned_cache.json''])\<rparr>)"

text \<open>The address of the Prometheus server is parsed from text, so the port has to be one; the server
  itself may fail. The SDK's creation and run of the node are parameters.\<close>

record 'c sdk_node =
  parse_config :: "string \<Rightarrow> 'c option"
  prometheus_starts :: "u16 \<Rightarrow> bool"
  create_ok :: "'c rollup_request \<Rightarrow> bool"
  run_ok :: "'c rollup_request \<Rightarrow> bool"

definition node_main ::
    "'c sdk_node \<Rightarrow> guests \<Rightarrow> zkvm \<Rightarrow> da_layer \<Rightarrow> string option \<Rightarrow> string option \<Rightarrow> node_args \<Rightarrow> path \<Rightarrow> fs \<Rightarrow>
     node_error + 'c rollup_request" where
  "node_main sdk g z da prover_mode skip a cwd fs =
     rbind (ensure (metrics a < 65536 \<and> prometheus_starts sdk (ucast (metrics a))) NoPrometheus) (\<lambda>_.
     rbind (case parse_prover_config prover_mode of
              None \<Rightarrow> Inr None
            | Some mode \<Rightarrow> rbind (rollup_host_args g z da skip fs) (\<lambda>elf. Inr (Some (mode, elf)))) (\<lambda>prover.
     rbind (new_rollup (parse_config sdk) cwd fs (genesis_path a) (rollup_config_path a) prover
       (start_at_rollup_height a) (stop_at_rollup_height a)) (\<lambda>r.
     rbind (ensure (create_ok sdk r) NotStarted) (\<lambda>_.
     rbind (ensure (run_ok sdk r) NotRun) (\<lambda>_. Inr r)))))"

section \<open>Endpoints\<close>

record sequencer_config =
  extension :: "(u64 \<times> u64) option"
  seq_rollup_address :: bytes

record eth_rpc_config =
  max_log_limit :: u64
  response_size_limit :: u64
  rpc_rollup_address :: bytes
  rpc_da_address :: bytes

definition eth_rpc_config_of :: "sequencer_config \<Rightarrow> bytes \<Rightarrow> node_error + eth_rpc_config" where
  "eth_rpc_config_of c da_address =
     (case extension c of
        None \<Rightarrow> Inl NoExtension
      | Some (log_limit, size_limit) \<Rightarrow>
          Inr \<lparr>max_log_limit = log_limit, response_size_limit = size_limit,
               rpc_rollup_address = seq_rollup_address c, rpc_da_address = da_address\<rparr>)"

text \<open>The SDK's sequencer: the text of an envelope (\<open>borsh\<close>), and the answer to a submitted envelope
  from an address: an error response, or the transaction's hash and confirmation.\<close>

record ('h, 'k, 'e) sequencer =
  encode_input :: "(bytes, bytes) auth_input \<Rightarrow> bytes"
  accept_tx :: "bytes \<Rightarrow> string \<Rightarrow> 'e + ('h \<times> 'k)"

datatype tx_status = Submitted

definition accept_eip712_tx ::
    "('h, 'k, 'e) sequencer \<Rightarrow> string \<Rightarrow> bytes \<Rightarrow> 'e + ('h \<times> 'k \<times> tx_status)" where
  "accept_eip712_tx sq ip blob =
     rbind (accept_tx sq (encode_input sq (add_eip712_auth blob)) ip) (\<lambda>(h, k). Inr (h, k, Submitted))"

section \<open>Operations of the runtime\<close>

definition genesis_config :: "(string \<Rightarrow> 'g option) \<Rightarrow> path \<Rightarrow> fs \<Rightarrow> node_error + 'g" where
  "genesis_config parse p fs =
     rbind (map_err NoConfig (read_to_string p fs)) (\<lambda>s.
     case parse s of None \<Rightarrow> Inl BadConfig | Some g \<Rightarrow> Inr g)"

text \<open>Loading a bucket into the cache may fail, which is only logged; \<open>None\<close> when the EVM has no
  configuration of the cache.\<close>

definition populate_pinned_cache ::
    "('b \<times> u64) list option \<Rightarrow> ('b \<Rightarrow> u64 \<Rightarrow> 'p \<Rightarrow> 'e + 'p) \<Rightarrow> 'p \<Rightarrow> 'p option" where
  "populate_pinned_cache buckets try_load cache0 =
     map_option (\<lambda>bs. fold (\<lambda>(b, limit) cache. case try_load b limit cache of Inl e \<Rightarrow> cache | Inr cache' \<Rightarrow> cache') bs cache0)
       buckets"

section \<open>The mock DA server\<close>

record mock_da_args =
  da_host :: string
  da_port :: u16
  da_db :: string
  da_block_time_ms :: u64

record mock_da_config =
  connection_string :: string
  sender_address :: bytes32
  finalization_blocks :: u32
  block_time_ms :: u64

definition default_mock_da_args :: mock_da_args where
  "default_mock_da_args =
     \<lparr>da_host = ''127.0.0.1'', da_port = 50051, da_db = ''sqlite::memory:'', da_block_time_ms = 6000\<rparr>"

definition mock_da_server_config :: "mock_da_args \<Rightarrow> mock_da_config" where
  "mock_da_server_config a =
     \<lparr>connection_string = da_db a, sender_address = 0, finalization_blocks = 0, block_time_ms = da_block_time_ms a\<rparr>"

section \<open>Which builds there are\<close>

lemma all_da_layer [simp]: "(\<forall>d. P d) \<longleftrightarrow> P MockDa \<and> P MockDaExternal \<and> P CelestiaDa"
  by (metis da_layer.exhaust)

lemma ex_da_layer [simp]: "(\<exists>d. P d) \<longleftrightarrow> P MockDa \<or> P MockDaExternal \<or> P CelestiaDa"
  by (metis da_layer.exhaust)

lemma all_zkvm [simp]: "(\<forall>z. P z) \<longleftrightarrow> P Risc0 \<and> P Sp1 \<and> P MockZkvm"
  by (metis zkvm.exhaust)

lemma ex_zkvm [simp]: "(\<exists>z. P z) \<longleftrightarrow> P Risc0 \<or> P Sp1 \<or> P MockZkvm"
  by (metis zkvm.exhaust)

text \<open>The checks let through exactly the builds with one data availability layer and one zkVM.\<close>

lemma builds_iff: "builds f \<longleftrightarrow> (\<exists>!d. da_enabled f d) \<and> (\<exists>!z. zkvm_enabled f z)"
  unfolding builds_def compile_errors_def zkvm_count_def Ex1_def
  by (cases "mock_da f"; cases "mock_da_external f"; cases "celestia_da f"; cases "risc0 f"; cases "sp1 f"; cases "mock_zkvm f")
    auto

text \<open>The build with an external mock DA server has no program to prove: with a real zkVM, asking for
  it is a panic.\<close>

lemma external_mock_da_has_no_guest:
  "\<not> should_skip_guest_build z v \<Longrightarrow> z \<noteq> MockZkvm \<Longrightarrow> rollup_host_args g z MockDaExternal v fs = Inl NoDaFeature"
  by (cases z) simp_all

section \<open>Starting\<close>

lemma no_prover [simp]: "parse_prover_config v = None"
  by (simp add: parse_prover_config_def split: option.split)

lemma from_toml_Inr:
  "from_toml_path parse cwd p fs = Inr c \<longleftrightarrow>
     (\<exists>text. node_at (located cwd p) fs = Some (File text) \<and> parse text = Some c)"
  by (auto simp: from_toml_path_def read_to_string_def split: option.splits node.splits)

lemma new_rollup_Inr:
  "new_rollup parse cwd fs genesis cfg prover start stop = Inr r \<longleftrightarrow>
     (\<exists>text c d. node_at (located cwd cfg) fs = Some (File text) \<and> parse text = Some c \<and> pathbuf_parent cfg = Some d \<and>
        r = \<lparr>req_genesis_path = genesis, req_config = c, req_prover = prover, req_start = start, req_stop = stop,
             req_pinned_cache = path_join d (Relative [''evm_pinned_cache.json''])\<rparr>)"
  by (auto simp: new_rollup_def from_toml_Inr split: option.splits)

text \<open>The node starts exactly if its metrics port is one and Prometheus comes up on it, its
  configuration is a file the SDK can parse, and the SDK creates and runs it; then it creates the rollup with that configuration, the
  genesis file and heights it was given, the pinned cache configuration beside the configuration
  file, and without a prover, whatever the prover mode and the guest build are: it never reads a
  guest program.\<close>

lemma node_start_spec:
  "node_main sdk g z da mode skip a cwd fs = Inr r \<longleftrightarrow>
    metrics a < 65536 \<and> prometheus_starts sdk (ucast (metrics a)) \<and>
    (\<exists>text c d. node_at (located cwd (rollup_config_path a)) fs = Some (File text) \<and>
       parse_config sdk text = Some c \<and> pathbuf_parent (rollup_config_path a) = Some d \<and>
       r = \<lparr>req_genesis_path = genesis_path a, req_config = c, req_prover = None,
            req_start = start_at_rollup_height a, req_stop = stop_at_rollup_height a,
            req_pinned_cache = path_join d (Relative [''evm_pinned_cache.json''])\<rparr>) \<and> create_ok sdk r \<and> run_ok sdk r"
  by (auto simp: node_main_def new_rollup_Inr)

section \<open>The EIP-712 endpoint\<close>

text \<open>If decoding inverts the encoding of envelopes, what the endpoint submits is authenticated by
  the EIP-712 authenticator on the posted transaction and by no other, its hash is the hash of that
  transaction, the path for unregistered sequencers refuses it, and its wrapped call is the call the
  authenticator returns.\<close>

lemma eip712_endpoint_authenticates:
  assumes "accept_eip712_tx sq ip blob = Inr (h, k, s)" "\<And>x. decode_input au (encode_input sq x) = Some x"
  shows "\<exists>tx. accept_tx sq tx ip = Inr (h, k) \<and>
    (rbind (authenticate au tx st) (\<lambda>(h, a, c). Inr (h, a, wrap_call c))) = eip712_authenticate au blob st \<and>
    compute_tx_hash au tx = Some (calculate_hash au blob) \<and>
    authenticate_unregistered au tx st = Inl InvalidAuthenticationDiscriminant"
proof -
  let ?tx = "encode_input sq (add_eip712_auth blob)"
  have "accept_tx sq ?tx ip = Inr (h, k)"
    using assms(1) by (cases "accept_tx sq ?tx ip") (auto simp: accept_eip712_tx_def)
  moreover have d: "decode_input au ?tx = Some (Eip712Input blob)"
    using assms(2) by (simp add: add_eip712_auth_def)
  moreover have "rbind (authenticate au ?tx st) (\<lambda>(h, a, c). Inr (h, a, wrap_call c)) = eip712_authenticate au blob st"
    by (cases "eip712_authenticate au blob st") (auto simp: authenticate_def d)
  ultimately show ?thesis
    by (auto simp: compute_tx_hash_def authenticate_unregistered_def)
qed

section \<open>The soak test\<close>

text \<open>\<open>scripts/soak-test\<close>: every worker gets an id from its index and the salt, added as 32-bit numbers,
  and the number of workers; a worker's failure ends the process with status 1.\<close>

record soak_args =
  api_url :: string
  soak_workers :: u32
  soak_salt :: u32

definition default_soak_args :: soak_args where
  "default_soak_args = \<lparr>api_url = ''http://localhost:12346'', soak_workers = 5, soak_salt = 0\<rparr>"

definition worker_ids :: "soak_args \<Rightarrow> (u128 \<times> u32) list" where
  "worker_ids a = map (\<lambda>i. (ucast (of_nat i + soak_salt a), soak_workers a)) [0..<unat (soak_workers a)]"

definition worker_task :: "string + unit \<Rightarrow> int + unit" where
  "worker_task result = (case result of Inl e \<Rightarrow> Inl 1 | Inr u \<Rightarrow> Inr ())"

text \<open>The workers of one run have different ids, also when adding the salt wraps around.\<close>

lemma of_nat_inj_word:
  assumes "i < 2 ^ LENGTH(32)" "j < 2 ^ LENGTH(32)"
  shows "(of_nat i :: u32) = of_nat j \<longleftrightarrow> i = j"
  using unat_of_nat_small [OF assms(1)] unat_of_nat_small [OF assms(2)] by metis

lemma ucast_up_inj: "(ucast (x :: u32) :: u128) = ucast y \<longleftrightarrow> x = y"
  by transfer simp

lemma worker_ids_distinct: "distinct (map fst (worker_ids a))"
proof -
  have "unat (soak_workers a) < 2 ^ LENGTH(32)" by (rule unsigned_less)
  then have small: "i < 2 ^ LENGTH(32)" if "i < unat (soak_workers a)" for i
    using that by (rule less_trans [rotated])
  have "(ucast (of_nat i + soak_salt a) :: u128) = ucast (of_nat j + soak_salt a) \<longleftrightarrow> i = j"
    if "i < unat (soak_workers a)" "j < unat (soak_workers a)" for i j
    using of_nat_inj_word [OF small [OF that(1)] small [OF that(2)]] by (simp add: ucast_up_inj)
  then show ?thesis
    by (auto simp: worker_ids_def distinct_map inj_on_def)
qed

text \<open>Two runs share ids when their salts are closer than their workers: to avoid overlaps, as the
  description of the option says, the salt has to be moved by at least the number of workers.\<close>

lemma close_salts_overlap:
  "set (worker_ids \<lparr>api_url = [], soak_workers = 5, soak_salt = 0\<rparr>) \<inter>
     set (worker_ids \<lparr>api_url = [], soak_workers = 5, soak_salt = 1\<rparr>) \<noteq> {}"
  by code_simp

end
