(* ===== verification/Rollup_Height.thy ===== *)
theory Rollup_Height
  imports Http_Client
begin

text \<open>
  The utility that prints the height of a rollup (\<open>scripts/soak-test/src/bin/rollup-height.rs\<close>): at every
  tick of a timer it asks the node, and prints the height on the standard output or the failure on the
  standard error. It runs until it is killed, so the model counts the ticks.
\<close>

record height_args =
  node_url :: string
  interval_ms :: u64

definition default_height_args :: height_args where
  "default_height_args = \<lparr>node_url = ''http://localhost:12346'', interval_ms = 1000\<rparr>"

definition heights_url :: "string \<Rightarrow> string" where
  "heights_url url = trim_end_matches (CHR ''/'') url @ ''/modules/chain-state/state/current-heights/''"

text \<open>\<open>ValueResponse\<close>: one field with a pair of unsigned numbers; the first is the rollup's height.\<close>

definition value_response :: "json \<Rightarrow> (u64 \<times> u64) option" where
  "value_response j =
     (case struct_fields [''value''] j of
        Some [v] \<Rightarrow>
          (case as_array v of
             Some [a, b] \<Rightarrow>
               (case (as_u64 a, as_u64 b) of (Some x, Some y) \<Rightarrow> Some (x, y) | _ \<Rightarrow> None)
           | _ \<Rightarrow> None)
      | _ \<Rightarrow> None)"

definition read_rollup_height :: "'m env \<Rightarrow> string \<Rightarrow> ('m, u64) io" where
  "read_rollup_height env url =
     io_bind (send env (HttpGet (heights_url url))) (\<lambda>j.
     io_lift (case value_response j of None \<Rightarrow> Inl BadJson | Some v \<Rightarrow> Inr (fst v)))"

datatype printed = Height u64 | ReadFailed client_error

text \<open>A failed reading is printed and the loop goes on.\<close>

fun watch_height :: "'m env \<Rightarrow> string \<Rightarrow> nat \<Rightarrow> ('m, printed list) io" where
  "watch_height env url 0 = io_return []"
| "watch_height env url (Suc ticks) =
     io_bind (io_catch (io_bind (read_rollup_height env url) (\<lambda>x. io_return (Height x))) (\<lambda>e. io_return (ReadFailed e))) (\<lambda>line.
     io_bind (watch_height env url ticks) (\<lambda>lines. io_return (line # lines)))"

section \<open>One request and one line per tick\<close>

definition line_for :: "json option \<Rightarrow> printed" where
  "line_for answer =
     (case answer of
        None \<Rightarrow> ReadFailed NoResponse
      | Some j \<Rightarrow> (case value_response j of None \<Rightarrow> ReadFailed BadJson | Some v \<Rightarrow> Height (fst v)))"

text \<open>Each tick makes one request, always the same, and prints one line that depends on the answer to
  it alone: a failure neither ends the loop nor leaves a trace in later lines.\<close>

lemma watch_height_prints:
  "watch_height env url n h =
     (Inr (map (\<lambda>i. line_for (env (h @ replicate (Suc i) (HttpGet (heights_url url))))) [0..<n]),
      h @ replicate n (HttpGet (heights_url url)))"
proof (induction n arbitrary: h)
  case (Suc n)
  let ?q = "HttpGet (heights_url url)"
  have tick: "io_catch (io_bind (read_rollup_height env url) (\<lambda>x. io_return (Height x))) (\<lambda>e. io_return (ReadFailed e)) h =
      (Inr (line_for (env (h @ [?q]))), h @ [?q])"
    by (simp add: io_catch_def io_bind_def read_rollup_height_def send_def line_for_def io_lift_def split: option.split)
  have "map (\<lambda>i. line_for (env (h @ replicate (Suc i) ?q))) [0..<Suc n] =
      line_for (env (h @ [?q])) # map (\<lambda>i. line_for (env ((h @ [?q]) @ replicate (Suc i) ?q))) [0..<n]"
    by (simp add: upt_conv_Cons map_Suc_upt [symmetric] del: upt_Suc)
  then show ?case
    using Suc.IH [of "h @ [?q]"] by (simp add: io_bind_def tick del: upt_Suc)
qed simp

lemma watch_height_example:
  "watch_height (\<lambda>h. if length h = 2 then None else Some (JObject [(''value'', JArray [JNumber (PosInt 7), JNumber (PosInt 9)])]))
     ''http://n/'' 3 [] =
   (Inr [Height 7, ReadFailed NoResponse, Height 7],
    replicate 3 (HttpGet ''http://n/modules/chain-state/state/current-heights/''))"
proof -
  have "heights_url ''http://n/'' = ''http://n/modules/chain-state/state/current-heights/''"
    by code_simp
  then show ?thesis
    by (simp add: watch_height_prints line_for_def value_response_def upt_conv_Cons eval_nat_numeral
        del: watch_height.simps)
qed

end
