(* ===== verification/Witness_Stream.thy ===== *)
theory Witness_Stream
  imports Beacon_Api
begin

text \<open>
  How the witness of the light client circuit leaves the host: the host writes it with an instance of
  \<open>Serialize\<close> of its own (\<open>zk-bridge/src/beacon_api.rs\<close>), because the instances for arrays of 48 and
  96 bytes are missing. The format has no names and no lengths of arrays, so a value is the sequence of the
  primitive values that the instance writes. How a primitive value becomes bytes is left to the
  format. The circuit's copy of the type (\<open>guest-helios/src/types.rs\<close>) derives its instances and does not
  compile for the same reason, so there is no reader to model: what can be asked of the writer alone is
  that it loses nothing.
\<close>

datatype serde_token = TU8 byte | TU16 u16 | TU64 u64

section \<open>Writing\<close>

definition ser_bytes :: "bytes \<Rightarrow> serde_token list" where
  "ser_bytes bs = map TU8 bs"

definition ser_header :: "beacon_block_header \<Rightarrow> serde_token list" where
  "ser_header h =
     [TU64 (slot h), TU64 (proposer_index h)] @ ser_bytes (b32 (parent_root h)) @ ser_bytes (b32 (state_root h)) @
     ser_bytes (b32 (body_root h))"

fun ser_branch :: "bytes32 list \<Rightarrow> serde_token list" where
  "ser_branch [] = []"
| "ser_branch (node # rest) = ser_bytes (b32 node) @ ser_branch rest"

definition serialize_witness :: "helios_witness \<Rightarrow> serde_token list" where
  "serialize_witness w =
     ser_bytes (b32 (hw_prev_trusted_root w)) @
     ser_header (attested_header w) @
     ser_header (finalized_header w) @
     ser_branch (finality_branch w) @
     [TU16 (sync_committee_participation w)] @
     ser_bytes (to_be_bytes 96 (sync_aggregate_signature w)) @
     ser_bytes (to_be_bytes 48 (sync_committee_pubkey w)) @
     ser_bytes (b4 (fork_version w)) @
     ser_bytes (b32 (genesis_validators_root w)) @
     ser_bytes (b32 (execution_payload_root w)) @
     ser_branch (body_to_exec_branch w) @
     ser_bytes (b32 (hw_execution_block_hash w)) @
     ser_branch (exec_to_hash_branch w)"

section \<open>Each part can be read off\<close>

text \<open>A field is written with a fixed number of values, so what follows it starts at a fixed place, and
  its values determine it.\<close>

lemma length_ser [simp]:
  "length (ser_bytes bs) = length bs" "length (ser_header h) = 98" "length (ser_branch br) = 32 * length br"
proof -
  show "length (ser_bytes bs) = length bs" for bs by (simp add: ser_bytes_def)
  then show "length (ser_header h) = 98" by (simp add: ser_header_def)
  show "length (ser_branch br) = 32 * length br" by (induction br) (simp_all add: ser_bytes_def)
qed

lemma ser_inject:
  "ser_bytes bs = ser_bytes bs' \<longleftrightarrow> bs = bs'"
  "ser_header h = ser_header h' \<longleftrightarrow> h = h'"
  "length br = length br' \<Longrightarrow> ser_branch br = ser_branch br' \<longleftrightarrow> br = br'"
proof -
  show bytes: "ser_bytes bs = ser_bytes bs' \<longleftrightarrow> bs = bs'" for bs bs'
    by (simp add: ser_bytes_def inj_on_def inj_map_eq_map)
  show "ser_header h = ser_header h' \<longleftrightarrow> h = h'"
    by (cases h; cases h') (auto simp: ser_header_def append_eq_append_conv bytes)
  show "length br = length br' \<Longrightarrow> ser_branch br = ser_branch br' \<longleftrightarrow> br = br'"
    by (induction br br' rule: list_induct2) (simp_all add: append_eq_append_conv bytes)
qed

section \<open>The witnesses that are built\<close>

lemma rmap_Inr_length: "rmap f xs = Inr ys \<Longrightarrow> length ys = length xs"
  by (induction xs arbitrary: ys) auto

lemma length_branch_walk [simp]: "length (branch_walk sha n level i) = n"
  by (induction n arbitrary: level i) simp_all

lemma built_witness_shape:
  assumes "build_helios_witness cr update gen pubkey prev = Inr w"
  shows "length (finality_branch w) = 6" "length (body_to_exec_branch w) = 4" "length (exec_to_hash_branch w) = 5"
  using assms
  by (auto simp: build_helios_witness_def parse_branch_6_def parse_branch_4_def parse_branch_def merkle_branch_32_def
      dest: rmap_Inr_length split: if_splits)

text \<open>Property C20. The hand-written serializer of the light client witness loses nothing: it writes 953
  primitive values for every witness that the builder returns, and from these values, whatever follows
  them, the witness can be recovered: two built witnesses that are written alike are equal, and so is
  what follows. The arrays of 48 and 96 bytes, which the serializer exists for, are included.\<close>

theorem written_witness_unique:
  assumes "build_helios_witness cr u g k p = Inr w" "build_helios_witness cr' u' g' k' p' = Inr w'"
    and "serialize_witness w @ rest = serialize_witness w' @ rest'"
  shows "w = w' \<and> rest = rest' \<and> length (serialize_witness w) = 953"
proof -
  note shape = built_witness_shape [OF assms(1)] built_witness_shape [OF assms(2)]
  have len: "length (serialize_witness v) = 953"
    if "length (finality_branch v) = 6" "length (body_to_exec_branch v) = 4" "length (exec_to_hash_branch v) = 5" for v
    using that by (simp add: serialize_witness_def)
  from len [OF shape(1-3)] len [OF shape(4-6)] assms(3)
  have eq: "serialize_witness w = serialize_witness w'" and rest: "rest = rest'" by simp_all
  have "w = w'"
    using eq shape
    by (cases w; cases w')
      (auto simp: serialize_witness_def append_eq_append_conv ser_inject to_be_bytes_inject)
  with rest len [OF shape(1-3)] show ?thesis by simp
qed

theorem written_witness_unique_witness:
  "length (serialize_witness demo_built) = 953 \<and>
   build_helios_witness demo_crates demo_finality_update demo_genesis 1 3 = Inr demo_built"
  using written_witness_unique [OF demo_built_eq demo_built_eq refl] demo_built_eq by simp

end
