(* ===== verification/Spending.thy ===== *)
theory Spending
  imports Pool_Properties Guest_Privacy
begin

text \<open>
  The circuits and the pool together. First what the nullifiers of the circuits achieve in the pool: a
  note is spent at most once with the same key. Then the way of an honest transfer: the paths rebuilt
  from the flat list of commitments (\<open>privacy/src/merkle.rs\<close>), the host prover (\<open>sp1_prover.rs\<close>), the
  circuit (\<open>guest-privacy/src/bin/transfer.rs\<close>) and the handler of the pool (\<open>privacy/src/lib.rs\<close>) fit
  together.
\<close>

section \<open>One spend per note and key\<close>

text \<open>A message spends a note with a key when the nullifiers that it lists are those that a circuit
  computes in an accepted run with this note and key among its inputs.\<close>

fun circuit_spends :: "hash32 \<Rightarrow> call_message \<Rightarrow> note_data \<Rightarrow> bytes32 \<Rightarrow> bool" where
  "circuit_spends sha (Transfer msg) n sk \<longleftrightarrow>
     (\<exists>w out k. transfer_main sha w = Inr out \<and> map nullifier_bytes (transfer_nullifiers msg) = out_nullifiers out \<and>
        k < length (inputs w) \<and> inputs w ! k = n \<and> spending_keys w ! k = sk)"
| "circuit_spends sha (Unshield msg) n sk \<longleftrightarrow>
     (\<exists>w out. unshield_main sha w = Inr out \<and> nullifier_bytes (unshield_nullifier msg) = uo_nullifier out \<and>
        uw_note w = n \<and> uw_spending_key w = sk)"
| "circuit_spends sha msg n sk \<longleftrightarrow> False"

lemma circuit_spends_nullifier:
  assumes "circuit_spends sha msg n sk"
  shows "Nullifier (hash_nullifier sha sk (hash_note sha n)) \<in> msg_nullifiers msg"
proof (cases msg)
  case (Transfer m)
  with assms obtain w out k where run: "transfer_main sha w = Inr out" "k < length (inputs w)" "inputs w ! k = n" "spending_keys w ! k = sk"
    and listed: "map nullifier_bytes (transfer_nullifiers m) = out_nullifiers out" by auto
  from run have "hash_nullifier sha sk (hash_note sha n) \<in> set (out_nullifiers out)"
    by (force simp: transfer_main_Inr_iff set_zip)
  then show ?thesis unfolding listed [symmetric] using Transfer by force
next
  case (Unshield m)
  with assms show ?thesis
    by (auto simp: unshield_main_def hash_note_def hash_nullifier_def Let_def nullifier.expand)
qed (use assms in simp_all)

text \<open>Property C2. A note is spent at most once with the same key. Over any sequence of transactions,
  from any state, if an accepted transfer or withdrawal lists the nullifiers that its circuit computed
  for a note and a key, no later accepted transaction lists the nullifiers of a circuit run with the
  same note and key, and the nullifier is recorded as spent from then on. Nothing more is claimed: the
  circuits let another key spend the same note again, one transfer may list an input twice, and the
  pool does not compare the nullifiers of a message with those of its proof.\<close>

theorem same_key_spends_once:
  assumes "acc = accepted (pool_step cr b) txs s" "i < j" "j < length acc"
    and "circuit_spends (sha256 cr) (snd (snd (acc ! i))) n sk"
  shows "\<not> circuit_spends (sha256 cr) (snd (snd (acc ! j))) n sk \<and>
    is_spent (run (pool_step cr b) txs s) (Nullifier (hash_nullifier (sha256 cr) sk (hash_note (sha256 cr) n)))"
proof
  let ?nf = "Nullifier (hash_nullifier (sha256 cr) sk (hash_note (sha256 cr) n))"
  have nf: "?nf \<in> tx_nullifiers (acc ! i)"
    using circuit_spends_nullifier [OF assms(4)] by (simp add: tx_nullifiers_def)
  have "disjoint_list (map tx_nullifiers acc)" unfolding assms(1) by (rule nullifier_guard.no_replay)
  from disjoint_list_nth [OF this assms(2)] assms(2,3)
  have "tx_nullifiers (acc ! i) \<inter> tx_nullifiers (acc ! j) = {}" by simp
  with nf circuit_spends_nullifier [of "sha256 cr" "snd (snd (acc ! j))" n sk]
  show "\<not> circuit_spends (sha256 cr) (snd (snd (acc ! j))) n sk" by (auto simp: tx_nullifiers_def)
  have "?nf \<in> spent_set (run (pool_step cr b) txs s)"
    unfolding nullifier_guard.spent_run using nf assms(1-3) by (force simp: assms(1))
  then show "is_spent (run (pool_step cr b) txs s) ?nf" by (simp add: spent_set_def)
qed

section \<open>A transfer\<close>

text \<open>The notes to spend with their keys and positions in the list, and the notes to create.\<close>

record spend =
  sp_keys :: "bytes32 list"
  sp_inputs :: "Note list"
  sp_positions :: "nat list"
  sp_outputs :: "Note list"

definition note_commitment :: "hash32 \<Rightarrow> Note \<Rightarrow> commitment" where
  "note_commitment sha n = Commitment (sha (note_preimage n))"

definition spend_nullifiers :: "hash32 \<Rightarrow> spend \<Rightarrow> nullifier list" where
  "spend_nullifiers sha x =
     map (\<lambda>(n, k). nullifier_compute sha k (note_commitment sha n)) (zip (sp_inputs x) (sp_keys x))"

definition spend_value :: "Note list \<Rightarrow> nat" where
  "spend_value ns = (\<Sum>n\<leftarrow>ns. unat (note_amount n))"

text \<open>The inputs are in the pool at their positions, all notes are well-formed and of one asset, and
  the values are equal.\<close>

definition well_formed_note :: "asset_id \<Rightarrow> Note \<Rightarrow> bool" where
  "well_formed_note a n \<longleftrightarrow> note_amount n \<noteq> 0 \<and> length (note_owner n) = 32 \<and> note_asset n = a"

definition honest_spend :: "crates \<Rightarrow> pool_state \<Rightarrow> spend \<Rightarrow> bool" where
  "honest_spend cr s x \<longleftrightarrow>
     sp_inputs x \<noteq> [] \<and> sp_outputs x \<noteq> [] \<and>
     length (sp_keys x) = length (sp_inputs x) \<and> length (sp_positions x) = length (sp_inputs x) \<and>
     list_all (well_formed_note (note_asset (sp_inputs x ! 0))) (sp_inputs x @ sp_outputs x) \<and>
     list_all (\<lambda>(n, i). i < length (commitments s) \<and> commitments s ! i = note_commitment (sha256 cr) n)
       (zip (sp_inputs x) (sp_positions x)) \<and>
     spend_value (sp_inputs x) = spend_value (sp_outputs x) \<and> spend_value (sp_outputs x) < 2 ^ 64"

text \<open>What the owner computes from the flat list: the paths, and from them the host prover's arguments.\<close>

definition spend_paths :: "crates \<Rightarrow> pool_state \<Rightarrow> spend \<Rightarrow> bytes32 list list option" where
  "spend_paths cr s x =
     map_option (\<lambda>paths. map (\<lambda>i. paths ! i) (sp_positions x)) (build_proof_paths (sha256 cr) (leaves s))"

definition spend_message :: "crates \<Rightarrow> pool_state \<Rightarrow> spend \<Rightarrow> bytes \<Rightarrow> bytes \<Rightarrow> sanctions_public_inputs \<Rightarrow> bytes list \<Rightarrow> transfer_message" where
  "spend_message cr s x pf sanctions si encrypted =
     \<lparr>transfer_proof = pf,
      transfer_inputs = \<lparr>transfer_amount = of_nat (spend_value (sp_inputs x)),
        transfer_asset = note_asset (sp_inputs x ! 0), merkle_root_input = unwrap_or (merkle_root s) 0\<rparr>,
      transfer_nullifiers = spend_nullifiers (sha256 cr) x,
      output_commitments = map (note_commitment (sha256 cr)) (sp_outputs x),
      sanctions_proof = sanctions, sanctions_inputs = si, encrypted_outputs = encrypted\<rparr>"

section \<open>The circuit accepts\<close>

lemma hash_note_data:
  "length (note_owner n) = 32 \<Longrightarrow> hash_note sha (note_to_data n) = commitment_bytes (note_commitment sha n)"
  by (simp add: hash_note_def note_to_data_def note_commitment_def note_preimage_def Let_def)

lemma note_data_fields [simp]:
  "nd_amount (note_to_data n) = note_amount n" "nd_asset (note_to_data n) = asset_bytes (note_asset n)"
  by (simp_all add: note_to_data_def Let_def)

definition spend_witness :: "crates \<Rightarrow> pool_state \<Rightarrow> spend \<Rightarrow> transfer_witness" where
  "spend_witness cr s x =
     \<lparr>spending_keys = sp_keys x, inputs = map note_to_data (sp_inputs x), outputs = map note_to_data (sp_outputs x),
      tw_merkle_root = unwrap_or (merkle_root s) 0, leaf_indices = map of_nat (sp_positions x),
      merkle_paths = unwrap_or (spend_paths cr s x) []\<rparr>"

lemma spend_paths_eq:
  assumes "pool_inv (sha256 cr) s" "list_all (\<lambda>i. i < length (commitments s)) (sp_positions x)"
  shows "spend_paths cr s x =
    Some (map (sibling_path (hash_pair (sha256 cr)) (padded (leaves s)) TREE_DEPTH) (sp_positions x))"
proof -
  have "length (leaves s) \<le> 2 ^ TREE_DEPTH" using assms(1) by (simp add: pool_inv_def)
  from build_proof_paths_spec [OF this] assms(2) show ?thesis
    by (auto simp: spend_paths_def list_all_iff)
qed

lemma honest_note:
  assumes "honest_spend cr s x" "n \<in> set (sp_inputs x) \<union> set (sp_outputs x)"
  shows "note_amount n \<noteq> 0" "length (note_owner n) = 32" "note_asset n = note_asset (sp_inputs x ! 0)"
proof -
  from assms(1) have "list_all (well_formed_note (note_asset (sp_inputs x ! 0))) (sp_inputs x @ sp_outputs x)"
    by (simp only: honest_spend_def)
  with assms(2) have "well_formed_note (note_asset (sp_inputs x ! 0)) n"
    unfolding list_all_iff set_append by blast
  then show "note_amount n \<noteq> 0" "length (note_owner n) = 32" "note_asset n = note_asset (sp_inputs x ! 0)"
    by (simp_all add: well_formed_note_def)
qed

lemma honest_positions:
  assumes "honest_spend cr s x"
  shows "list_all (\<lambda>i. i < length (commitments s)) (sp_positions x)"
  unfolding list_all_length
proof (intro allI impI)
  fix k assume "k < length (sp_positions x)"
  with assms show "sp_positions x ! k < length (commitments s)"
    by (force simp: honest_spend_def list_all_length)
qed

lemma position_included:
  assumes "pool_inv (sha256 cr) s" "i < length (commitments s)"
  shows "climb (hash_pair (sha256 cr)) (unat (of_nat i :: u64)) (commitment_bytes (commitments s ! i))
    (sibling_path (hash_pair (sha256 cr)) (padded (leaves s)) TREE_DEPTH i) = unwrap_or (merkle_root s) 0"
proof -
  have i: "i < 2 ^ TREE_DEPTH" and root: "merkle_root s = Some (tree_root (sha256 cr) (leaves s))"
    using assms by (auto simp: pool_inv_def)
  from verify_sibling_path [OF i, of "sha256 cr" "leaves s"] root assms(2) show ?thesis
    by (simp add: verify_iff_inclusion verify_merkle_inclusion_iff padded_def)
qed

definition spend_outputs :: "crates \<Rightarrow> pool_state \<Rightarrow> spend \<Rightarrow> transfer_public_outputs" where
  "spend_outputs cr s x =
     \<lparr>out_nullifiers = map nullifier_bytes (spend_nullifiers (sha256 cr) x),
      out_commitments = map (commitment_bytes \<circ> note_commitment (sha256 cr)) (sp_outputs x),
      out_transfer_amount = of_nat (spend_value (sp_inputs x)), out_asset = asset_bytes (note_asset (sp_inputs x ! 0)),
      out_merkle_root = unwrap_or (merkle_root s) 0\<rparr>"

lemma honest_inclusions:
  assumes inv: "pool_inv (sha256 cr) s" and x: "honest_spend cr s x"
  shows "check_inclusions (sha256 cr) (spend_witness cr s x) = Inr ()"
  unfolding check_inclusions_Inr_iff
proof clarify
  fix d i ss
  let ?w = "spend_witness cr s x"
  assume "((d, i), ss) \<in> set (zip (zip (inputs ?w) (leaf_indices ?w)) (merkle_paths ?w))"
  then obtain k where k: "k < length (sp_inputs x)" "k < length (sp_positions x)"
    and d: "d = note_to_data (sp_inputs x ! k)" "i = of_nat (sp_positions x ! k)"
    and ss: "ss = sibling_path (hash_pair (sha256 cr)) (padded (leaves s)) TREE_DEPTH (sp_positions x ! k)"
    using spend_paths_eq [OF inv honest_positions [OF x]]
    by (auto simp: set_zip spend_witness_def)
  have owner: "length (note_owner (sp_inputs x ! k)) = 32"
    using honest_note(2) [OF x] k(1) by simp
  have pos: "sp_positions x ! k < length (commitments s)"
    and at: "commitments s ! (sp_positions x ! k) = note_commitment (sha256 cr) (sp_inputs x ! k)"
    using x k by (simp_all add: honest_spend_def list_all_length)
  from position_included [OF inv pos]
  show "climb (hash_pair (sha256 cr)) (unat i) (hash_note (sha256 cr) d) ss = tw_merkle_root ?w"
    unfolding d ss at hash_note_data [OF owner] by (simp add: spend_witness_def)
qed

lemma spend_nullifiers_circuit:
  assumes "honest_spend cr s x"
  shows "map (\<lambda>(n, k). hash_nullifier (sha256 cr) k (hash_note (sha256 cr) n)) (zip (map note_to_data (sp_inputs x)) (sp_keys x)) =
    map nullifier_bytes (spend_nullifiers (sha256 cr) x)"
proof -
  have "hash_nullifier (sha256 cr) k (hash_note (sha256 cr) (note_to_data n)) =
      nullifier_bytes (nullifier_compute (sha256 cr) k (note_commitment (sha256 cr) n))"
    if "(n, k) \<in> set (zip (sp_inputs x) (sp_keys x))" for n k
    using hash_note_data [OF honest_note(2) [OF assms]] set_zip_leftD [OF that]
    by (simp add: nullifier_compute_def hash_nullifier_def)
  then show ?thesis
    by (auto simp: spend_nullifiers_def zip_map1)
qed

lemma spend_circuit_accepts:
  assumes inv: "pool_inv (sha256 cr) s" and x: "honest_spend cr s x"
  shows "transfer_main (sha256 cr) (spend_witness cr s x) = Inr (spend_outputs cr s x)"
proof -
  let ?w = "spend_witness cr s x" and ?o = "spend_outputs cr s x"
  have "spend_value (sp_inputs x) < 2 ^ LENGTH(64)" using x by (simp add: honest_spend_def)
  then have amount: "unat (out_transfer_amount ?o) = spend_value (sp_inputs x)"
    by (simp add: spend_outputs_def unat_of_nat_small)
  have w: "inputs ?w = map note_to_data (sp_inputs x)" "outputs ?w = map note_to_data (sp_outputs x)"
    by (simp_all add: spend_witness_def)
  have sums: "(\<Sum>n\<leftarrow>map note_to_data ns. unat (nd_amount n)) = spend_value ns" for ns
    by (simp add: spend_value_def comp_def)
  have "length (merkle_paths ?w) = length (inputs ?w) \<and> length (leaf_indices ?w) = length (inputs ?w) \<and>
      length (spending_keys ?w) = length (inputs ?w) \<and> inputs ?w \<noteq> [] \<and> outputs ?w \<noteq> []"
    using spend_paths_eq [OF inv honest_positions [OF x]] x by (simp add: spend_witness_def honest_spend_def)
  moreover have "\<forall>n \<in> set (inputs ?w) \<union> set (outputs ?w). nd_asset n = out_asset ?o"
    "\<forall>n \<in> set (outputs ?w). 0 < nd_amount n"
    using honest_note [OF x] by (auto simp: w spend_outputs_def word_gt_0)
  moreover have "unat (out_transfer_amount ?o) = (\<Sum>n\<leftarrow>inputs ?w. unat (nd_amount n))"
    "unat (out_transfer_amount ?o) = (\<Sum>n\<leftarrow>outputs ?w. unat (nd_amount n))"
    unfolding w sums amount using x by (simp_all add: honest_spend_def)
  moreover have "out_commitments ?o = map (hash_note (sha256 cr)) (outputs ?w)"
    using hash_note_data [OF honest_note(2) [OF x]] by (auto simp: w spend_outputs_def)
  moreover have "out_nullifiers ?o = map (\<lambda>(n, k). hash_nullifier (sha256 cr) k (hash_note (sha256 cr) n))
      (zip (inputs ?w) (spending_keys ?w))"
    using spend_nullifiers_circuit [OF x] by (simp add: spend_outputs_def spend_witness_def)
  moreover have "out_merkle_root ?o = tw_merkle_root ?w" by (simp add: spend_outputs_def spend_witness_def)
  ultimately show ?thesis
    unfolding transfer_main_Inr_iff using honest_inclusions [OF inv x] by blast
qed

section \<open>The pool accepts\<close>

lemma current_root_known:
  assumes "pool_inv (sha256 cr) s" "commitments s \<noteq> []"
  shows "is_known_root (unwrap_or (merkle_root s) 0) s"
proof -
  let ?n = "length (commitments s)"
  have "recent ?n (?n - 1)" "root_after (sha256 cr) (commitments s) (?n - 1) = tree_root (sha256 cr) (leaves s)"
    using assms(2) by (auto simp: recent_def root_after_def)
  moreover have "merkle_root s = Some (tree_root (sha256 cr) (leaves s))" using assms(1) by (simp add: pool_inv_def)
  ultimately show ?thesis unfolding is_known_root_iff [OF assms(1)] by (intro exI [of _ "?n - 1"]) simp
qed

lemma spend_handled:
  assumes inv: "pool_inv (sha256 cr) s" and x: "honest_spend cr s x"
    and proof_ok: "verify_transfer_proof b pf (transfer_inputs (spend_message cr s x pf sanctions si encrypted)) = Inr ()"
    and room: "length (commitments s) + length (sp_outputs x) \<le> 2 ^ TREE_DEPTH"
    and unspent: "set (spend_nullifiers (sha256 cr) x) \<inter> spent_set s = {}"
    and root: "sanctions_root_input si = unwrap_or (sanctions_root s) 0"
    and fresh: "unat now_secs \<le> unat (proof_timestamp si) + 86400"
    and clear: "verify_sanctions_proof b sanctions si = Inr ()"
  shows "\<exists>s'. pool_call cr b now_secs sender (Transfer (spend_message cr s x pf sanctions si encrypted)) s = Inr s' \<and>
    commitments s' = commitments s @ map (note_commitment (sha256 cr)) (sp_outputs x) \<and>
    spent_set s' = spent_set s \<union> set (spend_nullifiers (sha256 cr) x) \<and> pool_inv (sha256 cr) s'"
proof -
  let ?m = "spend_message cr s x pf sanctions si encrypted"
  have "commitments s \<noteq> []"
    using x honest_positions [OF x] by (cases "sp_positions x") (auto simp: honest_spend_def)
  note known = current_root_known [OF inv this]
  have "transfer_checks b now_secs ?m s = Inr ()"
    unfolding transfer_checks_Inr_iff using known proof_ok unspent root fresh clear by (simp add: spend_message_def)
  then have "is_ok (handle_transfer cr b now_secs ?m s)"
    unfolding transfer_ok_iff [OF inv] using room by (simp add: spend_message_def)
  then obtain s' where s': "pool_call cr b now_secs sender (Transfer ?m) s = Inr s'" by (auto simp: is_ok_iff)
  from pool_call_log [OF s' inv] spent_set_pool_call [OF s'] s' show ?thesis
    by (simp add: spend_message_def)
qed

lemma spend_refused:
  assumes "verify_transfer_proof b (transfer_proof msg) (transfer_inputs msg) \<noteq> Inr ()"
  shows "pool_call cr b now_secs sender (Transfer msg) (ledger cr b txs) \<noteq> Inr s'"
proof
  assume "pool_call cr b now_secs sender (Transfer msg) (ledger cr b txs) = Inr s'"
  then have "is_ok (handle_transfer cr b now_secs msg (ledger cr b txs))" by (simp add: is_ok_iff)
  then have "transfer_checks b now_secs msg (ledger cr b txs) = Inr ()"
    unfolding transfer_ok_iff [OF ledger_inv] by blast
  with assms show False by (simp add: transfer_checks_Inr_iff)
qed

text \<open>Property C3. Whoever owns notes of the pool can spend them, as far as the code of the rollup
  decides. After any transactions, take any well-formed transfer of notes that are in the pool, with
  fresh nullifiers, room in the tree and a sanctions proof that passes. The paths rebuilt from the
  flat list of commitments exist, the transfer circuit accepts the witness made of them, its public
  outputs are the message's, and the host prover gives the SDK's prover exactly this witness. With
  any proof at all, the pool accepts the transfer if and only if its verifier accepts the proof, and
  then appends exactly the new commitments and marks exactly these nullifiers. That the verifier
  accepts the SDK's proof is not claimed: in the default build it accepts every proof with the mock
  header, and in the sp1 build it is called with empty public values.\<close>

theorem owned_notes_spendable:
  assumes x: "honest_spend cr (ledger cr b txs) x"
    and room: "length (commitments (ledger cr b txs)) + length (sp_outputs x) \<le> 2 ^ TREE_DEPTH"
    and unspent: "set (spend_nullifiers (sha256 cr) x) \<inter> spent_set (ledger cr b txs) = {}"
    and root: "sanctions_root_input si = unwrap_or (sanctions_root (ledger cr b txs)) 0"
    and fresh: "unat now_secs \<le> unat (proof_timestamp si) + 86400"
    and clear: "verify_sanctions_proof b sanctions si = Inr ()"
  shows "let s = ledger cr b txs; msg = (\<lambda>pf. spend_message cr s x pf sanctions si encrypted)
    in (\<exists>paths. spend_paths cr s x = Some paths \<and>
         (\<forall>prover. prove_transfer prover (sp_keys x) (sp_inputs x) (sp_outputs x) (unwrap_or (merkle_root s) 0)
              (map of_nat (sp_positions x)) paths =
            (case prover (spend_witness cr s x) of None \<Rightarrow> Inl ProverFailed | Some pf \<Rightarrow> Inr pf))) \<and>
      transfer_main (sha256 cr) (spend_witness cr s x) = Inr (spend_outputs cr s x) \<and>
      (\<forall>pf. case pool_call cr b now_secs sender (Transfer (msg pf)) s of
         Inl e \<Rightarrow> verify_transfer_proof b pf (transfer_inputs (msg pf)) \<noteq> Inr ()
       | Inr s' \<Rightarrow> verify_transfer_proof b pf (transfer_inputs (msg pf)) = Inr () \<and>
           commitments s' = commitments s @ map (note_commitment (sha256 cr)) (sp_outputs x) \<and>
           spent_set s' = spent_set s \<union> set (spend_nullifiers (sha256 cr) x))"
proof -
  let ?s = "ledger cr b txs"
  let ?m = "\<lambda>pf. spend_message cr ?s x pf sanctions si encrypted"
  obtain paths where paths: "spend_paths cr ?s x = Some paths"
    using spend_paths_eq [OF ledger_inv honest_positions [OF x]] by blast
  moreover have "length paths = length (sp_inputs x)"
    using spend_paths_eq [OF ledger_inv honest_positions [OF x]] paths x by (simp add: honest_spend_def)
  ultimately have host: "prove_transfer prover (sp_keys x) (sp_inputs x) (sp_outputs x) (unwrap_or (merkle_root ?s) 0)
      (map of_nat (sp_positions x)) paths =
      (case prover (spend_witness cr ?s x) of None \<Rightarrow> Inl ProverFailed | Some pf \<Rightarrow> Inr pf)" for prover
    using x by (simp add: prove_transfer_def spend_witness_def honest_spend_def)
  have pool: "case pool_call cr b now_secs sender (Transfer (?m pf)) ?s of
       Inl e \<Rightarrow> verify_transfer_proof b pf (transfer_inputs (?m pf)) \<noteq> Inr ()
     | Inr s' \<Rightarrow> verify_transfer_proof b pf (transfer_inputs (?m pf)) = Inr () \<and>
         commitments s' = commitments ?s @ map (note_commitment (sha256 cr)) (sp_outputs x) \<and>
         spent_set s' = spent_set ?s \<union> set (spend_nullifiers (sha256 cr) x)" for pf
  proof (cases "verify_transfer_proof b pf (transfer_inputs (?m pf)) = Inr ()")
    case True
    from spend_handled [OF ledger_inv x True room unspent root fresh clear, of sender] True show ?thesis
      by (elim exE conjE) (simp del: pool_call.simps)
  next
    case False
    then have "verify_transfer_proof b (transfer_proof (?m pf)) (transfer_inputs (?m pf)) \<noteq> Inr ()"
      by (simp add: spend_message_def)
    note refused = spend_refused [OF this, of cr now_secs sender txs]
    show ?thesis
    proof (cases "pool_call cr b now_secs sender (Transfer (?m pf)) ?s")
      case (Inr s')
      with refused show ?thesis by blast
    qed (use False in \<open>simp del: pool_call.simps\<close>)
  qed
  show ?thesis
    unfolding Let_def using paths host spend_circuit_accepts [OF ledger_inv x] pool by blast
qed

section \<open>A spend\<close>

text \<open>A withdrawal, and a deposit after it.\<close>

definition demo_unshield_witness :: unshield_witness where
  "demo_unshield_witness = \<lparr>uw_spending_key = 3, uw_note = note_to_data sample_note\<rparr>"

definition demo_unshield_tx :: pool_tx where
  "demo_unshield_tx = (0, [], Unshield
     \<lparr>unshield_proof = mock_proof [], unshield_inputs = \<lparr>unshield_amount = 5, unshield_asset = AssetId 7\<rparr>,
      unshield_nullifier = Nullifier (hash_nullifier (sha256 left_crates) 3 (hash_note (sha256 left_crates) (note_to_data sample_note))),
      unshield_recipient = []\<rparr>)"

lemma demo_unshield_spends:
  "circuit_spends (sha256 left_crates) (snd (snd demo_unshield_tx)) (note_to_data sample_note) 3"
proof -
  have n: "0 < nd_amount (note_to_data sample_note)" "length (nd_owner (note_to_data sample_note)) = 32"
    by (simp_all add: note_to_data_def sample_note_def Let_def)
  show ?thesis
    unfolding demo_unshield_tx_def snd_conv circuit_spends.simps
    by (rule exI [of _ demo_unshield_witness])
      (use n in \<open>simp add: demo_unshield_witness_def unshield_main_def hash_note_def hash_nullifier_def Let_def\<close>)
qed

lemma demo_unshield_accepted:
  "accepted (pool_step left_crates Mock) [demo_unshield_tx, sample_tx] (genesis_state left_crates) = [demo_unshield_tx, sample_tx]"
proof -
  have "\<not> is_spent (genesis_state left_crates) nf" for nf
    by (simp add: is_spent_def genesis_state_def pool_genesis_def empty_pool_state_def Let_def)
  then obtain s1 where s1: "pool_step left_crates Mock demo_unshield_tx (genesis_state left_crates) = Inr s1"
    by (simp add: demo_unshield_tx_def handle_unshield_def Let_def)
  have "run (pool_step left_crates Mock) [demo_unshield_tx] (genesis_state left_crates) = s1" using s1 by simp
  then have "s1 = ledger left_crates Mock [demo_unshield_tx]" by (simp add: ledger_def)
  then have inv: "pool_inv (sha256 left_crates) s1" "length (commitments s1) < 2 ^ TREE_DEPTH"
    using ledger_inv [of left_crates Mock "[demo_unshield_tx]"] s1
    by (simp_all add: ledger_commitments ledger_txs_def log_of_def demo_unshield_tx_def TREE_DEPTH_def del: pool_step.simps)
  obtain s2 where "pool_step left_crates Mock sample_tx s1 = Inr s2"
    using shield_ok [OF _ _ inv, of "\<lparr>shield_note = sample_note, encrypted_note = []\<rparr>" Mock 0 "[]"]
    by (auto simp: sample_tx_def sample_note_def)
  with s1 show ?thesis by simp
qed

theorem same_key_spends_once_witness:
  "\<not> circuit_spends (sha256 left_crates) (snd (snd sample_tx)) (note_to_data sample_note) 3 \<and>
   is_spent (run (pool_step left_crates Mock) [demo_unshield_tx, sample_tx] (genesis_state left_crates))
     (Nullifier (hash_nullifier (sha256 left_crates) 3 (hash_note (sha256 left_crates) (note_to_data sample_note))))"
  using same_key_spends_once [OF demo_unshield_accepted [symmetric], of 0 1] demo_unshield_spends by simp

definition demo_spend :: spend where
  "demo_spend = \<lparr>sp_keys = [3], sp_inputs = [sample_note], sp_positions = [0],
     sp_outputs = [sample_note\<lparr>note_salt := 10\<rparr>]\<rparr>"

text \<open>A verifier that knows one proof under each of the two keys.\<close>

definition demo_backend :: zk_backend where
  "demo_backend = Sp1 (\<lambda>pr pv vk. pr = [1] \<and> vk = TRANSFER_VK_HASH \<or> pr = [2] \<and> vk = SANCTIONS_VK_HASH)"

abbreviation demo_pool :: pool_state where
  "demo_pool \<equiv> ledger left_crates demo_backend [sample_tx]"

lemma demo_pool_commitments: "commitments demo_pool = [note_commitment (sha256 left_crates) sample_note]"
  unfolding ledger_commitments sample_ledger_txs
  by (simp add: log_of_def sample_tx_def note_commitment_def)

lemma demo_pool_unspent: "spent_set demo_pool = {}"
  using nullifier_guard.spent_run [of left_crates demo_backend "[sample_tx]" "genesis_state left_crates"]
    sample_ledger_txs [of left_crates demo_backend]
  by (simp add: ledger_def ledger_txs_def sample_tx_def tx_nullifiers_def spent_set_def is_spent_def genesis_state_def
      pool_genesis_def empty_pool_state_def Let_def)

lemma demo_honest: "honest_spend left_crates demo_pool demo_spend"
  by (simp add: honest_spend_def demo_spend_def demo_pool_commitments well_formed_note_def sample_note_def spend_value_def)

theorem owned_notes_spendable_witness:
  "\<exists>s'. pool_call left_crates demo_backend 0 [] (Transfer (spend_message left_crates demo_pool demo_spend [1] [2]
      \<lparr>recipient_commitment = 0, sanctions_root_input = unwrap_or (sanctions_root demo_pool) 0, proof_timestamp = 0\<rparr> [])) demo_pool = Inr s' \<and>
    length (commitments s') = 2 \<and> card (spent_set s') = 1"
proof -
  let ?si = "\<lparr>recipient_commitment = 0, sanctions_root_input = unwrap_or (sanctions_root demo_pool) 0, proof_timestamp = 0\<rparr>"
  let ?m = "spend_message left_crates demo_pool demo_spend [1] [2] ?si []"
  have room: "length (commitments demo_pool) + length (sp_outputs demo_spend) \<le> 2 ^ TREE_DEPTH"
    by (simp add: demo_pool_commitments demo_spend_def TREE_DEPTH_def)
  have unspent: "set (spend_nullifiers (sha256 left_crates) demo_spend) \<inter> spent_set demo_pool = {}"
    by (simp add: demo_pool_unspent)
  have nulls: "card (set (spend_nullifiers (sha256 left_crates) demo_spend)) = 1"
    by (simp add: spend_nullifiers_def demo_spend_def)
  have clear: "verify_sanctions_proof demo_backend [2] ?si = Inr ()"
    by (simp add: verify_sanctions_proof_def demo_backend_def)
  have accepted: "verify_transfer_proof demo_backend [1] ti = Inr ()" for ti
    by (simp add: verify_transfer_proof_def demo_backend_def)
  have call: "case pool_call left_crates demo_backend 0 [] (Transfer ?m) demo_pool of
       Inl e \<Rightarrow> verify_transfer_proof demo_backend [1] (transfer_inputs ?m) \<noteq> Inr ()
     | Inr s' \<Rightarrow> verify_transfer_proof demo_backend [1] (transfer_inputs ?m) = Inr () \<and>
         commitments s' = commitments demo_pool @ map (note_commitment (sha256 left_crates)) (sp_outputs demo_spend) \<and>
         spent_set s' = spent_set demo_pool \<union> set (spend_nullifiers (sha256 left_crates) demo_spend)"
    using owned_notes_spendable [OF demo_honest room unspent, of ?si 0 "[2]" "[]" "[]"] clear
    unfolding Let_def by simp
  with accepted obtain s' where
    "pool_call left_crates demo_backend 0 [] (Transfer ?m) demo_pool = Inr s'"
    "commitments s' = commitments demo_pool @ map (note_commitment (sha256 left_crates)) (sp_outputs demo_spend)"
    "spent_set s' = spent_set demo_pool \<union> set (spend_nullifiers (sha256 left_crates) demo_spend)"
    by (cases "pool_call left_crates demo_backend 0 [] (Transfer ?m) demo_pool") (simp_all del: pool_call.simps)
  with nulls show ?thesis
    by (intro exI [of _ s']) (simp add: demo_pool_commitments demo_pool_unspent demo_spend_def del: pool_call.simps)
qed

end
