(* ===== verification/Spec2Isabelle.thy ===== *)
theory Spec2Isabelle
  imports Rollup_Properties Delegation Relayer_Properties Guest_Combined Sanctions_Server Node_Discovery Acceptance_Build Test_Programs Rollup_Node Rollup_Height Witness_Stream Spending
begin

text \<open>
  \<^bold>\<open>Obscura network.\<close> A privacy rollup on the Sovereign SDK. Clients send call messages to two
  modules of its state transition function: the shielded pool (\<open>crates/privacy\<close>), which keeps note
  commitments in an incremental Merkle tree and spent notes as nullifiers, and the Ethereum bridge
  (\<open>crates/zk-bridge\<close>), which tracks a beacon chain light client, turns Ethereum deposits into
  commitments of the pool and records withdrawals. Both check zero-knowledge proofs whose statements
  are the SP1 guest programs under \<open>crates/provers/sp1\<close>. A sanctions oracle
  (\<open>crates/sanctions-oracle\<close>) publishes the Merkle root of a sorted address list and the witnesses of
  the sanctions circuit.

  \<^bold>\<open>Theories and code.\<close>
  \<^item> \<open>Prelude\<close>, \<open>Bytes\<close>, \<open>Rust_Str\<close>: results as sums with \<open>rbind\<close> and \<open>ensure\<close> (every early return is
    an \<open>Inl\<close> with the constructor of its error), machine integers as words, the byte views of words,
    and the functions of Rust's \<open>str\<close> that the code calls. \<open>Merkle_Core\<close> holds the reference
    semantics of binary Merkle trees and the lemma that two openings of one root agree unless the
    hash collides on the finite set of preimages that the two computations hash.
  \<^item> \<open>Interfaces\<close>: how messages run (\<open>exec\<close>, \<open>run\<close>, \<open>accepted\<close>: a rejected message leaves the state as
    it was), and the locales for what the modules share: anti-replay maps, append-only logs, accounts
    whose payments stay within their credits, Merkle node hashes. The component theories interpret each of them on the definitions of the code.
  \<^item> \<open>Merkle\<close> (\<open>privacy/src/merkle.rs\<close>), \<open>Note_Types\<close> (\<open>types.rs\<close>), \<open>Encryption\<close> (\<open>keys.rs\<close>,
    \<open>encryption.rs\<close>), \<open>Zk_Verify\<close> (\<open>zk/mod.rs\<close>), \<open>Pool\<close> (\<open>lib.rs\<close>). The record \<open>pool_state\<close> has one
    field per \<open>StateValue\<close> or \<open>StateMap\<close> of \<open>ShieldedPool\<close>; \<open>pool_call\<close> is the module's \<open>call\<close>, with one
    definition per handler. \<open>Pool_Tree\<close> proves that the incremental tree refines the list of inserted
    leaves, \<open>Pool_Ledger\<close> the invariants of the nullifier map, the counters and the ring buffer of
    roots, and \<open>Pool_Properties\<close> states them for every message sequence from genesis.
  \<^item> \<open>Guest_Privacy\<close> (the transfer, unshield and compliance circuits with the host code of
    \<open>sp1_prover.rs\<close>), \<open>Guest_Sanctions\<close> (the non-membership circuit), \<open>Sanctions_Tree\<close> and
    \<open>Sanctions_Server\<close> (the oracle), \<open>Guest_Combined\<close> (the aggregation circuit with
    \<open>combined_prover.rs\<close>). A circuit is a function from its witness to a failed assertion or to its
    public outputs. \<open>Spending\<close> joins circuits and pool: a note is spent at most once with the same key, and
    the rebuilt paths, the host prover, the transfer circuit and the handler of the pool fit together.
  \<^item> \<open>Bridge\<close> (\<open>module.rs\<close>, \<open>types.rs\<close>, \<open>helios_types.rs\<close>, \<open>verifier.rs\<close>, \<open>helios.rs\<close>), with its
    ledger of emitted events in \<open>Bridge_Ledger\<close> and its properties in \<open>Bridge_Properties\<close>;
    \<open>Guest_Helios\<close> (the light client circuit and its SSZ code), \<open>Rlp\<close> and \<open>Guest_Deposit\<close> (the
    Merkle-Patricia verifier and the deposit circuit).
  \<^item> \<open>Requests\<close>: programs that talk to the outside. The outside is an argument whose answer may depend
    on all requests made before; an operation returns its result and the extended history, and
    \<open>sends\<close> and \<open>justified\<close> state what may be in a history and why. \<open>Http_Client\<close> (JSON values, GET and
    JSON-RPC requests), \<open>Beacon_Api\<close> (\<open>zk-bridge/src/beacon_api.rs\<close>), \<open>Relayer\<close> (\<open>relayer.rs\<close>) and
    \<open>Relayer_Properties\<close> build on it. \<open>Rollup\<close> (\<open>crates/stf\<close>, \<open>examples/value-setter\<close>) composes the
    modules into the runtime with genesis, authentication and dispatch; \<open>Rollup_Properties\<close> states
    what holds for every list of calls, with the pool and the bridge on one shared tree;
    \<open>Delegation\<close> (\<open>delegation.rs\<close>) holds the hooks, the capabilities and the kernel that the runtime hands
    to the SDK. \<open>Witness_Stream\<close>: the hand-written serializer of the light client witness
    (\<open>beacon_api.rs\<close>), which loses nothing. \<open>Rollup_Node\<close> (\<open>crates/rollup\<close>, parts of
    \<open>crates/stf/src/runtime.rs\<close>, \<open>scripts/soak-test\<close>): the builds that compile, the start of the node and of the
    mock DA server, the EIP-712 endpoint, the ids of the soak test's workers; \<open>Rollup_Height\<close>: its utility that
    prints the height.
  \<^item> \<open>Node_Discovery\<close> (\<open>crates/utils/node-discovery\<close>): the backend file of the proxy and its reload.
  \<^item> The acceptance test (\<open>scripts/acceptance-test\<close>), which runs a plan of rollup versions one after
    the other and checks each of them: \<open>Host_Files\<close> models paths and a file system; \<open>Acceptance_Config\<close>
    (\<open>config.rs\<close>, the directories of \<open>lib.rs\<close>, saving and restoring of the database),
    \<open>Acceptance_Plan\<close> (\<open>versioned_setup.rs\<close>), \<open>Acceptance_Slots\<close> (\<open>fetch_and_compare.rs\<close>, the resync loop
    of \<open>main.rs\<close>), \<open>Acceptance_State\<close> (\<open>state_consistency.rs\<close>), \<open>Evm_Soak\<close> (\<open>evm_soak.rs\<close>),
    \<open>Acceptance_Soak\<close> (\<open>lib.rs\<close>: processes, signals, the soak loop), \<open>Acceptance_Build\<close> (\<open>build.rs\<close>),
    \<open>Acceptance_Run\<close> (what the programs \<open>bin/setup.rs\<close> and \<open>main.rs\<close> prepare and leave on disk),
    \<open>Manual_Setup\<close> (the transactions by hand of \<open>bin/setup.rs\<close>) and \<open>Test_Programs\<close> (both programs
    from the first to the last step, with the guards of the database and of the rollup process).

  \<^bold>\<open>What the lemmas show.\<close> For the modules: every reachable state refines an abstract history (the
  list of commitments, the list of events), nullifiers and deposit keys are used once, counters equal
  the sums of the history, and every inserted commitment has a proof the tree's own verifier accepts.
  For the circuits: an accepted witness implies the statement about the tree whose root it names, up
  to an explicit collision of the hash on the preimages involved. Several properties state how the
  code deviates from what its comments promise: they describe the code as it is.

  For the programs around the rollup: what they send rests on what they were told (a claim on a
  deposit log, an assertion on the observed heights, a reload on a checked configuration), files
  they write are the files they later read, and a run that reports success has seen what success
  stands for.

  \<^bold>\<open>Parameters.\<close> Hash functions, X25519, the hex crate, the Groth16 verifier and the prover SDK of SP1,
  the recursion primitive, serializers, git, cargo, docker and the RPC client of the EVM are arguments
  of the definitions that call them. Wall-clock time, the authenticated sender, randomness, the
  command line and the environment are arguments too, and so are the events that a
  \<open>tokio::select\<close> may see: a run is an arbitrary list of them.

  \<^bold>\<open>Bounds and fuel.\<close> Loops over a fixed depth are structural recursion; \<open>rlp_decode_list\<close> and the
  circuit that calls it are partial functions, as one input makes them run forever. Loops that the
  code bounds by attempts or by time count attempts (600 and 20 polls of the state worker, 30 checks
  of postgres, 600 of the sequencer, as many receipts as the caller allows); the loops of the relayer,
  the workers and the soak run go on until the outside ends them, and are functions of the number of
  polls or of the list of events, with statements about every such number or list. Unsigned 64-bit
  arithmetic wraps as in a release build, and panics where the code uses a checked operation; \<open>usize\<close>
  is a 64-bit word where a length may overflow and \<open>nat\<close> elsewhere.

  \<^bold>\<open>Not modelled.\<close> Gas, failures of the state backend, serialization of call messages, REST routing of
  the modules, the transport of HTTP, and asynchronous scheduling inside a step belong to frameworks.
  Of the rollup node (\<open>crates/rollup\<close>) only what the code decides itself is modelled: the types it
  chooses for the SDK's blueprint, the constructors it forwards to, the node's REST and RPC routers,
  the zkVM entry points of the rollup and the build scripts of the guests contain calls into the
  SDK only. The blueprint that executes blocks and transactions belongs to the SDK; the properties of the
  rollup are about lists of calls. The circuit of the light client does not compile (its witness derives
  serde instances that do not exist), so no reader of its input is modelled. Of the acceptance test, the system calls that create a process, command-line parsing and
  quotients in floating point are left out. The file system of the model has no links and no
  permissions. The Solidity and TypeScript parts of the repository are not part of the rollup's
  implementation.
\<close>

end
